(* ===== verification/Prelude.thy ===== *)
theory Prelude
  imports Main "HOL-Library.Word"
begin

text \<open>
  Shared vocabulary of the development: the machine integer types of the Rust code, the
  saturating operations the code calls on them, Rust's integer casts, the pointer and
  identifier types, and the generic lemmas that more than one component uses.

  Conventions.  A Rust \<open>HashMap\<close> is an association list (\<open>HashMap\<close>), a \<open>VecDeque\<close> or
  \<open>Vec\<close> is a list, a \<open>Result\<close> is a sum with \<open>Inl\<close> for the error, an \<open>Option\<close> is an
  option.  Arithmetic on machine integers is the arithmetic of the release profile, which
  wraps; the places where the debug profile would panic instead are named at the definition.
  Results of calls into libraries that are not part of the repository (pjsip, Opus, tokio,
  reqwest, SQLite) are arguments of the definitions that make the calls.
\<close>

named_theorems registry_ops \<open>definitions of the operations on the registries shared with pjsip\<close>

subsection \<open>Machine integers\<close>

type_synonym u8 = "8 word"
type_synonym u16 = "16 word"
type_synonym u32 = "32 word"
type_synonym u64 = "64 word"
type_synonym i16 = "16 word"
type_synonym i32 = "32 word"
type_synonym i64 = "64 word"

text \<open>\<open>saturating_sub\<close> of the unsigned types.\<close>

definition saturating_sub :: "'a::len word \<Rightarrow> 'a word \<Rightarrow> 'a word" where
  "saturating_sub a b = (if a < b then 0 else a - b)"

lemma unat_saturating_sub: "unat (saturating_sub a b) = unat a - unat b"
proof (cases "a < b")
  case True
  then show ?thesis by (simp add: saturating_sub_def word_less_nat_alt)
next
  case False
  then have "b \<le> a" by simp
  then show ?thesis by (simp add: saturating_sub_def unat_sub)
qed

lemma unat_plus_one:
  fixes x :: "'a::len word"
  assumes "x < y"
  shows "unat (x + 1) = unat x + 1"
proof -
  have "x < - 1" using assms word_order.extremum_strict by (metis order_less_le_trans word_order.extremum)
  then have "x + 1 \<noteq> 0" by (metis add.inverse_inverse add_eq_0_iff add.commute order_less_irrefl)
  then show ?thesis using unatSuc [of x] by (simp add: add.commute)
qed

text \<open>The widening and narrowing \<open>as\<close> casts between \<open>u32\<close> and \<open>i64\<close>.\<close>

lemma ucast_u32_u64_u32: "(ucast (ucast (x :: u32) :: u64) :: u32) = x"
  by transfer (simp add: take_bit_take_bit)

lemma unat_ucast_u32_u64: "unat (ucast (x :: u32) :: u64) = unat x"
proof -
  have "unat x < 2 ^ 64" using unsigned_less[of x, where ?'a = nat] by simp
  then show ?thesis by (simp add: unsigned_ucast_eq take_bit_nat_eq_self)
qed

subsection \<open>Identifiers\<close>

type_synonym call_id = int
type_synonym conf_id = int
type_synonym port = nat
type_synonym pool = nat
type_synonym pj_status = int

subsection \<open>Lists\<close>

lemma all_nth_update:
  assumes "\<forall>j < length xs. P j (xs ! j)" and "P i y"
  shows "\<forall>j < length xs. P j (xs[i := y] ! j)"
  using assms by (metis nth_list_update_eq nth_list_update_neq)

end
