(* ===== verification/RustStr.thy ===== *)
theory RustStr
  imports Prelude
begin

text \<open>
  The part of Rust's \<open>str\<close> and \<open>char\<close> that the program uses.  A Rust string is a
  sequence of Unicode scalar values, so \<open>rstr\<close> is a list of code points.  The program
  slices strings at byte offsets; every offset it computes is the position of an ASCII
  character or of the end of a match, which is a character boundary, so offsets count code
  points here and the slices are the same.
\<close>

type_synonym uchar = nat
type_synonym rstr = "uchar list"

text \<open>A string literal of the source.\<close>

definition lit :: "string \<Rightarrow> rstr" where
  "lit s = map of_char s"

lemma lit_append: "lit (s @ t) = lit s @ lit t"
  by (simp add: lit_def)

lemma lit_Nil [simp]: "lit [] = []"
  by (simp add: lit_def)

lemma lit_eq_Nil [simp]: "lit s = [] \<longleftrightarrow> s = []"
  by (simp add: lit_def)

subsection \<open>Character classes\<close>

text \<open>\<open>char::is_whitespace\<close>: the Unicode property \<open>White_Space\<close>.\<close>

definition is_whitespace :: "uchar \<Rightarrow> bool" where
  "is_whitespace c \<longleftrightarrow>
     (9 \<le> c \<and> c \<le> 13) \<or> c = 32 \<or> c = 133 \<or> c = 160 \<or> c = 5760 \<or>
     (8192 \<le> c \<and> c \<le> 8202) \<or> c = 8232 \<or> c = 8233 \<or> c = 8239 \<or> c = 8287 \<or> c = 12288"

definition is_ascii_digit :: "uchar \<Rightarrow> bool" where
  "is_ascii_digit c \<longleftrightarrow> 48 \<le> c \<and> c \<le> 57"

definition is_ascii_upper :: "uchar \<Rightarrow> bool" where
  "is_ascii_upper c \<longleftrightarrow> 65 \<le> c \<and> c \<le> 90"

definition is_ascii_lower :: "uchar \<Rightarrow> bool" where
  "is_ascii_lower c \<longleftrightarrow> 97 \<le> c \<and> c \<le> 122"

definition is_ascii_alphabetic :: "uchar \<Rightarrow> bool" where
  "is_ascii_alphabetic c \<longleftrightarrow> is_ascii_upper c \<or> is_ascii_lower c"

definition is_ascii_alphanumeric :: "uchar \<Rightarrow> bool" where
  "is_ascii_alphanumeric c \<longleftrightarrow> is_ascii_alphabetic c \<or> is_ascii_digit c"

definition lower_char :: "uchar \<Rightarrow> uchar" where
  "lower_char c = (if is_ascii_upper c then c + 32 else c)"

definition to_ascii_lowercase :: "rstr \<Rightarrow> rstr" where
  "to_ascii_lowercase s = map lower_char s"

lemmas char_class_defs =
  is_whitespace_def is_ascii_digit_def is_ascii_upper_def is_ascii_lower_def
  is_ascii_alphabetic_def is_ascii_alphanumeric_def lower_char_def

lemma lower_char_not_upper [simp]: "\<not> is_ascii_upper (lower_char c)"
  by (simp add: char_class_defs)

lemma lower_char_idem [simp]: "lower_char (lower_char c) = lower_char c"
  by (simp add: char_class_defs)

lemma to_ascii_lowercase_idem: "to_ascii_lowercase (to_ascii_lowercase s) = to_ascii_lowercase s"
  by (simp add: to_ascii_lowercase_def)

lemma length_to_ascii_lowercase [simp]: "length (to_ascii_lowercase s) = length s"
  by (simp add: to_ascii_lowercase_def)

lemma digit_not_whitespace: "is_ascii_digit c \<Longrightarrow> \<not> is_whitespace c"
  by (simp add: char_class_defs)

lemma alnum_not_whitespace: "is_ascii_alphanumeric c \<Longrightarrow> \<not> is_whitespace c"
  by (auto simp: char_class_defs)

subsection \<open>Trimming\<close>

definition trim_start :: "rstr \<Rightarrow> rstr" where
  "trim_start s = dropWhile is_whitespace s"

definition trim_end_by :: "(uchar \<Rightarrow> bool) \<Rightarrow> rstr \<Rightarrow> rstr" where
  "trim_end_by P s = rev (dropWhile P (rev s))"

definition trim :: "rstr \<Rightarrow> rstr" where
  "trim s = trim_end_by is_whitespace (trim_start s)"

text \<open>\<open>trim_matches(c)\<close>: strip a character at both ends.\<close>

definition trim_matches :: "uchar \<Rightarrow> rstr \<Rightarrow> rstr" where
  "trim_matches c s = trim_end_by ((=) c) (dropWhile ((=) c) s)"

lemma set_trim_end_by: "set (trim_end_by P s) \<subseteq> set s"
  by (auto simp: trim_end_by_def dest: set_dropWhileD)

lemma set_trim: "set (trim s) \<subseteq> set s"
  using set_trim_end_by[of is_whitespace "trim_start s"]
  by (auto simp: trim_def trim_start_def dest: set_dropWhileD)

lemma trim_end_by_last: "trim_end_by P s \<noteq> [] \<Longrightarrow> \<not> P (last (trim_end_by P s))"
  using hd_dropWhile[of P "rev s"] by (auto simp: trim_end_by_def last_rev)

lemma trim_end_by_prefix: "\<exists>w. s = trim_end_by P s @ w"
proof -
  have "rev s = takeWhile P (rev s) @ dropWhile P (rev s)" by simp
  then have "rev (rev s) = rev (dropWhile P (rev s)) @ rev (takeWhile P (rev s))"
    by (metis rev_append)
  then show ?thesis unfolding trim_end_by_def by auto
qed

lemma trim_end_by_hd:
  assumes "trim_end_by P s \<noteq> []"
  shows "hd (trim_end_by P s) = hd s"
  using assms trim_end_by_prefix[of s P] by (metis hd_append2)

lemma trim_ends:
  assumes "trim s \<noteq> []"
  shows "\<not> is_whitespace (hd (trim s))" and "\<not> is_whitespace (last (trim s))"
proof -
  have ne: "trim_start s \<noteq> []"
    using assms by (auto simp: trim_def trim_end_by_def)
  then have "\<not> is_whitespace (hd (trim_start s))"
    unfolding trim_start_def by (rule hd_dropWhile)
  then show "\<not> is_whitespace (hd (trim s))"
    using assms trim_end_by_hd[of is_whitespace "trim_start s"] by (simp add: trim_def)
  show "\<not> is_whitespace (last (trim s))"
    using assms trim_end_by_last unfolding trim_def by blast
qed

lemma trim_end_by_id: "s = [] \<or> \<not> P (last s) \<Longrightarrow> trim_end_by P s = s"
  by (cases s rule: rev_cases) (auto simp: trim_end_by_def)

lemma trim_id: "s = [] \<or> (\<not> is_whitespace (hd s) \<and> \<not> is_whitespace (last s)) \<Longrightarrow> trim s = s"
  by (cases s) (auto simp: trim_def trim_start_def trim_end_by_id)

lemma trim_idem: "trim (trim s) = trim s"
  by (rule trim_id) (use trim_ends in blast)

lemma trim_eq_Nil: "trim s = [] \<longleftrightarrow> (\<forall>c \<in> set s. is_whitespace c)"
  by (auto simp: trim_def trim_start_def trim_end_by_def dropWhile_eq_Nil_conv
      dest: set_dropWhileD)
    (metis dropWhile_eq_Nil_conv hd_dropWhile hd_in_set)

subsection \<open>Prefixes and searching\<close>

fun starts_with :: "rstr \<Rightarrow> rstr \<Rightarrow> bool" where
  "starts_with s [] = True"
| "starts_with [] (p # ps) = False"
| "starts_with (c # s) (p # ps) = (c = p \<and> starts_with s ps)"

definition strip_prefix :: "rstr \<Rightarrow> rstr \<Rightarrow> rstr option" where
  "strip_prefix p s = (if starts_with s p then Some (drop (length p) s) else None)"

text \<open>\<open>str::find\<close> of a non-empty pattern, and of a character class.\<close>

fun find_sub :: "rstr \<Rightarrow> rstr \<Rightarrow> nat option" where
  "find_sub [] p = (if p = [] then Some 0 else None)"
| "find_sub (c # s) p =
     (if starts_with (c # s) p then Some 0 else map_option Suc (find_sub s p))"

fun find_char :: "(uchar \<Rightarrow> bool) \<Rightarrow> rstr \<Rightarrow> nat option" where
  "find_char P [] = None"
| "find_char P (c # s) = (if P c then Some 0 else map_option Suc (find_char P s))"

lemma starts_with_iff: "starts_with s p \<longleftrightarrow> (\<exists>t. s = p @ t)"
  by (induction s p rule: starts_with.induct) auto

lemma starts_with_append [simp]: "starts_with (p @ t) p"
  by (auto simp: starts_with_iff)

lemma starts_with_length: "starts_with s p \<Longrightarrow> length p \<le> length s"
  by (auto simp: starts_with_iff)

lemma strip_prefix_Some: "strip_prefix p s = Some t \<longleftrightarrow> s = p @ t"
  by (auto simp: strip_prefix_def starts_with_iff)

lemma find_sub_Some:
  "find_sub s p = Some i \<Longrightarrow>
     i + length p \<le> length s \<and> starts_with (drop i s) p \<and> (\<forall>j < i. \<not> starts_with (drop j s) p)"
proof (induction s arbitrary: i)
  case Nil
  then show ?case by (auto split: if_splits)
next
  case (Cons c s)
  show ?case
  proof (cases "starts_with (c # s) p")
    case True
    with Cons.prems show ?thesis using starts_with_length by fastforce
  next
    case False
    with Cons.prems obtain k where k: "find_sub s p = Some k" "i = Suc k" by auto
    from Cons.IH[OF k(1)] False k(2) show ?thesis
      by (auto simp: less_Suc_eq_0_disj)
  qed
qed

lemma find_sub_None: "find_sub s p = None \<Longrightarrow> j \<le> length s \<Longrightarrow> \<not> starts_with (drop j s) p"
proof (induction s arbitrary: j)
  case Nil
  then show ?case by (cases p) auto
next
  case (Cons c s)
  then show ?case by (cases j) (auto split: if_splits)
qed

lemma find_char_Some:
  "find_char P s = Some i \<longleftrightarrow> i < length s \<and> P (s ! i) \<and> (\<forall>j < i. \<not> P (s ! j))"
proof (induction s arbitrary: i)
  case Nil
  then show ?case by simp
next
  case (Cons c s)
  then show ?case by (cases i) (auto simp: less_Suc_eq_0_disj)
qed

lemma find_char_None: "find_char P s = None \<longleftrightarrow> (\<forall>c \<in> set s. \<not> P c)"
  by (induction s) auto

lemma take_find_char: "find_char P s = Some i \<Longrightarrow> take i s = takeWhile (\<lambda>c. \<not> P c) s"
  by (induction s arbitrary: i) (auto split: if_splits)

subsection \<open>Replacing\<close>

text \<open>\<open>str::replace\<close> of a non-empty pattern: left to right, without overlaps.\<close>

function replace_str :: "rstr \<Rightarrow> rstr \<Rightarrow> rstr \<Rightarrow> rstr" where
  "replace_str p r s =
     (if p = [] then s
      else case s of
        [] \<Rightarrow> []
      | c # s' \<Rightarrow>
          (if starts_with s p then r @ replace_str p r (drop (length p) s)
           else c # replace_str p r s'))"
  by pat_completeness auto
termination
  by (relation "measure (\<lambda>(p, r, s). length s)") auto

declare replace_str.simps [simp del]

lemma replace_str_Nil [simp]: "replace_str p r [] = []"
  by (simp add: replace_str.simps)

lemma replace_str_match: "p \<noteq> [] \<Longrightarrow> replace_str p r (p @ s) = r @ replace_str p r s"
  by (subst replace_str.simps) (cases p, auto)

lemma replace_str_step:
  "p \<noteq> [] \<Longrightarrow> \<not> starts_with (c # s) p \<Longrightarrow> replace_str p r (c # s) = c # replace_str p r s"
  by (subst replace_str.simps) simp

lemma replace_str_other_head:
  "p \<noteq> [] \<Longrightarrow> c \<noteq> hd p \<Longrightarrow> replace_str p r (c # s) = c # replace_str p r s"
  by (cases p) (auto intro!: replace_str_step)

lemma replace_str_skip:
  assumes "p \<noteq> []" and "\<forall>c \<in> set w. c \<noteq> hd p"
  shows "replace_str p r (w @ s) = w @ replace_str p r s"
  using assms(2) by (induction w) (use assms(1) in \<open>auto simp: replace_str_other_head\<close>)

text \<open>\<open>str::replace\<close> of one character by a string.\<close>

definition replace_char :: "uchar \<Rightarrow> rstr \<Rightarrow> rstr \<Rightarrow> rstr" where
  "replace_char c r s = concat (map (\<lambda>x. if x = c then r else [x]) s)"

lemma set_replace_char: "set (replace_char c r s) \<subseteq> (set s - {c}) \<union> set r"
  by (auto simp: replace_char_def split: if_splits)

lemma replace_char_eq_Nil: "r \<noteq> [] \<Longrightarrow> replace_char c r s = [] \<longleftrightarrow> s = []"
  by (cases s) (auto simp: replace_char_def)

subsection \<open>Splitting and joining\<close>

text \<open>\<open>str::split\<close> on a character class: never empty, separators dropped.\<close>

fun split_on :: "(uchar \<Rightarrow> bool) \<Rightarrow> rstr \<Rightarrow> rstr list" where
  "split_on P [] = [[]]"
| "split_on P (c # s) =
     (if P c then [] # split_on P s
      else case split_on P s of [] \<Rightarrow> [[c]] | w # ws \<Rightarrow> (c # w) # ws)"

definition split_whitespace :: "rstr \<Rightarrow> rstr list" where
  "split_whitespace s = filter (\<lambda>w. w \<noteq> []) (split_on is_whitespace s)"

fun join :: "rstr \<Rightarrow> rstr list \<Rightarrow> rstr" where
  "join sep [] = []"
| "join sep [w] = w"
| "join sep (w # v # vs) = w @ sep @ join sep (v # vs)"

definition collapse_whitespace :: "rstr \<Rightarrow> rstr" where
  "collapse_whitespace s = join (lit '' '') (split_whitespace s)"

lemma split_on_ne [simp]: "split_on P s \<noteq> []"
  by (cases s) (auto split: list.splits)

lemma split_on_pieces: "w \<in> set (split_on P s) \<Longrightarrow> c \<in> set w \<Longrightarrow> c \<in> set s \<and> \<not> P c"
proof (induction s arbitrary: w)
  case Nil
  then show ?case by simp
next
  case (Cons a s)
  then show ?case by (cases "split_on P s") (fastforce split: if_splits)+
qed

lemma split_on_hd: "hd (split_on P s) = takeWhile (\<lambda>c. \<not> P c) s"
  by (induction s) (auto split: list.splits dest: arg_cong[of _ _ hd])

lemma split_on_no_sep: "\<forall>c \<in> set s. \<not> P c \<Longrightarrow> split_on P s = [s]"
  by (induction s) auto

lemma split_on_append_sep:
  "\<forall>c \<in> set w. \<not> P c \<Longrightarrow> P d \<Longrightarrow> split_on P (w @ d # s) = w # split_on P s"
  by (induction w) auto

lemma split_on_cons_sep: "P d \<Longrightarrow> split_on P (d # s) = [] # split_on P s"
  by simp

lemma split_whitespace_words:
  "w \<in> set (split_whitespace s) \<Longrightarrow> w \<noteq> [] \<and> (\<forall>c \<in> set w. c \<in> set s \<and> \<not> is_whitespace c)"
  by (auto simp: split_whitespace_def dest: split_on_pieces)

lemma split_whitespace_join:
  assumes "\<forall>w \<in> set ws. w \<noteq> [] \<and> (\<forall>c \<in> set w. \<not> is_whitespace c)"
  shows "split_whitespace (join (lit '' '') ws) = ws"
  using assms
proof (induction "lit '' ''" ws rule: join.induct)
  case 1
  then show ?case by (simp add: split_whitespace_def)
next
  case (2 w)
  then show ?case by (simp add: split_whitespace_def split_on_no_sep)
next
  case (3 w v vs)
  have sp: "lit '' '' = [32]" and ws32: "is_whitespace 32"
    by (simp_all add: lit_def is_whitespace_def)
  from 3 have "split_on is_whitespace (w @ 32 # join [32] (v # vs))
      = w # split_on is_whitespace (join [32] (v # vs))"
    by (intro split_on_append_sep) (use ws32 in auto)
  with 3 sp show ?case by (auto simp: split_whitespace_def)
qed

text \<open>Collapsing keeps exactly the words, and is idempotent.\<close>

lemma split_collapse_whitespace: "split_whitespace (collapse_whitespace s) = split_whitespace s"
  unfolding collapse_whitespace_def
  by (rule split_whitespace_join) (auto dest: split_whitespace_words)

lemma collapse_whitespace_idem: "collapse_whitespace (collapse_whitespace s) = collapse_whitespace s"
  by (simp only: collapse_whitespace_def[of "collapse_whitespace s"] split_collapse_whitespace)
    (simp add: collapse_whitespace_def)

lemma set_join: "set (join sep ws) \<subseteq> set sep \<union> (\<Union>w \<in> set ws. set w)"
  by (induction sep ws rule: join.induct) auto

lemma join_eq_Nil: "sep \<noteq> [] \<Longrightarrow> join sep ws = [] \<longleftrightarrow> ws = [] \<or> ws = [[]]"
  by (cases "(sep, ws)" rule: join.cases) auto

subsection \<open>Decimal rendering of unsigned integers\<close>

fun show_nat :: "nat \<Rightarrow> rstr" where
  "show_nat n = (if n < 10 then [48 + n] else show_nat (n div 10) @ [48 + n mod 10])"

declare show_nat.simps [simp del]

lemma show_nat_digits: "c \<in> set (show_nat n) \<Longrightarrow> is_ascii_digit c"
proof (induction n rule: show_nat.induct)
  case (1 n)
  show ?case
  proof (cases "n < 10")
    case True
    with 1 show ?thesis by (auto simp: show_nat.simps[of n] is_ascii_digit_def)
  next
    case False
    have "n mod 10 < 10" by simp
    then have "48 + n mod 10 \<le> 57" by linarith
    with 1 False show ?thesis by (auto simp: show_nat.simps[of n] is_ascii_digit_def)
  qed
qed

lemma show_nat_ne [simp]: "show_nat n \<noteq> []"
  by (subst show_nat.simps) simp

end
