(* ===== verification/HashMap.thy ===== *)
theory HashMap
  imports Prelude "HOL-Library.AList" "HOL-Library.Multiset"
begin

text \<open>
  Rust's \<^verbatim>\<open>HashMap\<close> as the program uses it: lookup, insertion, removal, length and iteration.
  A map is an association list with distinct keys (\<open>hm_wf\<close>); the order of the list stands for
  the unspecified iteration order.  All operations compute, so states evaluate.
\<close>

type_synonym ('k, 'v) hashmap = "('k \<times> 'v) list"

abbreviation hm_get :: "('k, 'v) hashmap \<Rightarrow> 'k \<Rightarrow> 'v option" where
  "hm_get m k \<equiv> map_of m k"

abbreviation hm_insert :: "'k \<Rightarrow> 'v \<Rightarrow> ('k, 'v) hashmap \<Rightarrow> ('k, 'v) hashmap" where
  "hm_insert \<equiv> AList.update"

abbreviation hm_remove :: "'k \<Rightarrow> ('k, 'v) hashmap \<Rightarrow> ('k, 'v) hashmap" where
  "hm_remove \<equiv> AList.delete"

definition hm_contains :: "'k \<Rightarrow> ('k, 'v) hashmap \<Rightarrow> bool" where
  "hm_contains k m \<longleftrightarrow> hm_get m k \<noteq> None"

definition hm_wf :: "('k, 'v) hashmap \<Rightarrow> bool" where
  "hm_wf m \<longleftrightarrow> distinct (map fst m)"

definition hm_keys :: "('k, 'v) hashmap \<Rightarrow> 'k set" where
  "hm_keys m = fst ` set m"

lemma hm_get_insert [simp]:
  "hm_get (hm_insert k v m) k' = (if k' = k then Some v else hm_get m k')"
  by (simp add: update_conv')

lemma hm_get_remove [simp]:
  "hm_get (hm_remove k m) k' = (if k' = k then None else hm_get m k')"
  by (simp add: delete_conv')

lemma hm_wf_Nil [simp]: "hm_wf []"
  by (simp add: hm_wf_def)

lemma hm_wf_insert [simp]: "hm_wf m \<Longrightarrow> hm_wf (hm_insert k v m)"
  by (simp add: hm_wf_def distinct_update)

lemma hm_wf_remove [simp]: "hm_wf m \<Longrightarrow> hm_wf (hm_remove k m)"
  by (simp add: hm_wf_def distinct_delete)

lemma hm_keys_insert [simp]: "hm_keys (hm_insert k v m) = insert k (hm_keys m)"
  by (simp add: hm_keys_def dom_update)

lemma hm_keys_remove [simp]: "hm_keys (hm_remove k m) = hm_keys m - {k}"
  by (auto simp: hm_keys_def delete_conv' simp flip: dom_map_of_conv_image_fst)

lemma hm_keys_Nil [simp]: "hm_keys [] = {}"
  by (simp add: hm_keys_def)

lemma hm_get_None_iff: "hm_get m k = None \<longleftrightarrow> k \<notin> hm_keys m"
  by (simp add: hm_keys_def map_of_eq_None_iff)

lemma hm_contains_iff: "hm_contains k m \<longleftrightarrow> k \<in> hm_keys m"
  by (auto simp: hm_contains_def hm_get_None_iff)

lemma hm_get_SomeD: "hm_get m k = Some v \<Longrightarrow> k \<in> hm_keys m"
  by (rule ccontr) (simp flip: hm_get_None_iff)

lemma hm_keys_get: "k \<in> hm_keys m \<Longrightarrow> \<exists>v. hm_get m k = Some v"
  by (cases "hm_get m k") (simp_all add: hm_get_None_iff)

lemma hm_length:
  assumes "hm_wf m"
  shows "length m = card (hm_keys m)"
proof -
  from assms have "card (set (map fst m)) = length (map fst m)"
    unfolding hm_wf_def by (rule distinct_card)
  then show ?thesis by (simp only: hm_keys_def list.set_map length_map)
qed

lemma finite_hm_keys [simp]: "finite (hm_keys m)"
  by (simp add: hm_keys_def)

lemma hm_length_insert_new: "hm_get m k = None \<Longrightarrow> length (hm_insert k v m) = Suc (length m)"
  by (induction m) (auto split: if_splits)

lemma hm_length_insert_old:
  "hm_get m k \<noteq> None \<Longrightarrow> length (hm_insert k v m) = length m"
  by (induction m) (auto split: if_splits)

lemma hm_length_insert_le: "length (hm_insert k v m) \<le> Suc (length m)"
  by (induction m) auto

lemma hm_length_remove_le: "length (hm_remove k m) \<le> length m"
  by (simp add: length_delete_le)

lemma hm_remove_absent [simp]: "hm_get m k = None \<Longrightarrow> hm_remove k m = m"
  by (simp add: map_of_eq_None_iff delete_idem)

lemma hm_length_remove:
  assumes "hm_wf m" and "hm_get m k = Some v"
  shows "Suc (length (hm_remove k m)) = length m"
proof -
  have "k \<in> hm_keys m" using assms(2) by (rule hm_get_SomeD)
  then have "card (hm_keys m - {k}) = card (hm_keys m) - 1" "0 < card (hm_keys m)"
    by (auto simp: card_Diff_singleton card_gt_0_iff)
  with assms(1) show ?thesis by (simp add: hm_length)
qed

lemma hm_in_set_iff: "hm_wf m \<Longrightarrow> (k, v) \<in> set m \<longleftrightarrow> hm_get m k = Some v"
  by (simp add: hm_wf_def map_of_eq_Some_iff)

text \<open>Keeping the entries that satisfy a predicate.\<close>

lemma hm_wf_filter: "hm_wf m \<Longrightarrow> hm_wf (filter P m)"
  by (simp add: hm_wf_def distinct_map_filter)

lemma hm_wf_map_snd: "hm_wf (map (\<lambda>(k, v). (k, f k v)) m) = hm_wf m"
  by (simp add: hm_wf_def comp_def case_prod_beta)

lemma hm_get_map_snd: "hm_get (map (\<lambda>(k, v). (k, f k v)) m) k = map_option (f k) (hm_get m k)"
  by (induction m) auto

lemma hm_keys_map_snd [simp]: "hm_keys (map (\<lambda>(k, v). (k, f k v)) m) = hm_keys m"
  by (force simp: hm_keys_def)

subsection \<open>What a map holds, as a multiset\<close>

text \<open>\<open>hm_values f m\<close> collects what \<open>f\<close> reads from the values: insertion adds at most what the
  new value holds, removal gives up what the removed value held.\<close>

definition hm_values :: "('v \<Rightarrow> 'a multiset) \<Rightarrow> ('k, 'v) hashmap \<Rightarrow> 'a multiset" where
  "hm_values f m = sum_list (map (f \<circ> snd) m)"

lemma hm_values_Nil [simp]: "hm_values f [] = {#}"
  by (simp add: hm_values_def)

lemma hm_values_insert: "hm_values f (hm_insert k v m) \<subseteq># f v + hm_values f m"
proof (induction m)
  case (Cons a m)
  have "f (snd a) + hm_values f (hm_insert k v m) \<subseteq># f (snd a) + (f v + hm_values f m)"
    using Cons by simp
  then show ?case
    by (cases a) (auto simp: hm_values_def ac_simps)
qed (simp add: hm_values_def)

lemma hm_values_remove: "hm_values f (hm_remove k m) \<subseteq># hm_values f m"
proof (induction m)
  case (Cons a m)
  then show ?case
    by (cases a) (auto simp: hm_values_def intro: subset_mset.add_increasing)
qed (simp add: hm_values_def)

lemma hm_values_take:
  "hm_get m k = Some v \<Longrightarrow> f v + hm_values f (hm_remove k m) \<subseteq># hm_values f m"
proof (induction m)
  case (Cons a m)
  obtain k' v' where a: "a = (k', v')" by fastforce
  show ?case
  proof (cases "k' = k")
    case True
    then show ?thesis
      using Cons.prems hm_values_remove[of f k m] a by (simp add: hm_values_def)
  next
    case False
    with Cons a have "f v + hm_values f (hm_remove k m) \<subseteq># hm_values f m" by simp
    then have "f v' + (f v + hm_values f (hm_remove k m)) \<subseteq># f v' + hm_values f m" by simp
    with False a show ?thesis by (simp add: hm_values_def ac_simps)
  qed
qed simp

text \<open>The same for a list of values indexed by position.\<close>

definition list_values :: "('v \<Rightarrow> 'a multiset) \<Rightarrow> 'v list \<Rightarrow> 'a multiset" where
  "list_values f xs = sum_list (map f xs)"

lemma list_values_simps [simp]:
  "list_values f [] = {#}" "list_values f (x # xs) = f x + list_values f xs"
  "list_values f (xs @ ys) = list_values f xs + list_values f ys"
  by (simp_all add: list_values_def)

lemma list_values_update:
  "i < length xs \<Longrightarrow> list_values f (xs[i := y]) + f (xs ! i) = list_values f xs + f y"
proof (induction xs arbitrary: i)
  case (Cons x xs)
  then show ?case by (cases i) (auto simp: ac_simps)
qed simp

lemma hm_values_same:
  "hm_get m k = Some v \<Longrightarrow> f v' = f v \<Longrightarrow> hm_values f (hm_insert k v' m) = hm_values f m"
  by (induction m) (auto simp: hm_values_def split: if_splits)

lemma hm_values_member: "hm_get m k = Some v \<Longrightarrow> f v \<subseteq># hm_values f m"
  using hm_values_take[of m k v f] by (metis mset_subset_eq_add_left subset_mset.order_trans)

lemma list_values_member: "x \<in> set xs \<Longrightarrow> f x \<subseteq># list_values f xs"
  by (induction xs) (auto simp: subset_mset.add_increasing subset_mset.add_increasing2)

lemma list_values_take_nth:
  "k < length xs \<Longrightarrow> f (xs ! k) + list_values f (take k xs @ drop (Suc k) xs) = list_values f xs"
proof (induction xs arbitrary: k)
  case (Cons x xs)
  then show ?case by (cases k) (auto simp: ac_simps)
qed simp


subsection \<open>Sequences of writes\<close>

text \<open>A write inserts a value or removes the key; what is read is the last write of the key.\<close>

definition hm_write :: "'k \<times> 'v option \<Rightarrow> ('k, 'v) hashmap \<Rightarrow> ('k, 'v) hashmap" where
  "hm_write w m = (case w of (k, None) \<Rightarrow> hm_remove k m | (k, Some v) \<Rightarrow> hm_insert k v m)"

fun last_write :: "'k \<Rightarrow> ('k \<times> 'v option) list \<Rightarrow> 'v option \<Rightarrow> 'v option" where
  "last_write k [] before = before"
| "last_write k ((k', w) # ws) before = last_write k ws (if k' = k then w else before)"

lemma hm_get_writes: "hm_get (fold hm_write ws m) k = last_write k ws (hm_get m k)"
proof (induction ws arbitrary: m)
  case (Cons w ws)
  obtain k' v where w: "w = (k', v)" by fastforce
  have "hm_get (hm_write w m) k = (if k' = k then v else hm_get m k)"
    by (cases v) (auto simp: hm_write_def w)
  with Cons.IH[of "hm_write w m"] show ?case by (simp add: w)
qed simp

lemma last_write_append: "last_write k (ws @ ws') before = last_write k ws' (last_write k ws before)"
  by (induction k ws before rule: last_write.induct) auto

lemma last_write_absent: "\<forall>w \<in> set ws. fst w \<noteq> k \<Longrightarrow> last_write k ws before = before"
  by (induction k ws before rule: last_write.induct) auto

end
