(* ===== verification/TtsCache.thy ===== *)
theory TtsCache
  imports RustStr HashMap
begin

text \<open>
  \<^verbatim>\<open>CacheState\<close> of \<^verbatim>\<open>src/audio/tts.rs\<close>: the map from cache keys to PCM and the recency
  queue.  \<open>lru_get\<close> and \<open>lru_insert\<close> are the specification, a bounded least-recently-used
  store as one list of entries, oldest first; the code refines it (\<open>cache_abs\<close>) under the
  invariant \<open>cache_inv\<close> that ties the queue to the map.  The locale \<open>bounded_cache\<close> is what
  the synthesis runtime needs of a cache.
\<close>

type_synonym pcm = "i16 list"

definition CACHE_CAPACITY :: nat where "CACHE_CAPACITY = 64"

record cache_state =
  cache_values :: "(rstr, pcm) hashmap"
  cache_order :: "rstr list"

definition cache_new :: cache_state where
  "cache_new = \<lparr>cache_values = [], cache_order = []\<rparr>"

text \<open>\<^verbatim>\<open>order.iter().position(..)\<close> followed by \<^verbatim>\<open>order.remove(pos)\<close>: drop the first occurrence.\<close>

definition cache_get :: "rstr \<Rightarrow> cache_state \<Rightarrow> pcm option \<times> cache_state" where
  "cache_get key c =
     (case hm_get (cache_values c) key of
        None \<Rightarrow> (None, c)
      | Some value \<Rightarrow>
          (Some value, c\<lparr>cache_order := remove1 key (cache_order c) @ [key]\<rparr>))"

definition cache_insert :: "rstr \<Rightarrow> pcm \<Rightarrow> cache_state \<Rightarrow> cache_state" where
  "cache_insert key value c =
     (if hm_contains key (cache_values c) then
        c\<lparr>cache_values := hm_insert key value (cache_values c),
          cache_order := remove1 key (cache_order c) @ [key]\<rparr>
      else
        let c' = (if CACHE_CAPACITY \<le> length (cache_values c) then
                    (case cache_order c of
                       [] \<Rightarrow> c
                     | oldest # rest \<Rightarrow>
                         c\<lparr>cache_order := rest,
                           cache_values := hm_remove oldest (cache_values c)\<rparr>)
                  else c)
        in c'\<lparr>cache_order := cache_order c' @ [key],
              cache_values := hm_insert key value (cache_values c')\<rparr>)"

subsection \<open>Invariant\<close>

definition cache_inv :: "cache_state \<Rightarrow> bool" where
  "cache_inv c \<longleftrightarrow>
     hm_wf (cache_values c) \<and> distinct (cache_order c) \<and>
     set (cache_order c) = hm_keys (cache_values c) \<and> length (cache_order c) \<le> CACHE_CAPACITY"

lemma cache_inv_lengths: "cache_inv c \<Longrightarrow> length (cache_values c) = length (cache_order c)"
  by (simp add: cache_inv_def hm_length distinct_card flip: distinct_card)

lemma remove1_filter: "distinct xs \<Longrightarrow> remove1 x xs = filter (\<lambda>y. y \<noteq> x) xs"
  by (simp add: distinct_remove1_removeAll removeAll_filter_not_eq) (metis)

lemma length_remove1_snoc: "x \<in> set xs \<Longrightarrow> length (remove1 x xs @ [x]) = length xs"
  by (simp add: length_remove1) (metis One_nat_def Suc_pred length_pos_if_in_set)

lemma cache_new_inv: "cache_inv cache_new"
  by (simp add: cache_inv_def cache_new_def)

lemma cache_get_inv:
  assumes "cache_inv c"
  shows "cache_inv (snd (cache_get key c))"
proof (cases "hm_get (cache_values c) key")
  case None
  with assms show ?thesis by (simp add: cache_get_def)
next
  case (Some v)
  then have "key \<in> set (cache_order c)"
    using assms by (auto simp: cache_inv_def dest: hm_get_SomeD)
  with assms Some show ?thesis
    using length_remove1_snoc[of key "cache_order c"]
    by (auto simp: cache_get_def cache_inv_def)
qed

lemma cache_insert_inv:
  assumes "cache_inv c"
  shows "cache_inv (cache_insert key value c)"
proof (cases "hm_contains key (cache_values c)")
  case True
  then have "key \<in> set (cache_order c)"
    using assms by (simp add: cache_inv_def hm_contains_iff)
  with assms True show ?thesis
    using length_remove1_snoc[of key "cache_order c"]
    by (auto simp: cache_insert_def cache_inv_def)
next
  case False
  then have new: "key \<notin> set (cache_order c)"
    using assms by (simp add: cache_inv_def hm_contains_iff)
  show ?thesis
  proof (cases "CACHE_CAPACITY \<le> length (cache_values c)")
    case full: True
    with assms have "length (cache_order c) = CACHE_CAPACITY" and "cache_order c \<noteq> []"
      using cache_inv_lengths[OF assms] by (auto simp: cache_inv_def CACHE_CAPACITY_def)
    then obtain oldest rest where "cache_order c = oldest # rest" by (cases "cache_order c") auto
    with assms False full new \<open>length (cache_order c) = CACHE_CAPACITY\<close> show ?thesis
      by (auto simp: cache_insert_def cache_inv_def)
  next
    case room: False
    with assms False new cache_inv_lengths[OF assms] show ?thesis
      by (auto simp: cache_insert_def cache_inv_def)
  qed
qed

subsection \<open>Refinement of a bounded recency list\<close>

type_synonym lru = "(rstr \<times> pcm) list"

definition lru_touch :: "rstr \<Rightarrow> pcm \<Rightarrow> lru \<Rightarrow> lru" where
  "lru_touch key v l = filter (\<lambda>e. fst e \<noteq> key) l @ [(key, v)]"

definition lru_get :: "rstr \<Rightarrow> lru \<Rightarrow> pcm option \<times> lru" where
  "lru_get key l =
     (case map_of l key of None \<Rightarrow> (None, l) | Some v \<Rightarrow> (Some v, lru_touch key v l))"

definition lru_insert :: "rstr \<Rightarrow> pcm \<Rightarrow> lru \<Rightarrow> lru" where
  "lru_insert key v l =
     (if map_of l key = None \<and> CACHE_CAPACITY \<le> length l then tl l @ [(key, v)]
      else lru_touch key v l)"

definition cache_abs :: "cache_state \<Rightarrow> lru" where
  "cache_abs c = map (\<lambda>k. (k, the (hm_get (cache_values c) k))) (cache_order c)"

lemma map_of_tagged: "map_of (map (\<lambda>k. (k, f k)) ks) k = (if k \<in> set ks then Some (f k) else None)"
  by (induction ks) auto

lemma cache_abs_lookup:
  assumes "cache_inv c"
  shows "map_of (cache_abs c) k = hm_get (cache_values c) k"
proof (cases "hm_get (cache_values c) k")
  case None
  with assms show ?thesis
    by (simp add: cache_abs_def map_of_tagged cache_inv_def flip: hm_get_None_iff)
next
  case (Some v)
  with assms have "k \<in> set (cache_order c)" by (auto simp: cache_inv_def dest: hm_get_SomeD)
  with Some show ?thesis by (simp add: cache_abs_def map_of_tagged)
qed

lemma length_cache_abs [simp]: "length (cache_abs c) = length (cache_order c)"
  by (simp add: cache_abs_def)

lemma cache_abs_touch:
  assumes "cache_inv c" and "hm_get vs key = Some v"
    and "\<And>k. k \<noteq> key \<Longrightarrow> hm_get vs k = hm_get (cache_values c) k"
  shows "map (\<lambda>k. (k, the (hm_get vs k))) (remove1 key (cache_order c) @ [key])
    = lru_touch key v (cache_abs c)"
  using assms
  by (auto simp: cache_abs_def lru_touch_def cache_inv_def remove1_filter filter_map comp_def)

lemma cache_get_refines:
  assumes "cache_inv c"
  shows "fst (cache_get key c) = fst (lru_get key (cache_abs c))"
    and "cache_abs (snd (cache_get key c)) = snd (lru_get key (cache_abs c))"
proof -
  show "fst (cache_get key c) = fst (lru_get key (cache_abs c))"
    by (simp add: cache_get_def lru_get_def cache_abs_lookup[OF assms] split: option.splits)
  show "cache_abs (snd (cache_get key c)) = snd (lru_get key (cache_abs c))"
  proof (cases "hm_get (cache_values c) key")
    case None
    then show ?thesis by (simp add: cache_get_def lru_get_def cache_abs_lookup[OF assms])
  next
    case (Some v)
    from cache_abs_touch[OF assms Some] Some
    have "cache_abs (snd (cache_get key c)) = lru_touch key v (cache_abs c)"
      by (simp add: cache_get_def) (simp add: cache_abs_def)
    with Some show ?thesis by (simp add: lru_get_def cache_abs_lookup[OF assms])
  qed
qed

lemma cache_abs_append:
  assumes "cache_inv c" and "key \<notin> set ks" and "set ks \<subseteq> set (cache_order c)"
    and "\<And>k. k \<in> set ks \<Longrightarrow> hm_get vs k = hm_get (cache_values c) k"
  shows "map (\<lambda>k. (k, the (hm_get (hm_insert key value vs) k))) (ks @ [key])
    = map (\<lambda>k. (k, the (hm_get (cache_values c) k))) ks @ [(key, value)]"
  using assms by auto

lemma cache_insert_refines:
  assumes "cache_inv c"
  shows "cache_abs (cache_insert key value c) = lru_insert key value (cache_abs c)"
proof (cases "hm_contains key (cache_values c)")
  case True
  then have some: "map_of (cache_abs c) key \<noteq> None"
    by (simp add: hm_contains_def cache_abs_lookup[OF assms])
  have "map (\<lambda>k. (k, the (hm_get (hm_insert key value (cache_values c)) k)))
      (remove1 key (cache_order c) @ [key]) = lru_touch key value (cache_abs c)"
    by (rule cache_abs_touch[OF assms]) simp_all
  with True have "cache_abs (cache_insert key value c) = lru_touch key value (cache_abs c)"
    by (simp add: cache_insert_def) (simp add: cache_abs_def)
  with some show ?thesis by (auto simp: lru_insert_def)
next
  case False
  then have new: "key \<notin> set (cache_order c)"
    using assms by (simp add: cache_inv_def hm_contains_iff)
  from False have none: "map_of (cache_abs c) key = None"
    by (simp add: hm_contains_def cache_abs_lookup[OF assms])
  have filt: "filter (\<lambda>e. fst e \<noteq> key) (cache_abs c) = cache_abs c"
    using new by (auto simp: cache_abs_def filter_id_conv)
  show ?thesis
  proof (cases "CACHE_CAPACITY \<le> length (cache_values c)")
    case full: True
    then obtain oldest rest where o: "cache_order c = oldest # rest"
      using cache_inv_lengths[OF assms] by (cases "cache_order c") (auto simp: CACHE_CAPACITY_def)
    then have "oldest \<notin> set rest" using assms by (simp add: cache_inv_def)
    then have "map (\<lambda>k. (k, the (hm_get (hm_insert key value (hm_remove oldest (cache_values c))) k)))
        (rest @ [key]) = map (\<lambda>k. (k, the (hm_get (cache_values c) k))) rest @ [(key, value)]"
      using o new assms by (intro cache_abs_append) auto
    with False full o none cache_inv_lengths[OF assms] show ?thesis
      by (simp add: cache_insert_def lru_insert_def cache_abs_def)
  next
    case room: False
    with False new none filt cache_inv_lengths[OF assms] show ?thesis
      by (auto simp: cache_insert_def lru_insert_def lru_touch_def)
        (auto simp: cache_abs_def)
  qed
qed

subsection \<open>Recency\<close>

datatype cache_op = OpGet rstr | OpInsert rstr pcm

text \<open>A run of operations, with the keys they touched in order: a hit and an insertion touch.\<close>

fun cache_run :: "cache_op list \<Rightarrow> cache_state \<Rightarrow> cache_state \<times> rstr list" where
  "cache_run [] c = (c, [])"
| "cache_run (OpGet k # ops) c =
     (case cache_get k c of (r, c') \<Rightarrow>
      case cache_run ops c' of (c'', ks) \<Rightarrow> (c'', (if r = None then ks else k # ks)))"
| "cache_run (OpInsert k v # ops) c =
     (case cache_run ops (cache_insert k v c) of (c'', ks) \<Rightarrow> (c'', k # ks))"

definition last_n :: "nat \<Rightarrow> 'a list \<Rightarrow> 'a list" where
  "last_n n xs = drop (length xs - n) xs"

lemma remdups_snoc: "remdups (xs @ [k]) = filter (\<lambda>x. x \<noteq> k) (remdups xs) @ [k]"
  by (induction xs) auto

lemma last_n_split: "\<exists>p. xs = p @ last_n n xs \<and> length (last_n n xs) = min n (length xs)"
  unfolding last_n_def by (rule exI[of _ "take (length xs - n) xs"]) auto

lemma last_n_append: "n \<le> length ys \<Longrightarrow> last_n n (xs @ ys) = last_n n ys"
  by (simp add: last_n_def)

lemma last_n_all: "length xs \<le> n \<Longrightarrow> last_n n xs = xs"
  by (simp add: last_n_def)

lemma last_n_snoc: "last_n (Suc n) (xs @ [x]) = last_n n xs @ [x]"
  by (simp add: last_n_def)

lemma touch_recency:
  fixes ks :: "rstr list"
  assumes "ord = last_n CACHE_CAPACITY (remdups ks)"
  shows "last_n CACHE_CAPACITY (remdups (ks @ [k])) =
    (if k \<in> set ord then filter (\<lambda>x. x \<noteq> k) ord
     else if CACHE_CAPACITY \<le> length ord then tl ord else ord) @ [k]"
proof -
  obtain p where p: "remdups ks = p @ ord" and len: "length ord = min CACHE_CAPACITY (length (remdups ks))"
    using last_n_split[of "remdups ks" CACHE_CAPACITY] assms by auto
  have d: "distinct (p @ ord)" using p distinct_remdups by metis
  have cap: "CACHE_CAPACITY = Suc 63" by (simp add: CACHE_CAPACITY_def)
  have "last_n CACHE_CAPACITY (remdups (ks @ [k]))
      = last_n 63 (filter (\<lambda>x. x \<noteq> k) p @ filter (\<lambda>x. x \<noteq> k) ord) @ [k]"
    using last_n_snoc[of 63 "filter (\<lambda>x. x \<noteq> k) p @ filter (\<lambda>x. x \<noteq> k) ord" k]
    by (simp add: remdups_snoc cap p)
  moreover have "last_n 63 (filter (\<lambda>x. x \<noteq> k) p @ filter (\<lambda>x. x \<noteq> k) ord) =
    (if k \<in> set ord then filter (\<lambda>x. x \<noteq> k) ord
     else if CACHE_CAPACITY \<le> length ord then tl ord else ord)"
  proof (cases "CACHE_CAPACITY \<le> length ord")
    case True
    then have l: "length ord = 64" using len by (simp add: CACHE_CAPACITY_def)
    show ?thesis
    proof (cases "k \<in> set ord")
      case k: True
      then have "length (filter (\<lambda>x. x \<noteq> k) ord) = 63"
        using d l by (simp add: remove1_filter[symmetric] length_remove1)
      with k show ?thesis by (simp add: last_n_append last_n_all)
    next
      case k: False
      then have "filter (\<lambda>x. x \<noteq> k) ord = ord" by (auto simp: filter_id_conv)
      with k True l show ?thesis by (simp add: last_n_def drop_Suc)
    qed
  next
    case False
    have "length (remdups ks) = length p + length ord"
      using arg_cong[OF p, of length] by (simp only: length_append)
    with len False have "length p = 0" and len63: "length ord \<le> 63"
      unfolding CACHE_CAPACITY_def by linarith+
    then have p0: "p = []" by simp
    have "length (filter (\<lambda>x. x \<noteq> k) ord) \<le> 63"
      by (rule le_trans[OF length_filter_le len63])
    then have eq: "last_n 63 (filter (\<lambda>x. x \<noteq> k) p @ filter (\<lambda>x. x \<noteq> k) ord)
        = filter (\<lambda>x. x \<noteq> k) ord"
      unfolding p0 by (simp add: last_n_all)
    show ?thesis
    proof (cases "k \<in> set ord")
      case True
      with eq show ?thesis by simp
    next
      case k: False
      then have "filter (\<lambda>x. x \<noteq> k) ord = ord" by (auto simp: filter_id_conv)
      with eq k False show ?thesis by simp
    qed
  qed
  ultimately show ?thesis by simp
qed

lemma cache_get_order:
  assumes "cache_inv c" and "cache_get k c = (Some v, c')"
  shows "k \<in> set (cache_order c)"
    and "cache_order c' = filter (\<lambda>x. x \<noteq> k) (cache_order c) @ [k]"
    and "cache_values c' = cache_values c" and "hm_get (cache_values c) k = Some v"
  using assms
  by (auto simp: cache_get_def cache_inv_def remove1_filter dest: hm_get_SomeD split: option.splits)

lemma cache_get_miss:
  "cache_get k c = (None, c') \<Longrightarrow> c' = c \<and> hm_get (cache_values c) k = None"
  by (auto simp: cache_get_def split: option.splits)

lemma cache_insert_order:
  assumes "cache_inv c"
  shows "cache_order (cache_insert k v c) =
    (if k \<in> set (cache_order c) then filter (\<lambda>x. x \<noteq> k) (cache_order c)
     else if CACHE_CAPACITY \<le> length (cache_order c) then tl (cache_order c)
     else cache_order c) @ [k]"
proof -
  have "hm_contains k (cache_values c) \<longleftrightarrow> k \<in> set (cache_order c)"
    and d: "distinct (cache_order c)"
    using assms by (simp_all add: cache_inv_def hm_contains_iff)
  then show ?thesis
    using cache_inv_lengths[OF assms]
    by (auto simp: cache_insert_def remove1_filter[OF d] split: list.splits)
qed

lemma cache_insert_lookup:
  "hm_get (cache_values (cache_insert k v c)) k' = Some w \<Longrightarrow>
     (if k' = k then w = v else hm_get (cache_values c) k' = Some w)"
  by (auto simp: cache_insert_def Let_def split: if_splits list.splits)

lemma cache_insert_same: "hm_get (cache_values (cache_insert k v c)) k = Some v"
  by (simp add: cache_insert_def Let_def)

lemma cache_run_recency:
  assumes "cache_inv c" and "cache_order c = last_n CACHE_CAPACITY (remdups pre)"
    and "cache_run ops c = (c', ks)"
  shows "cache_inv c' \<and> cache_order c' = last_n CACHE_CAPACITY (remdups (pre @ ks))"
  using assms
proof (induction ops arbitrary: c pre ks c')
  case Nil
  then show ?case by simp
next
  case (Cons op ops)
  show ?case
  proof (cases op)
    case (OpGet k)
    obtain r c1 where g: "cache_get k c = (r, c1)" by fastforce
    obtain c2 ks2 where run: "cache_run ops c1 = (c2, ks2)" by fastforce
    have inv1: "cache_inv c1" using cache_get_inv[OF Cons.prems(1), of k] g by simp
    show ?thesis
    proof (cases r)
      case None
      then have "c1 = c" using cache_get_miss g by blast
      with Cons.IH[OF inv1 _ run, of pre] Cons.prems g run OpGet None show ?thesis by simp
    next
      case (Some v)
      note ord = cache_get_order(1,2)[OF Cons.prems(1), of k v c1]
      have "cache_order c1 = last_n CACHE_CAPACITY (remdups (pre @ [k]))"
        using touch_recency[OF Cons.prems(2), of k] ord g Some by simp
      from Cons.IH[OF inv1 this run] Cons.prems(3) g run OpGet Some show ?thesis by auto
    qed
  next
    case (OpInsert k v)
    obtain c2 ks2 where run: "cache_run ops (cache_insert k v c) = (c2, ks2)" by fastforce
    have "cache_order (cache_insert k v c) = last_n CACHE_CAPACITY (remdups (pre @ [k]))"
      using touch_recency[OF Cons.prems(2), of k] cache_insert_order[OF Cons.prems(1)] by simp
    from Cons.IH[OF cache_insert_inv[OF Cons.prems(1)] this run] Cons.prems(3) run OpInsert
    show ?thesis by auto
  qed
qed

text \<open>The value last inserted for a key by a run, if any.\<close>

fun last_inserted :: "rstr \<Rightarrow> cache_op list \<Rightarrow> pcm option" where
  "last_inserted k [] = None"
| "last_inserted k (OpGet k' # ops) = last_inserted k ops"
| "last_inserted k (OpInsert k' v # ops) =
     (case last_inserted k ops of
        Some w \<Rightarrow> Some w | None \<Rightarrow> if k' = k then Some v else None)"

lemma cache_run_values:
  "cache_run ops c = (c', ks) \<Longrightarrow> hm_get (cache_values c') k = Some v \<Longrightarrow>
     (case last_inserted k ops of Some w \<Rightarrow> v = w | None \<Rightarrow> hm_get (cache_values c) k = Some v)"
proof (induction ops arbitrary: c ks c')
  case Nil
  then show ?case by simp
next
  case (Cons op ops)
  show ?case
  proof (cases op)
    case (OpGet k')
    obtain r c1 where g: "cache_get k' c = (r, c1)" by fastforce
    obtain c2 ks2 where run: "cache_run ops c1 = (c2, ks2)" by fastforce
    have "cache_values c1 = cache_values c"
      using g by (auto simp: cache_get_def split: option.splits)
    with Cons.IH[OF run] Cons.prems g run OpGet show ?thesis by (auto split: option.splits)
  next
    case (OpInsert k' w)
    obtain c2 ks2 where run: "cache_run ops (cache_insert k' w c) = (c2, ks2)" by fastforce
    have "hm_get (cache_values c2) k = Some v" using Cons.prems run OpInsert by simp
    from Cons.IH[OF run this] OpInsert show ?thesis
      using cache_insert_lookup[of k' w c k v] by (auto split: option.splits if_splits)
  qed
qed

subsection \<open>The contract of a cache\<close>

text \<open>
  What the synthesis runtime relies on: a hit returns the value the cache holds for the key,
  reading changes no value, an insertion is visible and invents nothing for other keys (it
  may evict them).
\<close>

locale bounded_cache =
  fixes get :: "'k \<Rightarrow> 'c \<Rightarrow> 'v option \<times> 'c"
    and insert :: "'k \<Rightarrow> 'v \<Rightarrow> 'c \<Rightarrow> 'c"
    and lookup :: "'c \<Rightarrow> 'k \<Rightarrow> 'v option"
    and inv :: "'c \<Rightarrow> bool"
  assumes get_value: "fst (get k c) = lookup c k"
    and get_lookup: "lookup (snd (get k c)) = lookup c"
    and get_inv: "inv c \<Longrightarrow> inv (snd (get k c))"
    and insert_same: "lookup (insert k v c) k = Some v"
    and insert_other: "lookup (insert k v c) k' = Some w \<Longrightarrow> k' \<noteq> k \<Longrightarrow> lookup c k' = Some w"
    and insert_inv: "inv c \<Longrightarrow> inv (insert k v c)"
begin

definition sound :: "('k \<Rightarrow> 'v \<Rightarrow> bool) \<Rightarrow> 'c \<Rightarrow> bool" where
  "sound P c \<longleftrightarrow> (\<forall>k v. lookup c k = Some v \<longrightarrow> P k v)"

lemma sound_get: "sound P c \<Longrightarrow> sound P (snd (get k c))"
  by (simp add: sound_def get_lookup)

lemma sound_insert: "sound P c \<Longrightarrow> P k v \<Longrightarrow> sound P (insert k v c)"
  unfolding sound_def using insert_same insert_other by (metis option.inject)

lemma sound_hit: "sound P c \<Longrightarrow> get k c = (Some v, c') \<Longrightarrow> P k v"
  unfolding sound_def using get_value by (metis fst_conv)

lemma hit_after_insert: "fst (get k (insert k v c)) = Some v"
  by (simp add: get_value insert_same)

end

interpretation lru: bounded_cache cache_get cache_insert "\<lambda>c. hm_get (cache_values c)" cache_inv
proof (unfold_locales, goal_cases)
  case (1 k c)
  show ?case by (simp add: cache_get_def split: option.splits)
next
  case (2 k c)
  show ?case by (simp add: cache_get_def split: option.splits)
next
  case (3 c k)
  then show ?case by (rule cache_get_inv)
next
  case (4 k v c)
  show ?case by (rule cache_insert_same)
next
  case (5 k v c k' w)
  then show ?case using cache_insert_lookup[of k v c k' w] by simp
next
  case (6 c k v)
  then show ?case by (rule cache_insert_inv)
qed

subsection \<open>Properties\<close>

text \<open>C8. The code's map-and-queue cache implements a bounded recency list: reading and
  inserting on the code's state are reading and inserting on the list it represents, the same
  value comes back, and the representation invariant is kept.\<close>

theorem cache_refines_lru:
  assumes "cache_inv c"
  shows "fst (cache_get k c) = fst (lru_get k (cache_abs c)) \<and>
    cache_abs (snd (cache_get k c)) = snd (lru_get k (cache_abs c)) \<and>
    cache_abs (cache_insert k v c) = lru_insert k v (cache_abs c) \<and>
    cache_inv (snd (cache_get k c)) \<and> cache_inv (cache_insert k v c)"
  using cache_get_refines[OF assms] cache_insert_refines[OF assms] cache_get_inv[OF assms]
    cache_insert_inv[OF assms] by simp

lemma cache_refines_lru_witness:
  "cache_inv \<lparr>cache_values = [(lit ''a'', [1]), (lit ''b'', [2])], cache_order = [lit ''b'', lit ''a'']\<rparr> \<and>
   cache_abs (cache_insert (lit ''b'') [3]
     \<lparr>cache_values = [(lit ''a'', [1]), (lit ''b'', [2])], cache_order = [lit ''b'', lit ''a'']\<rparr>)
     = [(lit ''a'', [1]), (lit ''b'', [3])]"
proof -
  let ?c = "\<lparr>cache_values = [(lit ''a'', [1 :: i16]), (lit ''b'', [2])],
             cache_order = [lit ''b'', lit ''a'']\<rparr>"
  have inv: "cache_inv ?c"
    by (auto simp: cache_inv_def hm_wf_def hm_keys_def lit_def CACHE_CAPACITY_def)
  have "cache_abs (cache_insert (lit ''b'') [3] ?c) = lru_insert (lit ''b'') [3] (cache_abs ?c)"
    using cache_refines_lru[OF inv] by blast
  with inv show ?thesis
    by (simp add: lru_insert_def lru_touch_def cache_abs_def lit_def)
qed

text \<open>After any sequence of reads and insertions on a new cache, the cache holds exactly
  the 64 most recently touched keys (a hit and an insertion touch), and for each of them the
  value inserted last; every other key is a miss.\<close>

theorem cache_holds_most_recent:
  assumes "cache_run ops cache_new = (c, ks)"
  shows "fst (cache_get k c) =
    (if k \<in> set (last_n 64 (remdups ks)) then last_inserted k ops else None)"
proof -
  have inv: "cache_inv c" and ord: "cache_order c = last_n CACHE_CAPACITY (remdups ks)"
    using cache_run_recency[OF cache_new_inv _ assms, of "[]"]
    by (simp_all add: cache_new_def last_n_def)
  have "k \<in> set (cache_order c) \<longleftrightarrow> hm_get (cache_values c) k \<noteq> None"
    using inv by (simp add: cache_inv_def hm_get_None_iff)
  moreover have "hm_get (cache_values c) k = Some v \<Longrightarrow> last_inserted k ops = Some v" for v
    using cache_run_values[OF assms, of k v] by (simp add: cache_new_def split: option.splits)
  ultimately show ?thesis
    using ord by (auto simp: lru.get_value CACHE_CAPACITY_def)
qed

lemma cache_holds_most_recent_witness:
  "fst (cache_get (lit ''a'') (fst (cache_run
     [OpInsert (lit ''a'') [1], OpInsert (lit ''b'') [2], OpGet (lit ''a''), OpGet (lit ''z'')]
     cache_new))) = Some [1]"
proof -
  let ?ops = "[OpInsert (lit ''a'') [1 :: i16], OpInsert (lit ''b'') [2], OpGet (lit ''a''),
               OpGet (lit ''z'')]"
  let ?c = "\<lparr>cache_values = [(lit ''a'', [1 :: i16]), (lit ''b'', [2])],
             cache_order = [lit ''b'', lit ''a'']\<rparr>"
  have run: "cache_run ?ops cache_new = (?c, [lit ''a'', lit ''b'', lit ''a''])"
    by (simp add: cache_new_def cache_insert_def cache_get_def hm_contains_def CACHE_CAPACITY_def
        lit_def)
  from cache_holds_most_recent[OF run, of "lit ''a''"] show ?thesis
    unfolding run by (simp add: last_n_def lit_def)
qed

end
