(* ===== verification/Config.thy ===== *)
theory Config
  imports RustStr
begin

text \<open>
  \<^verbatim>\<open>src/config.rs\<close>: the configuration sections, the defaults the \<^verbatim>\<open>#[serde(default)]\<close>
  attributes install for absent keys, validation, and the two derived configurations.

  Parsing TOML is the work of the \<^verbatim>\<open>toml\<close> crate; what this file decides is what a parsed
  table means.  A parsed section is a record of options, one per key, \<open>None\<close> for an absent
  key, and \<open>deserialize\<close> fills in the defaults or reports the missing mandatory key.
\<close>

subsection \<open>Sections\<close>

record sip_section =
  sip_listen_port :: u16
  sip_account_uri :: rstr
  sip_registrar :: rstr
  sip_username :: rstr
  sip_password :: rstr
  sip_max_concurrent_calls :: u32

record mumble_section =
  mum_default_host :: rstr
  mum_port :: u16
  mum_password :: rstr
  mum_channel :: rstr
  mum_accept_invalid_cert :: bool

record database_section =
  db_path :: rstr

record audio_section =
  aud_sample_rate :: u32
  aud_frame_duration_ms :: u32
  aud_opus_bitrate :: u32
  aud_jitter_buffer_ms :: u32
  aud_intro_replay_after_days :: u64

record tts_section =
  tts_enabled :: bool
  tts_host :: rstr
  tts_port :: u16
  tts_voice :: rstr
  tts_announce_on_connect :: bool
  tts_startup_timeout_ms :: u64
  tts_request_timeout_ms :: u64
  tts_announcement_debounce_ms :: u64

record sms_section =
  sms_enabled :: bool
  sms_backend :: rstr
  sms_outbound :: bool

record config =
  cfg_sip :: sip_section
  cfg_mumble :: mumble_section
  cfg_audio :: audio_section
  cfg_tts :: tts_section
  cfg_database :: database_section
  cfg_sms :: sms_section

subsection \<open>Defaults\<close>

definition default_sip_port :: u16 where "default_sip_port = 5060"
definition default_max_calls :: u32 where "default_max_calls = 10"
definition default_mumble_port :: u16 where "default_mumble_port = 64738"
definition default_db_path :: rstr where "default_db_path = lit ''mumble-sip.db''"
definition default_true :: bool where "default_true = True"
definition default_sample_rate :: u32 where "default_sample_rate = 48000"
definition default_frame_duration :: u32 where "default_frame_duration = 10"
definition default_opus_bitrate :: u32 where "default_opus_bitrate = 64000"
definition default_jitter_buffer :: u32 where "default_jitter_buffer = 60"
definition default_intro_replay_days :: u64 where "default_intro_replay_days = 30"
definition default_sms_backend :: rstr where "default_sms_backend = lit ''sip''"
definition default_tts_host :: rstr where "default_tts_host = lit ''127.0.0.1''"
definition default_tts_port :: u16 where "default_tts_port = 8000"
definition default_tts_voice :: rstr where "default_tts_voice = lit ''eponine''"
definition default_tts_startup_timeout_ms :: u64 where "default_tts_startup_timeout_ms = 20000"
definition default_tts_request_timeout_ms :: u64 where "default_tts_request_timeout_ms = 3000"
definition default_tts_announcement_debounce_ms :: u64
  where "default_tts_announcement_debounce_ms = 750"

lemmas config_defaults =
  default_sip_port_def default_max_calls_def default_mumble_port_def default_db_path_def
  default_true_def default_sample_rate_def default_frame_duration_def default_opus_bitrate_def
  default_jitter_buffer_def default_intro_replay_days_def default_sms_backend_def
  default_tts_host_def default_tts_port_def default_tts_voice_def
  default_tts_startup_timeout_ms_def default_tts_request_timeout_ms_def
  default_tts_announcement_debounce_ms_def

definition audio_section_default :: audio_section where
  "audio_section_default =
     \<lparr>aud_sample_rate = default_sample_rate,
      aud_frame_duration_ms = default_frame_duration,
      aud_opus_bitrate = default_opus_bitrate,
      aud_jitter_buffer_ms = default_jitter_buffer,
      aud_intro_replay_after_days = default_intro_replay_days\<rparr>"

definition tts_section_default :: tts_section where
  "tts_section_default =
     \<lparr>tts_enabled = False,
      tts_host = default_tts_host,
      tts_port = default_tts_port,
      tts_voice = default_tts_voice,
      tts_announce_on_connect = default_true,
      tts_startup_timeout_ms = default_tts_startup_timeout_ms,
      tts_request_timeout_ms = default_tts_request_timeout_ms,
      tts_announcement_debounce_ms = default_tts_announcement_debounce_ms\<rparr>"

definition sms_section_default :: sms_section where
  "sms_section_default =
     \<lparr>sms_enabled = False, sms_backend = default_sms_backend, sms_outbound = False\<rparr>"

definition database_section_default :: database_section where
  "database_section_default = \<lparr>db_path = default_db_path\<rparr>"

subsection \<open>Deserialisation\<close>

datatype missing_key = MissingSip | MissingAccountUri | MissingMumble | MissingDefaultHost

record raw_sip =
  rsip_listen_port :: "u16 option"
  rsip_account_uri :: "rstr option"
  rsip_registrar :: "rstr option"
  rsip_username :: "rstr option"
  rsip_password :: "rstr option"
  rsip_max_concurrent_calls :: "u32 option"

record raw_mumble =
  rmum_default_host :: "rstr option"
  rmum_port :: "u16 option"
  rmum_password :: "rstr option"
  rmum_channel :: "rstr option"
  rmum_accept_invalid_cert :: "bool option"

record raw_audio =
  raud_sample_rate :: "u32 option"
  raud_frame_duration_ms :: "u32 option"
  raud_opus_bitrate :: "u32 option"
  raud_jitter_buffer_ms :: "u32 option"
  raud_intro_replay_after_days :: "u64 option"

record raw_tts =
  rtts_enabled :: "bool option"
  rtts_host :: "rstr option"
  rtts_port :: "u16 option"
  rtts_voice :: "rstr option"
  rtts_announce_on_connect :: "bool option"
  rtts_startup_timeout_ms :: "u64 option"
  rtts_request_timeout_ms :: "u64 option"
  rtts_announcement_debounce_ms :: "u64 option"

record raw_sms =
  rsms_enabled :: "bool option"
  rsms_backend :: "rstr option"
  rsms_outbound :: "bool option"

record raw_config =
  raw_sip :: "raw_sip option"
  raw_mumble :: "raw_mumble option"
  raw_audio :: "raw_audio option"
  raw_tts :: "raw_tts option"
  raw_database :: "rstr option option"
  raw_sms :: "raw_sms option"

definition unwrap_or :: "'a option \<Rightarrow> 'a \<Rightarrow> 'a" where
  "unwrap_or x d = (case x of None \<Rightarrow> d | Some v \<Rightarrow> v)"

lemma unwrap_or_simps [simp]: "unwrap_or None d = d" "unwrap_or (Some v) d = v"
  by (simp_all add: unwrap_or_def)

definition deserialize_sip :: "raw_sip \<Rightarrow> missing_key + sip_section" where
  "deserialize_sip r =
     (case rsip_account_uri r of
        None \<Rightarrow> Inl MissingAccountUri
      | Some uri \<Rightarrow> Inr
         \<lparr>sip_listen_port = unwrap_or (rsip_listen_port r) default_sip_port,
          sip_account_uri = uri,
          sip_registrar = unwrap_or (rsip_registrar r) [],
          sip_username = unwrap_or (rsip_username r) [],
          sip_password = unwrap_or (rsip_password r) [],
          sip_max_concurrent_calls = unwrap_or (rsip_max_concurrent_calls r) default_max_calls\<rparr>)"

definition deserialize_mumble :: "raw_mumble \<Rightarrow> missing_key + mumble_section" where
  "deserialize_mumble r =
     (case rmum_default_host r of
        None \<Rightarrow> Inl MissingDefaultHost
      | Some host \<Rightarrow> Inr
         \<lparr>mum_default_host = host,
          mum_port = unwrap_or (rmum_port r) default_mumble_port,
          mum_password = unwrap_or (rmum_password r) [],
          mum_channel = unwrap_or (rmum_channel r) [],
          mum_accept_invalid_cert = unwrap_or (rmum_accept_invalid_cert r) default_true\<rparr>)"

definition deserialize_audio :: "raw_audio \<Rightarrow> audio_section" where
  "deserialize_audio r =
     \<lparr>aud_sample_rate = unwrap_or (raud_sample_rate r) default_sample_rate,
      aud_frame_duration_ms = unwrap_or (raud_frame_duration_ms r) default_frame_duration,
      aud_opus_bitrate = unwrap_or (raud_opus_bitrate r) default_opus_bitrate,
      aud_jitter_buffer_ms = unwrap_or (raud_jitter_buffer_ms r) default_jitter_buffer,
      aud_intro_replay_after_days =
        unwrap_or (raud_intro_replay_after_days r) default_intro_replay_days\<rparr>"

definition deserialize_tts :: "raw_tts \<Rightarrow> tts_section" where
  "deserialize_tts r =
     \<lparr>tts_enabled = unwrap_or (rtts_enabled r) False,
      tts_host = unwrap_or (rtts_host r) default_tts_host,
      tts_port = unwrap_or (rtts_port r) default_tts_port,
      tts_voice = unwrap_or (rtts_voice r) default_tts_voice,
      tts_announce_on_connect = unwrap_or (rtts_announce_on_connect r) default_true,
      tts_startup_timeout_ms =
        unwrap_or (rtts_startup_timeout_ms r) default_tts_startup_timeout_ms,
      tts_request_timeout_ms =
        unwrap_or (rtts_request_timeout_ms r) default_tts_request_timeout_ms,
      tts_announcement_debounce_ms =
        unwrap_or (rtts_announcement_debounce_ms r) default_tts_announcement_debounce_ms\<rparr>"

definition deserialize_sms :: "raw_sms \<Rightarrow> sms_section" where
  "deserialize_sms r =
     \<lparr>sms_enabled = unwrap_or (rsms_enabled r) False,
      sms_backend = unwrap_or (rsms_backend r) default_sms_backend,
      sms_outbound = unwrap_or (rsms_outbound r) False\<rparr>"

definition deserialize_database :: "rstr option \<Rightarrow> database_section" where
  "deserialize_database p = \<lparr>db_path = unwrap_or p default_db_path\<rparr>"

definition deserialize :: "raw_config \<Rightarrow> missing_key + config" where
  "deserialize r =
     (case raw_sip r of None \<Rightarrow> Inl MissingSip | Some rs \<Rightarrow>
     (case deserialize_sip rs of Inl e \<Rightarrow> Inl e | Inr s \<Rightarrow>
     (case raw_mumble r of None \<Rightarrow> Inl MissingMumble | Some rm \<Rightarrow>
     (case deserialize_mumble rm of Inl e \<Rightarrow> Inl e | Inr m \<Rightarrow>
       Inr \<lparr>cfg_sip = s,
            cfg_mumble = m,
            cfg_audio = (case raw_audio r of None \<Rightarrow> audio_section_default
                         | Some a \<Rightarrow> deserialize_audio a),
            cfg_tts = (case raw_tts r of None \<Rightarrow> tts_section_default
                       | Some t \<Rightarrow> deserialize_tts t),
            cfg_database = (case raw_database r of None \<Rightarrow> database_section_default
                            | Some d \<Rightarrow> deserialize_database d),
            cfg_sms = (case raw_sms r of None \<Rightarrow> sms_section_default
                       | Some s' \<Rightarrow> deserialize_sms s')\<rparr>))))"

text \<open>\<^verbatim>\<open>Config::load\<close>: \<open>read\<close> is the file system, \<open>parse\<close> the TOML parser.\<close>

datatype load_error = NotReadable | NotToml | MissingKey missing_key

definition load_config :: "(rstr \<Rightarrow> rstr option) \<Rightarrow> (rstr \<Rightarrow> unit + raw_config) \<Rightarrow> rstr \<Rightarrow> load_error + config" where
  "load_config read parse path =
     (case read path of
        None \<Rightarrow> Inl NotReadable
      | Some contents \<Rightarrow>
          (case parse contents of
             Inl _ \<Rightarrow> Inl NotToml
           | Inr raw \<Rightarrow> (case deserialize raw of Inl e \<Rightarrow> Inl (MissingKey e) | Inr cfg \<Rightarrow> Inr cfg)))"


subsection \<open>Validation and derived configurations\<close>

datatype config_error = ZeroMaxConcurrentCalls u32

definition validate_sip :: "sip_section \<Rightarrow> config_error + unit" where
  "validate_sip s =
     (if 1 \<le> sip_max_concurrent_calls s then Inr ()
      else Inl (ZeroMaxConcurrentCalls (sip_max_concurrent_calls s)))"

definition validate :: "config \<Rightarrow> config_error + unit" where
  "validate c = (case validate_sip (cfg_sip c) of Inl e \<Rightarrow> Inl e | Inr _ \<Rightarrow> Inr ())"

record sip_config =
  sc_listen_port :: u16
  sc_account_uri :: rstr
  sc_registrar :: rstr
  sc_username :: rstr
  sc_password :: rstr
  sc_max_concurrent_calls :: u32

definition sip_config_of :: "config \<Rightarrow> sip_config" where
  "sip_config_of c =
     \<lparr>sc_listen_port = sip_listen_port (cfg_sip c),
      sc_account_uri = sip_account_uri (cfg_sip c),
      sc_registrar = sip_registrar (cfg_sip c),
      sc_username = sip_username (cfg_sip c),
      sc_password = sip_password (cfg_sip c),
      sc_max_concurrent_calls = sip_max_concurrent_calls (cfg_sip c)\<rparr>"

record mumble_config =
  mc_host :: rstr
  mc_port :: u16
  mc_username :: rstr
  mc_password :: rstr
  mc_channel :: rstr
  mc_accept_invalid_cert :: bool

definition mumble_config_of :: "config \<Rightarrow> rstr option \<Rightarrow> mumble_config" where
  "mumble_config_of c host_override =
     \<lparr>mc_host = unwrap_or host_override (mum_default_host (cfg_mumble c)),
      mc_port = mum_port (cfg_mumble c),
      mc_username = [],
      mc_password = mum_password (cfg_mumble c),
      mc_channel = mum_channel (cfg_mumble c),
      mc_accept_invalid_cert = mum_accept_invalid_cert (cfg_mumble c)\<rparr>"

definition database_url :: "database_section \<Rightarrow> rstr" where
  "database_url d = lit ''sqlite://'' @ db_path d @ lit ''?mode=rwc''"

subsection \<open>Facts\<close>

lemma validate_iff: "validate c = Inr () \<longleftrightarrow> 0 < sip_max_concurrent_calls (cfg_sip c)"
  by (simp add: validate_def validate_sip_def word_le_nat_alt word_less_nat_alt)

text \<open>
  A section that is present but empty deserialises to the same values as the section's
  \<^verbatim>\<open>Default\<close> implementation, so leaving a section out and leaving it empty agree.
\<close>

lemma empty_sections_are_defaults:
  "deserialize_audio \<lparr>raud_sample_rate = None, raud_frame_duration_ms = None,
     raud_opus_bitrate = None, raud_jitter_buffer_ms = None,
     raud_intro_replay_after_days = None\<rparr> = audio_section_default"
  "deserialize_tts \<lparr>rtts_enabled = None, rtts_host = None, rtts_port = None, rtts_voice = None,
     rtts_announce_on_connect = None, rtts_startup_timeout_ms = None,
     rtts_request_timeout_ms = None, rtts_announcement_debounce_ms = None\<rparr> = tts_section_default"
  "deserialize_sms \<lparr>rsms_enabled = None, rsms_backend = None, rsms_outbound = None\<rparr>
     = sms_section_default"
  "deserialize_database None = database_section_default"
  by (simp_all add: deserialize_audio_def audio_section_default_def deserialize_tts_def
      tts_section_default_def deserialize_sms_def sms_section_default_def
      deserialize_database_def database_section_default_def)

end
