(* ===== verification/TtsRuntime.thy ===== *)
theory TtsRuntime
  imports TtsCache Config
begin

text \<open>
  \<^verbatim>\<open>PocketTtsRuntime\<close> of \<^verbatim>\<open>src/audio/tts.rs\<close>: availability of the speech service, the retry
  burst and the start-up wait, and the synthesis protocol with its cache and its table of
  syntheses in flight.

  Time is in milliseconds (\<open>now\<close>, delays).  An HTTP exchange is an outcome chosen by the
  environment (\<open>http_outcome\<close>) together with the time it takes.  The protocol is a machine
  whose events schedule one step of one task: every step is the code between two points where
  the task gives up a lock or awaits, so all interleavings of any number of requests and
  background syntheses are runs of \<open>tts_run\<close>.
\<close>

subsection \<open>Availability\<close>

datatype availability = Healthy | Recovering | Cooldown nat

datatype tts_error = RecoveringError | CooldownError | SynthesisError rstr | ChannelClosed

definition POST_FAILURE_COOLDOWN :: nat where "POST_FAILURE_COOLDOWN = 5 * 60 * 1000"
definition POST_FAILURE_RETRY_ATTEMPTS :: nat where "POST_FAILURE_RETRY_ATTEMPTS = 4"
definition POST_FAILURE_RETRY_INTERVAL_MS :: nat where "POST_FAILURE_RETRY_INTERVAL_MS = 100"
definition POST_FAILURE_HEALTH_TIMEOUT_MS :: nat where "POST_FAILURE_HEALTH_TIMEOUT_MS = 250"

definition assert_runtime_available_for_new_synthesis ::
  "nat \<Rightarrow> availability \<Rightarrow> (tts_error + unit) \<times> availability" where
  "assert_runtime_available_for_new_synthesis now a =
     (case a of
        Healthy \<Rightarrow> (Inr (), a)
      | Recovering \<Rightarrow> (Inl RecoveringError, a)
      | Cooldown until \<Rightarrow>
          if until \<le> now then (Inr (), Healthy) else (Inl CooldownError, a))"

text \<open>\<^verbatim>\<open>handle_runtime_failure\<close>, up to the retry burst: whether this task runs the burst.\<close>

definition begin_recovery :: "nat \<Rightarrow> availability \<Rightarrow> bool \<times> availability" where
  "begin_recovery now a =
     (case a of
        Healthy \<Rightarrow> (True, Recovering)
      | Recovering \<Rightarrow> (False, a)
      | Cooldown until \<Rightarrow> if until \<le> now then (True, Recovering) else (False, a))"

text \<open>\<^verbatim>\<open>handle_runtime_failure\<close>, after the burst.\<close>

definition end_recovery :: "bool \<Rightarrow> nat \<Rightarrow> availability" where
  "end_recovery recovered now =
     (if recovered then Healthy else Cooldown (now + POST_FAILURE_COOLDOWN))"

subsection \<open>Health checks\<close>

datatype http_outcome = HttpStatus nat | HttpFailed

definition health_check :: "http_outcome \<Rightarrow> bool" where
  "health_check r = (case r of HttpStatus s \<Rightarrow> 200 \<le> s \<and> s \<le> 299 | HttpFailed \<Rightarrow> False)"

text \<open>A probe is an outcome and the time it takes; \<^verbatim>\<open>quick_health_check\<close> gives up after 250 ms.
  The second component is the time spent.\<close>

type_synonym probe = "nat \<times> http_outcome"

definition quick_health_check :: "probe \<Rightarrow> bool \<times> nat" where
  "quick_health_check p =
     (if fst p \<le> POST_FAILURE_HEALTH_TIMEOUT_MS then (health_check (snd p), fst p)
      else (False, POST_FAILURE_HEALTH_TIMEOUT_MS))"

text \<open>The loop of \<^verbatim>\<open>run_post_failure_retry_burst\<close> from attempt \<open>a\<close>, over the probes still to come:
  whether a probe succeeded, and the time the loop takes.\<close>

function retry_burst_from :: "(nat \<Rightarrow> probe) \<Rightarrow> nat \<Rightarrow> bool \<times> nat" where
  "retry_burst_from probes a =
     (if a < POST_FAILURE_RETRY_ATTEMPTS then
        (case quick_health_check (probes a) of
           (True, d) \<Rightarrow> (True, d)
         | (False, d) \<Rightarrow>
             (case retry_burst_from probes (a + 1) of
                (ok, rest) \<Rightarrow>
                  (ok, d + (if a + 1 < POST_FAILURE_RETRY_ATTEMPTS
                            then POST_FAILURE_RETRY_INTERVAL_MS else 0) + rest)))
      else (False, 0))"
  by pat_completeness auto
termination
  by (relation "measure (\<lambda>(probes, a). POST_FAILURE_RETRY_ATTEMPTS - a)") auto

declare retry_burst_from.simps [simp del]

definition run_post_failure_retry_burst :: "(nat \<Rightarrow> probe) \<Rightarrow> bool \<times> nat" where
  "run_post_failure_retry_burst probes = retry_burst_from probes 0"

text \<open>The wait of \<^verbatim>\<open>ensure_server_ready_startup\<close>.  Probe \<open>k\<close> starts at time \<open>t\<close>; the result
  is the time of success, or the time the wait was given up.\<close>

function startup_loop :: "(nat \<Rightarrow> probe) \<Rightarrow> nat \<Rightarrow> nat \<Rightarrow> nat \<Rightarrow> (nat \<times> nat) + (nat \<times> nat)" where
  "startup_loop probes deadline k t =
     (let t' = t + fst (probes k) in
      if health_check (snd (probes k)) then Inr (k, t')
      else if deadline \<le> t' then Inl (k, t')
      else startup_loop probes deadline (k + 1) (t' + 250))"
  by pat_completeness auto
termination
  by (relation "measure (\<lambda>(probes, deadline, k, t). deadline - t)") (auto simp: Let_def)

declare startup_loop.simps [simp del]

definition ensure_server_ready_startup ::
  "tts_section \<Rightarrow> (nat \<Rightarrow> probe) \<Rightarrow> nat \<Rightarrow> (nat \<times> nat) + (nat \<times> nat)" where
  "ensure_server_ready_startup cfg probes now =
     (if health_check (snd (probes 0)) then Inr (0, now + fst (probes 0))
      else
        let start = now + fst (probes 0)
        in startup_loop probes (start + unat (tts_startup_timeout_ms cfg)) 1 start)"

subsection \<open>Requests to the service\<close>

definition cache_key :: "rstr \<Rightarrow> u32 \<Rightarrow> rstr \<Rightarrow> rstr" where
  "cache_key voice rate phrase = voice @ lit ''|'' @ show_nat (unat rate) @ lit ''|'' @ phrase"

definition tts_form :: "rstr \<Rightarrow> rstr \<Rightarrow> (rstr \<times> rstr) list" where
  "tts_form voice phrase =
     [(lit ''text'', phrase)] @ (if trim voice \<noteq> [] then [(lit ''voice_url'', voice)] else [])"

text \<open>What the service answers to a request: no response, a status other than 200 (as it is
  displayed), a response whose body cannot be read, or a body.  \<open>decode\<close> is
  \<^verbatim>\<open>decode_and_resample_wav\<close> at the runtime's sample rate.\<close>

datatype 'b tts_response = SendFailed | BadStatus rstr | BodyFailed | Body 'b

definition synthesize_uncached_phrase ::
  "('b \<Rightarrow> rstr + pcm) \<Rightarrow> ((rstr \<times> rstr) list \<Rightarrow> 'b tts_response) \<Rightarrow> rstr \<Rightarrow> rstr
     \<Rightarrow> tts_error + pcm" where
  "synthesize_uncached_phrase decode post voice phrase =
     (case post (tts_form voice phrase) of
        SendFailed \<Rightarrow> Inl (SynthesisError (lit ''failed to call pocket-tts /tts endpoint''))
      | BadStatus s \<Rightarrow>
          Inl (SynthesisError (lit ''pocket-tts returned non-OK status '' @ s))
      | BodyFailed \<Rightarrow> Inl (SynthesisError (lit ''failed to read pocket-tts audio''))
      | Body bytes \<Rightarrow>
          (case decode bytes of Inl e \<Rightarrow> Inl (SynthesisError e) | Inr samples \<Rightarrow> Inr samples))"

subsection \<open>The synthesis protocol\<close>

datatype in_flight_state = Pending | Ready "tts_error + pcm"

type_synonym watch_id = nat

text \<open>Where a call of \<^verbatim>\<open>synthesize_phrase\<close> is.\<close>

datatype req_pc =
    RCache                          \<comment> \<open>about to look in the cache\<close>
  | RFlight                         \<comment> \<open>about to look for a synthesis in flight\<close>
  | RAvail                          \<comment> \<open>about to ask whether the runtime is available\<close>
  | RLaunch                         \<comment> \<open>about to join or launch a synthesis\<close>
  | RWait watch_id                  \<comment> \<open>waiting on a synthesis\<close>
  | RDone "tts_error + pcm"

text \<open>Where a \<^verbatim>\<open>run_background_synthesis\<close> task is.\<close>

datatype bg_pc =
    BSynth                          \<comment> \<open>request to the service outstanding\<close>
  | BStore pcm                      \<comment> \<open>about to store the result in the cache\<close>
  | BHealthy pcm                    \<comment> \<open>about to mark the runtime healthy\<close>
  | BFail tts_error                 \<comment> \<open>about to record the failure\<close>
  | BBurst tts_error                \<comment> \<open>running the retry burst\<close>
  | BRecovered tts_error bool       \<comment> \<open>burst over, about to record its outcome\<close>
  | BSend "tts_error + pcm"         \<comment> \<open>about to publish the result\<close>
  | BRemove "tts_error + pcm"       \<comment> \<open>about to leave the table of syntheses in flight\<close>
  | BDone "tts_error + pcm"

record requester =
  rq_phrase :: rstr
  rq_pc :: req_pc

record background =
  bg_phrase :: rstr
  bg_pc :: bg_pc

text \<open>
  The runtime and its tasks.  A launch creates one watch channel and one background task, so
  both carry the same number: task \<open>w\<close> publishes on \<open>rt_watches ! w\<close>.
\<close>

record tts_sys =
  rt_voice :: rstr
  rt_rate :: u32
  rt_cache :: cache_state
  rt_in_flight :: "(rstr, watch_id) hashmap"
  rt_availability :: availability
  rt_watches :: "in_flight_state list"
  rt_requests :: "requester list"
  rt_backgrounds :: "background list"

definition runtime_new :: "tts_section \<Rightarrow> u32 \<Rightarrow> tts_sys" where
  "runtime_new cfg rate =
     \<lparr>rt_voice = tts_voice cfg, rt_rate = rate, rt_cache = cache_new, rt_in_flight = [],
      rt_availability = Healthy, rt_watches = [], rt_requests = [], rt_backgrounds = []\<rparr>"

definition sys_key :: "tts_sys \<Rightarrow> rstr \<Rightarrow> rstr" where
  "sys_key s phrase = cache_key (rt_voice s) (rt_rate s) phrase"

definition set_req :: "nat \<Rightarrow> req_pc \<Rightarrow> tts_sys \<Rightarrow> tts_sys" where
  "set_req i pc s = s\<lparr>rt_requests := (rt_requests s)[i := (rt_requests s ! i)\<lparr>rq_pc := pc\<rparr>]\<rparr>"

definition set_bg :: "nat \<Rightarrow> bg_pc \<Rightarrow> tts_sys \<Rightarrow> tts_sys" where
  "set_bg w pc s = s\<lparr>rt_backgrounds := (rt_backgrounds s)[w := (rt_backgrounds s ! w)\<lparr>bg_pc := pc\<rparr>]\<rparr>"

text \<open>One step of \<^verbatim>\<open>synthesize_phrase\<close> in request \<open>i\<close>.\<close>

definition request_step :: "nat \<Rightarrow> nat \<Rightarrow> tts_sys \<Rightarrow> tts_sys" where
  "request_step now i s =
     (let r = rt_requests s ! i; key = sys_key s (rq_phrase r) in
      case rq_pc r of
        RCache \<Rightarrow>
          (case cache_get key (rt_cache s) of
             (Some samples, c) \<Rightarrow> set_req i (RDone (Inr samples)) (s\<lparr>rt_cache := c\<rparr>)
           | (None, c) \<Rightarrow> set_req i RFlight (s\<lparr>rt_cache := c\<rparr>))
      | RFlight \<Rightarrow>
          (case hm_get (rt_in_flight s) key of
             Some w \<Rightarrow> set_req i (RWait w) s
           | None \<Rightarrow> set_req i RAvail s)
      | RAvail \<Rightarrow>
          (case assert_runtime_available_for_new_synthesis now (rt_availability s) of
             (Inl e, a) \<Rightarrow> set_req i (RDone (Inl e)) (s\<lparr>rt_availability := a\<rparr>)
           | (Inr _, a) \<Rightarrow> set_req i RLaunch (s\<lparr>rt_availability := a\<rparr>))
      | RLaunch \<Rightarrow>
          (case hm_get (rt_in_flight s) key of
             Some w \<Rightarrow> set_req i (RWait w) s
           | None \<Rightarrow>
               (let w = length (rt_watches s) in
                set_req i (RWait w)
                  (s\<lparr>rt_watches := rt_watches s @ [Pending],
                     rt_in_flight := hm_insert key w (rt_in_flight s),
                     rt_backgrounds := rt_backgrounds s @
                       [\<lparr>bg_phrase = rq_phrase r, bg_pc = BSynth\<rparr>]\<rparr>)))
      | RWait w \<Rightarrow>
          (case rt_watches s ! w of
             Pending \<Rightarrow> s
           | Ready result \<Rightarrow> set_req i (RDone result) s)
      | RDone _ \<Rightarrow> s)"

text \<open>
  One step of background task \<open>w\<close>.  \<open>post w\<close> is what the service answers to the request of
  task \<open>w\<close>; \<open>recovered\<close> is the outcome of the retry burst, when the step is that one.
\<close>

definition background_step ::
  "('b \<Rightarrow> rstr + pcm) \<Rightarrow> (nat \<Rightarrow> (rstr \<times> rstr) list \<Rightarrow> 'b tts_response) \<Rightarrow> nat \<Rightarrow> bool \<Rightarrow> nat
     \<Rightarrow> tts_sys \<Rightarrow> tts_sys" where
  "background_step decode post now recovered w s =
     (let b = rt_backgrounds s ! w; key = sys_key s (bg_phrase b) in
      case bg_pc b of
        BSynth \<Rightarrow> (case synthesize_uncached_phrase decode (post w) (rt_voice s) (bg_phrase b) of
                     Inr samples \<Rightarrow> set_bg w (BStore samples) s
                   | Inl e \<Rightarrow> set_bg w (BFail e) s)
      | BStore samples \<Rightarrow>
          set_bg w (BHealthy samples) (s\<lparr>rt_cache := cache_insert key samples (rt_cache s)\<rparr>)
      | BHealthy samples \<Rightarrow> set_bg w (BSend (Inr samples)) (s\<lparr>rt_availability := Healthy\<rparr>)
      | BFail e \<Rightarrow>
          (case begin_recovery now (rt_availability s) of
             (should_run, a) \<Rightarrow>
               set_bg w (if should_run then BBurst e else BSend (Inl e))
                 (s\<lparr>rt_availability := a\<rparr>))
      | BBurst e \<Rightarrow> set_bg w (BRecovered e recovered) s
      | BRecovered e ok \<Rightarrow>
          set_bg w (BSend (Inl e)) (s\<lparr>rt_availability := end_recovery ok now\<rparr>)
      | BSend r \<Rightarrow>
          set_bg w (BRemove r) (s\<lparr>rt_watches := (rt_watches s)[w := Ready r]\<rparr>)
      | BRemove r \<Rightarrow>
          set_bg w (BDone r) (s\<lparr>rt_in_flight := hm_remove key (rt_in_flight s)\<rparr>)
      | BDone r \<Rightarrow> s)"

text \<open>Events: a new call, one step of a call, one step of a background task.\<close>

datatype tts_event =
    EvCall rstr
  | EvRequest nat nat
  | EvBackground nat bool nat

fun tts_step ::
  "('b \<Rightarrow> rstr + pcm) \<Rightarrow> (nat \<Rightarrow> (rstr \<times> rstr) list \<Rightarrow> 'b tts_response) \<Rightarrow> tts_event
     \<Rightarrow> tts_sys \<Rightarrow> tts_sys" where
  "tts_step decode post (EvCall phrase) s =
     s\<lparr>rt_requests := rt_requests s @ [\<lparr>rq_phrase = phrase, rq_pc = RCache\<rparr>]\<rparr>"
| "tts_step decode post (EvRequest now i) s =
     (if i < length (rt_requests s) then request_step now i s else s)"
| "tts_step decode post (EvBackground now recovered w) s =
     (if w < length (rt_backgrounds s) then background_step decode post now recovered w s else s)"

fun tts_run ::
  "('b \<Rightarrow> rstr + pcm) \<Rightarrow> (nat \<Rightarrow> (rstr \<times> rstr) list \<Rightarrow> 'b tts_response) \<Rightarrow> tts_event list
     \<Rightarrow> tts_sys \<Rightarrow> tts_sys" where
  "tts_run decode post [] s = s"
| "tts_run decode post (e # es) s = tts_run decode post es (tts_step decode post e s)"

subsection \<open>The retry burst and the start-up wait\<close>

lemma quick_health_check_time: "snd (quick_health_check p) \<le> 250"
  by (simp add: quick_health_check_def POST_FAILURE_HEALTH_TIMEOUT_MS_def)

lemma retry_burst_from_spec:
  "fst (retry_burst_from probes a) = (\<exists>k. a \<le> k \<and> k < 4 \<and> fst (quick_health_check (probes k))) \<and>
   snd (retry_burst_from probes a) \<le> 250 * (4 - a) + 100 * (3 - a)"
proof (induction probes a rule: retry_burst_from.induct)
  case (1 probes a)
  show ?case
  proof (cases "a < 4")
    case False
    then show ?thesis
      by (subst (1 2) retry_burst_from.simps) (auto simp: POST_FAILURE_RETRY_ATTEMPTS_def)
  next
    case True
    obtain ok d where q: "quick_health_check (probes a) = (ok, d)" by fastforce
    have d: "d \<le> 250" using quick_health_check_time[of "probes a"] q by simp
    show ?thesis
    proof (cases ok)
      case ok: True
      then have "retry_burst_from probes a = (True, d)"
        using True q by (subst retry_burst_from.simps) (simp add: POST_FAILURE_RETRY_ATTEMPTS_def)
      then show ?thesis using True q ok d by auto
    next
      case nok: False
      obtain ok' rest where r: "retry_burst_from probes (a + 1) = (ok', rest)" by fastforce
      from 1 True q nok
      have "fst (retry_burst_from probes (a + 1)) =
          (\<exists>k. a + 1 \<le> k \<and> k < 4 \<and> fst (quick_health_check (probes k))) \<and>
        snd (retry_burst_from probes (a + 1)) \<le> 250 * (4 - (a + 1)) + 100 * (3 - (a + 1))"
        by (simp add: POST_FAILURE_RETRY_ATTEMPTS_def)
      then have ih: "ok' = (\<exists>k. a + 1 \<le> k \<and> k < 4 \<and> fst (quick_health_check (probes k)))"
        "rest \<le> 250 * (4 - (a + 1)) + 100 * (3 - (a + 1))"
        using r by simp_all
      have eq: "retry_burst_from probes a = (ok', d + (if a + 1 < 4 then 100 else 0) + rest)"
        using True q nok r
        by (subst retry_burst_from.simps)
          (simp add: POST_FAILURE_RETRY_ATTEMPTS_def POST_FAILURE_RETRY_INTERVAL_MS_def)
      have "ok' = (\<exists>k. a \<le> k \<and> k < 4 \<and> fst (quick_health_check (probes k)))"
        unfolding ih(1) using q nok by (metis Suc_eq_plus1 Suc_leD fst_conv le_antisym not_less_eq_eq)
      moreover have "d + (if a + 1 < 4 then 100 else 0) + rest \<le> 250 * (4 - a) + 100 * (3 - a)"
        using ih(2) d True by auto
      ultimately show ?thesis unfolding eq by simp
    qed
  qed
qed

lemma startup_loop_ok:
  "startup_loop probes deadline k t = Inr (j, u) \<Longrightarrow>
     k \<le> j \<and> health_check (snd (probes j)) \<and> (\<forall>i. k \<le> i \<and> i < j \<longrightarrow> \<not> health_check (snd (probes i)))"
proof (induction probes deadline k t rule: startup_loop.induct)
  case (1 probes deadline k t)
  from "1.prems" show ?case
    using "1.IH"[OF refl]
    by (auto simp: startup_loop.simps[of probes deadline k t] Let_def split: if_splits)
      (metis Suc_leI le_neq_implies_less)
qed

lemma startup_loop_err:
  "startup_loop probes deadline k t = Inl (j, u) \<Longrightarrow>
     k \<le> j \<and> deadline \<le> u \<and> (\<forall>i. k \<le> i \<and> i \<le> j \<longrightarrow> \<not> health_check (snd (probes i))) \<and>
     (j = k \<or> t + 250 * (j - k - 1) < deadline)"
proof (induction probes deadline k t rule: startup_loop.induct)
  case (1 probes deadline k t)
  let ?t' = "t + fst (probes k)"
  show ?case
  proof (cases "deadline \<le> ?t'")
    case True
    with "1.prems" show ?thesis
      by (auto simp: startup_loop.simps[of probes deadline k t] Let_def split: if_splits)
  next
    case False
    with "1.prems" have nh: "\<not> health_check (snd (probes k))"
      and rec: "startup_loop probes deadline (k + 1) (?t' + 250) = Inl (j, u)"
      by (auto simp: startup_loop.simps[of probes deadline k t] Let_def split: if_splits)
    from "1.IH"[OF refl nh False rec] have ih: "k + 1 \<le> j" "deadline \<le> u"
      "\<forall>i. k + 1 \<le> i \<and> i \<le> j \<longrightarrow> \<not> health_check (snd (probes i))"
      "j = k + 1 \<or> ?t' + 250 + 250 * (j - (k + 1) - 1) < deadline" by auto
    have "t + 250 * (j - k - 1) < deadline"
    proof (cases "j = k + 1")
      case True
      with False show ?thesis by simp
    next
      case False
      with ih(1) have "j - k - 1 = Suc (j - (k + 1) - 1)" by arith
      with False ih(4) show ?thesis by simp
    qed
    with ih nh show ?thesis by (metis Suc_eq_plus1 Suc_leD le_antisym not_less_eq_eq)
  qed
qed

subsection \<open>Properties\<close>

text \<open>The retry burst after a failed synthesis reports recovery exactly when one of its four
  probes is answered with a success status within 250 ms, and it is over within 1.3 s.\<close>

theorem retry_burst_outcome:
  "fst (run_post_failure_retry_burst probes)
     = (\<exists>k<4. fst (probes k) \<le> 250 \<and> health_check (snd (probes k))) \<and>
   snd (run_post_failure_retry_burst probes) \<le> 1300"
  using retry_burst_from_spec[of probes 0]
  by (auto simp: run_post_failure_retry_burst_def quick_health_check_def
      POST_FAILURE_HEALTH_TIMEOUT_MS_def split: if_splits)

text \<open>The start-up wait returns for every behaviour of the service: it succeeds at the first
  healthy probe, or it fails after the configured time, all its probes unhealthy, having made at
  most one probe per 250 ms of the timeout and three more.\<close>

theorem startup_wait_outcome:
  assumes "ensure_server_ready_startup cfg probes now = outcome"
  shows "case outcome of
      Inr (k, u) \<Rightarrow> health_check (snd (probes k)) \<and> (\<forall>i<k. \<not> health_check (snd (probes i)))
    | Inl (k, u) \<Rightarrow> (\<forall>i\<le>k. \<not> health_check (snd (probes i))) \<and>
        now + unat (tts_startup_timeout_ms cfg) \<le> u \<and> k \<le> unat (tts_startup_timeout_ms cfg) div 250 + 2"
proof (cases "health_check (snd (probes 0))")
  case True
  with assms show ?thesis by (auto simp: ensure_server_ready_startup_def)
next
  case False
  let ?T = "unat (tts_startup_timeout_ms cfg)" let ?start = "now + fst (probes 0)"
  have run: "startup_loop probes (?start + ?T) 1 ?start = outcome"
    using False assms by (simp add: ensure_server_ready_startup_def Let_def)
  have first: "\<not> health_check (snd (probes i))" if "i < 1" for i using False that by simp
  show ?thesis
  proof (cases outcome)
    case (Inl ku)
    obtain k u where ku: "ku = (k, u)" by fastforce
    from startup_loop_err[OF run[unfolded Inl ku]]
    have "1 \<le> k" "?start + ?T \<le> u" and bad: "\<forall>i. 1 \<le> i \<and> i \<le> k \<longrightarrow> \<not> health_check (snd (probes i))"
      and k: "k = 1 \<or> ?start + 250 * (k - 1 - 1) < ?start + ?T" by auto
    have "k \<le> ?T div 250 + 2" using k by auto
    moreover have "\<forall>i\<le>k. \<not> health_check (snd (probes i))"
      using bad first by (metis not_less)
    ultimately show ?thesis using \<open>?start + ?T \<le> u\<close> Inl ku by simp
  next
    case (Inr ku)
    obtain k u where ku: "ku = (k, u)" by fastforce
    from startup_loop_ok[OF run[unfolded Inr ku]] first Inr ku show ?thesis
      by simp (metis Suc_leI gr0I)
  qed
qed

lemma startup_wait_outcome_witness:
  "ensure_server_ready_startup (tts_section_default\<lparr>tts_startup_timeout_ms := 600\<rparr>)
     (\<lambda>k. (10, HttpFailed)) 0 = Inl (4, 800) \<and> (4 :: nat) \<le> 600 div 250 + 2"
proof -
  have run: "ensure_server_ready_startup (tts_section_default\<lparr>tts_startup_timeout_ms := 600\<rparr>)
      (\<lambda>k. (10, HttpFailed)) 0 = Inl (4, 800)"
    by (simp add: ensure_server_ready_startup_def startup_loop.simps health_check_def Let_def)
  from startup_wait_outcome[OF run] run show ?thesis by simp
qed

end
