(* ===== verification/Machines.thy ===== *)
theory Machines
  imports Main
begin

text \<open>
  What the state machines of the development share.  The session manager, the speech runtime, the
  caller lookups and the mixer are each a step function on a state, and their runs fold it over a
  list of events.  \<open>invariant_machine\<close> is the contract of a property that every step keeps,
  \<open>relative_invariant\<close> that of a property that is kept where another one holds; their lemmas lift
  both to runs.
\<close>

locale invariant_machine =
  fixes step :: "'e \<Rightarrow> 's \<Rightarrow> 's"
    and inv :: "'s \<Rightarrow> bool"
  assumes step_keeps: "inv s \<Longrightarrow> inv (step e s)"
begin

lemma run_keeps: "inv s \<Longrightarrow> inv (fold step es s)"
  by (induction es arbitrary: s) (simp_all add: step_keeps)

end

locale relative_invariant = invariant_machine step base
  for step :: "'e \<Rightarrow> 's \<Rightarrow> 's" and base :: "'s \<Rightarrow> bool" +
  fixes rel :: "'s \<Rightarrow> bool"
  assumes step_rel: "base s \<Longrightarrow> rel s \<Longrightarrow> rel (step e s)"

sublocale relative_invariant \<subseteq> both: invariant_machine step "\<lambda>s. base s \<and> rel s"
  by unfold_locales (simp add: step_keeps step_rel)

context relative_invariant begin

lemma run_rel: "base s \<Longrightarrow> rel s \<Longrightarrow> rel (fold step es s)"
  using both.run_keeps by blast

end

end
