(* ===== verification/TtsProtocol.thy ===== *)
theory TtsProtocol
  imports TtsRuntime Machines
begin

text \<open>
  What the synthesis protocol of \<open>TtsRuntime\<close> guarantees under every interleaving of its
  tasks.  \<open>flight_inv\<close> ties the table of syntheses in flight to the background tasks and
  their watch channels; \<open>value_inv\<close> says where every value in the cache, in a task or in an
  answer comes from.
\<close>

definition bg_active :: "background \<Rightarrow> bool" where
  "bg_active b \<longleftrightarrow> (case bg_pc b of BDone _ \<Rightarrow> False | _ \<Rightarrow> True)"

definition published :: "bg_pc \<Rightarrow> in_flight_state" where
  "published pc = (case pc of BRemove r \<Rightarrow> Ready r | BDone r \<Rightarrow> Ready r | _ \<Rightarrow> Pending)"

lemma published_simps [simp]:
  "published BSynth = Pending" "published (BStore v) = Pending" "published (BHealthy v) = Pending"
  "published (BFail e) = Pending" "published (BBurst e) = Pending"
  "published (BRecovered e ok) = Pending" "published (BSend r) = Pending"
  "published (BRemove r) = Ready r" "published (BDone r) = Ready r"
  by (simp_all add: published_def)

lemma bg_active_iff: "bg_active b \<longleftrightarrow> (\<forall>r. bg_pc b \<noteq> BDone r)"
  by (simp add: bg_active_def split: bg_pc.splits)

lemma bg_active_upd [simp]: "bg_active (b\<lparr>bg_pc := pc\<rparr>) \<longleftrightarrow> (\<forall>r. pc \<noteq> BDone r)"
  by (simp add: bg_active_iff)

lemma bg_active_new [simp]: "bg_active \<lparr>bg_phrase = p, bg_pc = BSynth\<rparr>"
  by (simp add: bg_active_iff)

subsection \<open>Effects of a step on each part of the state\<close>

lemma set_req_simps [simp]:
  "rt_voice (set_req i pc s) = rt_voice s" "rt_rate (set_req i pc s) = rt_rate s"
  "rt_cache (set_req i pc s) = rt_cache s" "rt_in_flight (set_req i pc s) = rt_in_flight s"
  "rt_availability (set_req i pc s) = rt_availability s"
  "rt_watches (set_req i pc s) = rt_watches s" "rt_backgrounds (set_req i pc s) = rt_backgrounds s"
  "rt_requests (set_req i pc s) = (rt_requests s)[i := (rt_requests s ! i)\<lparr>rq_pc := pc\<rparr>]"
  by (simp_all add: set_req_def)

lemma set_bg_simps [simp]:
  "rt_voice (set_bg w pc s) = rt_voice s" "rt_rate (set_bg w pc s) = rt_rate s"
  "rt_cache (set_bg w pc s) = rt_cache s" "rt_in_flight (set_bg w pc s) = rt_in_flight s"
  "rt_availability (set_bg w pc s) = rt_availability s"
  "rt_watches (set_bg w pc s) = rt_watches s" "rt_requests (set_bg w pc s) = rt_requests s"
  "rt_backgrounds (set_bg w pc s) = (rt_backgrounds s)[w := (rt_backgrounds s ! w)\<lparr>bg_pc := pc\<rparr>]"
  by (simp_all add: set_bg_def)

lemma sys_key_cong:
  "rt_voice s' = rt_voice s \<Longrightarrow> rt_rate s' = rt_rate s \<Longrightarrow> sys_key s' = sys_key s"
  by (simp add: sys_key_def fun_eq_iff)

lemma sys_key_set [simp]:
  "sys_key (set_req i rpc s) = sys_key s" "sys_key (set_bg w pc s) = sys_key s"
  "sys_key (s\<lparr>rt_cache := c\<rparr>) = sys_key s" "sys_key (s\<lparr>rt_availability := a\<rparr>) = sys_key s"
  "sys_key (s\<lparr>rt_in_flight := m\<rparr>) = sys_key s" "sys_key (s\<lparr>rt_watches := ws\<rparr>) = sys_key s"
  "sys_key (s\<lparr>rt_requests := rs\<rparr>) = sys_key s" "sys_key (s\<lparr>rt_backgrounds := bs\<rparr>) = sys_key s"
  by (simp_all add: sys_key_def fun_eq_iff)

lemma sys_key_inj: "sys_key s p = sys_key s q \<longleftrightarrow> p = q"
  by (simp add: sys_key_def cache_key_def)

subsection \<open>The table of syntheses in flight\<close>

definition flight_inv :: "tts_sys \<Rightarrow> bool" where
  "flight_inv s \<longleftrightarrow>
     length (rt_watches s) = length (rt_backgrounds s) \<and> hm_wf (rt_in_flight s) \<and>
     (\<forall>k w. hm_get (rt_in_flight s) k = Some w \<longrightarrow>
        w < length (rt_backgrounds s) \<and> k = sys_key s (bg_phrase (rt_backgrounds s ! w)) \<and>
        bg_active (rt_backgrounds s ! w)) \<and>
     (\<forall>w < length (rt_backgrounds s). bg_active (rt_backgrounds s ! w) \<longrightarrow>
        hm_get (rt_in_flight s) (sys_key s (bg_phrase (rt_backgrounds s ! w))) = Some w) \<and>
     (\<forall>w < length (rt_backgrounds s). rt_watches s ! w = published (bg_pc (rt_backgrounds s ! w)))"

definition wait_inv :: "tts_sys \<Rightarrow> bool" where
  "wait_inv s \<longleftrightarrow>
     (\<forall>r \<in> set (rt_requests s). \<forall>w. rq_pc r = RWait w \<longrightarrow>
        w < length (rt_backgrounds s) \<and> bg_phrase (rt_backgrounds s ! w) = rq_phrase r)"

lemma flight_invI:
  assumes "length (rt_watches s) = length (rt_backgrounds s)" and "hm_wf (rt_in_flight s)"
    and "\<And>k w. hm_get (rt_in_flight s) k = Some w \<Longrightarrow> w < length (rt_backgrounds s) \<and>
      k = sys_key s (bg_phrase (rt_backgrounds s ! w)) \<and> bg_active (rt_backgrounds s ! w)"
    and "\<And>w. w < length (rt_backgrounds s) \<Longrightarrow> bg_active (rt_backgrounds s ! w) \<Longrightarrow>
      hm_get (rt_in_flight s) (sys_key s (bg_phrase (rt_backgrounds s ! w))) = Some w"
    and "\<And>w. w < length (rt_backgrounds s) \<Longrightarrow>
      rt_watches s ! w = published (bg_pc (rt_backgrounds s ! w))"
  shows "flight_inv s"
  using assms unfolding flight_inv_def by blast

lemma flight_invD:
  assumes "flight_inv s"
  shows "length (rt_watches s) = length (rt_backgrounds s)" and "hm_wf (rt_in_flight s)"
    and "hm_get (rt_in_flight s) k = Some w \<Longrightarrow> w < length (rt_backgrounds s)"
    and "hm_get (rt_in_flight s) k = Some w \<Longrightarrow> k = sys_key s (bg_phrase (rt_backgrounds s ! w))"
    and "hm_get (rt_in_flight s) k = Some w \<Longrightarrow> bg_active (rt_backgrounds s ! w)"
    and "w < length (rt_backgrounds s) \<Longrightarrow> bg_active (rt_backgrounds s ! w) \<Longrightarrow>
      hm_get (rt_in_flight s) (sys_key s (bg_phrase (rt_backgrounds s ! w))) = Some w"
    and "w < length (rt_backgrounds s) \<Longrightarrow>
      rt_watches s ! w = published (bg_pc (rt_backgrounds s ! w))"
  using assms unfolding flight_inv_def by blast+

text \<open>The invariant reads a background task only through its phrase, whether it is active and
  what it has published.\<close>

lemma flight_inv_cong:
  assumes "flight_inv s"
    and "rt_voice s' = rt_voice s" "rt_rate s' = rt_rate s" "rt_watches s' = rt_watches s"
    and "rt_in_flight s' = rt_in_flight s"
    and len: "length (rt_backgrounds s') = length (rt_backgrounds s)"
    and "\<And>v. v < length (rt_backgrounds s) \<Longrightarrow>
      bg_phrase (rt_backgrounds s' ! v) = bg_phrase (rt_backgrounds s ! v) \<and>
      bg_active (rt_backgrounds s' ! v) = bg_active (rt_backgrounds s ! v) \<and>
      published (bg_pc (rt_backgrounds s' ! v)) = published (bg_pc (rt_backgrounds s ! v))"
  shows "flight_inv s'"
proof -
  have key: "sys_key s' = sys_key s" using assms(2,3) by (rule sys_key_cong)
  note D = flight_invD[OF assms(1)]
  show ?thesis
    by (rule flight_invI) (use D assms(7) in \<open>auto simp: key assms(4,5) len\<close>)
qed

lemma flight_inv_frame:
  assumes "flight_inv s" and "rt_voice s' = rt_voice s" "rt_rate s' = rt_rate s"
    and "rt_watches s' = rt_watches s" "rt_in_flight s' = rt_in_flight s"
    and "rt_backgrounds s' = rt_backgrounds s"
  shows "flight_inv s'"
  using assms by (intro flight_inv_cong[OF assms(1)]) simp_all

text \<open>A change of a background task's control point that neither ends it nor publishes.\<close>

lemma flight_inv_quiet:
  assumes "flight_inv s" and "w < length (rt_backgrounds s)"
    and "bg_active (rt_backgrounds s ! w)" and "published (bg_pc (rt_backgrounds s ! w)) = Pending"
    and "published pc = Pending"
    and "rt_voice s' = rt_voice s" "rt_rate s' = rt_rate s" "rt_watches s' = rt_watches s"
    and "rt_in_flight s' = rt_in_flight s"
    and "rt_backgrounds s' = (rt_backgrounds s)[w := (rt_backgrounds s ! w)\<lparr>bg_pc := pc\<rparr>]"
  shows "flight_inv s'"
proof -
  have act: "bg_active (b\<lparr>bg_pc := pc\<rparr>)" for b
    using assms(5) by auto
  show ?thesis
    by (rule flight_inv_cong[OF assms(1,6-9)])
      (use assms(2-5) in \<open>auto simp: assms(10) nth_list_update act\<close>)
qed

lemma request_step_flight:
  assumes "flight_inv s"
  shows "flight_inv (request_step now i s)"
proof -
  let ?r = "rt_requests s ! i" let ?key = "sys_key s (rq_phrase ?r)"
  show ?thesis
  proof (cases "rq_pc ?r = RLaunch \<and> hm_get (rt_in_flight s) ?key = None")
    case True
    let ?w = "length (rt_watches s)"
    from True have "request_step now i s =
      set_req i (RWait ?w)
        (s\<lparr>rt_watches := rt_watches s @ [Pending], rt_in_flight := hm_insert ?key ?w (rt_in_flight s),
           rt_backgrounds := rt_backgrounds s @ [\<lparr>bg_phrase = rq_phrase ?r, bg_pc = BSynth\<rparr>]\<rparr>)"
      by (simp add: request_step_def Let_def)
    moreover note D = flight_invD[OF assms]
    moreover have "sys_key s (bg_phrase (rt_backgrounds s ! w)) \<noteq> ?key"
      if "w < length (rt_backgrounds s)" "bg_active (rt_backgrounds s ! w)" for w
      using D(6)[OF that] True by force
    ultimately show ?thesis
      by (intro flight_invI) (auto simp: nth_append less_Suc_eq split: if_splits)
  next
    case False
    then have "rt_voice (request_step now i s) = rt_voice s \<and> rt_rate (request_step now i s) = rt_rate s \<and>
      rt_watches (request_step now i s) = rt_watches s \<and>
      rt_in_flight (request_step now i s) = rt_in_flight s \<and>
      rt_backgrounds (request_step now i s) = rt_backgrounds s"
      by (auto simp: request_step_def Let_def
          split: req_pc.splits option.splits prod.splits sum.splits in_flight_state.splits)
    with assms show ?thesis using flight_inv_frame by blast
  qed
qed

lemma background_step_flight:
  assumes "flight_inv s" and "w < length (rt_backgrounds s)"
  shows "flight_inv (background_step decode post now recovered w s)"
proof -
  let ?b = "rt_backgrounds s ! w" let ?s' = "background_step decode post now recovered w s"
  show ?thesis
  proof (cases "bg_pc ?b")
    case (BSend r)
    then have "?s' = set_bg w (BRemove r) (s\<lparr>rt_watches := (rt_watches s)[w := Ready r]\<rparr>)"
      by (simp add: background_step_def Let_def)
    then show ?thesis
      by (intro flight_invI)
        (use flight_invD[OF assms(1)] BSend assms(2) in
          \<open>auto simp: nth_list_update bg_active_iff[of "rt_backgrounds s ! w"] split: if_splits\<close>)
  next
    case (BRemove r)
    then have s': "?s' = set_bg w (BDone r)
        (s\<lparr>rt_in_flight := hm_remove (sys_key s (bg_phrase ?b)) (rt_in_flight s)\<rparr>)"
      by (simp add: background_step_def Let_def)
    note D = flight_invD[OF assms(1)]
    have act: "bg_active ?b" using BRemove by (simp add: bg_active_iff)
    have own: "v = w" if "v < length (rt_backgrounds s)" "bg_active (rt_backgrounds s ! v)"
      "sys_key s (bg_phrase (rt_backgrounds s ! v)) = sys_key s (bg_phrase ?b)" for v
      using trans[OF D(6)[OF that(1,2), unfolded that(3), symmetric] D(6)[OF assms(2) act]]
      by (rule option.inject[THEN iffD1])
    show ?thesis
      unfolding s'
    proof (rule flight_invI, goal_cases)
      case 1
      show ?case using D(1) by simp
    next
      case 2
      show ?case using D(2) by simp
    next
      case (3 k v)
      then have k: "hm_get (rt_in_flight s) k = Some v" "k \<noteq> sys_key s (bg_phrase ?b)"
        by (auto split: if_splits)
      with D(4) have "v \<noteq> w" by blast
      with D(3,4,5)[OF k(1)] show ?case by simp
    next
      case (4 v)
      then have v: "v < length (rt_backgrounds s)" "v \<noteq> w" "bg_active (rt_backgrounds s ! v)"
        using assms(2) by (auto simp: nth_list_update split: if_splits)
      with own D(6)[OF v(1,3)] show ?case by auto
    next
      case (5 v)
      then show ?case using D(7)[of v] BRemove by (cases "v = w") auto
    qed
  next
    case (BDone r)
    with assms show ?thesis by (simp add: background_step_def Let_def)
  next
    case BSynth
    show ?thesis
      by (rule flight_inv_quiet[OF assms, where
            pc = "case synthesize_uncached_phrase decode (post w) (rt_voice s) (bg_phrase ?b) of
              Inr samples \<Rightarrow> BStore samples | Inl e \<Rightarrow> BFail e"])
        (use BSynth in \<open>auto simp: background_step_def Let_def bg_active_iff
          split: sum.splits\<close>)
  next
    case (BStore v)
    show ?thesis
      by (rule flight_inv_quiet[OF assms, where pc = "BHealthy v"])
        (use BStore in \<open>auto simp: background_step_def Let_def bg_active_iff\<close>)
  next
    case (BHealthy v)
    show ?thesis
      by (rule flight_inv_quiet[OF assms, where pc = "BSend (Inr v)"])
        (use BHealthy in \<open>auto simp: background_step_def Let_def bg_active_iff\<close>)
  next
    case (BFail e)
    show ?thesis
      by (rule flight_inv_quiet[OF assms, where
            pc = "if fst (begin_recovery now (rt_availability s)) then BBurst e else BSend (Inl e)"])
        (use BFail in \<open>auto simp: background_step_def Let_def bg_active_iff
          split: prod.splits if_splits\<close>)
  next
    case (BBurst e)
    show ?thesis
      by (rule flight_inv_quiet[OF assms, where pc = "BRecovered e recovered"])
        (use BBurst in \<open>auto simp: background_step_def Let_def bg_active_iff\<close>)
  next
    case (BRecovered e ok)
    show ?thesis
      by (rule flight_inv_quiet[OF assms, where pc = "BSend (Inl e)"])
        (use BRecovered in \<open>auto simp: background_step_def Let_def bg_active_iff\<close>)
  qed
qed

lemma tts_step_flight: "flight_inv s \<Longrightarrow> flight_inv (tts_step decode post e s)"
  by (cases e) (auto simp: request_step_flight background_step_flight intro: flight_inv_frame)

lemma tts_run_fold: "tts_run decode post es s = fold (tts_step decode post) es s"
  by (induction es arbitrary: s) simp_all

interpretation flight: invariant_machine "tts_step decode post" flight_inv for decode post
  by unfold_locales (rule tts_step_flight)

lemma tts_run_flight: "flight_inv s \<Longrightarrow> flight_inv (tts_run decode post es s)"
  unfolding tts_run_fold by (rule flight.run_keeps)

lemma runtime_new_flight: "flight_inv (runtime_new cfg rate)"
  by (simp add: flight_inv_def runtime_new_def)

subsection \<open>Waiters wait for their own phrase\<close>

lemma wait_inv_bg:
  assumes "wait_inv s" and "rt_requests s' = rt_requests s"
    and "length (rt_backgrounds s) \<le> length (rt_backgrounds s')"
    and "\<And>v. v < length (rt_backgrounds s) \<Longrightarrow>
      bg_phrase (rt_backgrounds s' ! v) = bg_phrase (rt_backgrounds s ! v)"
  shows "wait_inv s'"
  using assms unfolding wait_inv_def by fastforce

lemma wait_inv_req:
  assumes "wait_inv s" and "rt_requests s' = (rt_requests s)[i := (rt_requests s ! i)\<lparr>rq_pc := pc\<rparr>]"
    and "length (rt_backgrounds s) \<le> length (rt_backgrounds s')"
    and "\<And>v. v < length (rt_backgrounds s) \<Longrightarrow>
      bg_phrase (rt_backgrounds s' ! v) = bg_phrase (rt_backgrounds s ! v)"
    and "\<And>w. pc = RWait w \<Longrightarrow> w < length (rt_backgrounds s') \<and>
      bg_phrase (rt_backgrounds s' ! w) = rq_phrase (rt_requests s ! i)"
  shows "wait_inv s'"
proof -
  have "w < length (rt_backgrounds s') \<and> bg_phrase (rt_backgrounds s' ! w) = rq_phrase r"
    if "r \<in> set (rt_requests s')" "rq_pc r = RWait w" for r w
  proof (cases "r \<in> set (rt_requests s)")
    case True
    with assms(1,3,4) that show ?thesis by (fastforce simp: wait_inv_def)
  next
    case False
    with that(1) assms(2) set_update_subset_insert[of "rt_requests s" i]
    have "r = (rt_requests s ! i)\<lparr>rq_pc := pc\<rparr>" by auto
    with that(2) assms(5) show ?thesis by simp
  qed
  then show ?thesis by (simp add: wait_inv_def)
qed

lemma request_step_wait:
  assumes "flight_inv s" and "wait_inv s"
  shows "wait_inv (request_step now i s)"
proof -
  let ?r = "rt_requests s ! i" let ?key = "sys_key s (rq_phrase ?r)" let ?s' = "request_step now i s"
  have found: "w < length (rt_backgrounds s) \<and> bg_phrase (rt_backgrounds s ! w) = rq_phrase ?r"
    if "hm_get (rt_in_flight s) ?key = Some w" for w
    using flight_invD(3,4)[OF assms(1) that] by (simp add: sys_key_inj)
  show ?thesis
  proof (cases "rq_pc ?r = RLaunch \<and> hm_get (rt_in_flight s) ?key = None")
    case True
    then show ?thesis
      by (intro wait_inv_req[OF assms(2), of _ i "RWait (length (rt_watches s))"])
        (use flight_invD(1)[OF assms(1)] in \<open>auto simp: request_step_def Let_def nth_append\<close>)
  next
    case False
    have "?s' = s \<or> (\<exists>pc. rt_requests ?s' = (rt_requests s)[i := ?r\<lparr>rq_pc := pc\<rparr>] \<and>
        rt_backgrounds ?s' = rt_backgrounds s \<and>
        (\<forall>w. pc = RWait w \<longrightarrow> hm_get (rt_in_flight s) ?key = Some w))"
      using False
      by (auto simp: request_step_def Let_def
          split: req_pc.splits option.splits prod.splits sum.splits in_flight_state.splits)
    then show ?thesis
    proof (elim disjE exE conjE)
      assume "?s' = s"
      with assms(2) show ?thesis by simp
    next
      fix pc
      assume "rt_requests ?s' = (rt_requests s)[i := ?r\<lparr>rq_pc := pc\<rparr>]"
        and "rt_backgrounds ?s' = rt_backgrounds s"
        and "\<forall>w. pc = RWait w \<longrightarrow> hm_get (rt_in_flight s) ?key = Some w"
      then show ?thesis
        by (intro wait_inv_req[OF assms(2)]) (use found in auto)
    qed
  qed
qed

lemma background_step_parts:
  "rt_requests (background_step decode post now recovered w s) = rt_requests s"
  "rt_voice (background_step decode post now recovered w s) = rt_voice s"
  "rt_rate (background_step decode post now recovered w s) = rt_rate s"
  "length (rt_backgrounds (background_step decode post now recovered w s)) = length (rt_backgrounds s)"
  by (auto simp: background_step_def Let_def split: bg_pc.splits sum.splits prod.splits)

lemma background_step_phrase:
  "v < length (rt_backgrounds s) \<Longrightarrow>
     bg_phrase (rt_backgrounds (background_step decode post now recovered w s) ! v)
       = bg_phrase (rt_backgrounds s ! v)"
  by (cases "v = w")
    (auto simp: background_step_def Let_def split: bg_pc.splits sum.splits prod.splits)

lemma background_step_wait: "wait_inv s \<Longrightarrow> wait_inv (background_step decode post now recovered w s)"
  by (rule wait_inv_bg[of s]) (simp_all add: background_step_parts background_step_phrase)

lemma tts_step_wait:
  assumes "flight_inv s" and "wait_inv s"
  shows "wait_inv (tts_step decode post e s)"
proof (cases e)
  case (EvCall p)
  with assms(2) show ?thesis by (auto simp: wait_inv_def)
next
  case (EvRequest i now)
  with assms show ?thesis by (simp add: request_step_wait)
next
  case (EvBackground w now ok)
  with assms show ?thesis by (simp add: background_step_wait)
qed

interpretation waiting: relative_invariant "tts_step decode post" flight_inv wait_inv for decode post
  by unfold_locales (rule tts_step_wait)

lemma tts_run_wait:
  "flight_inv s \<Longrightarrow> wait_inv s \<Longrightarrow> wait_inv (tts_run decode post es s)"
  unfolding tts_run_fold by (rule waiting.run_rel)

lemma runtime_new_wait: "wait_inv (runtime_new cfg rate)"
  by (simp add: wait_inv_def runtime_new_def)

subsection \<open>Where values come from\<close>

text \<open>A phrase has a synthesis \<open>v\<close>: some request to the service for it was answered with audio
  that decodes to \<open>v\<close>.\<close>

definition synthesis_of ::
  "('b \<Rightarrow> rstr + pcm) \<Rightarrow> (nat \<Rightarrow> (rstr \<times> rstr) list \<Rightarrow> 'b tts_response) \<Rightarrow> rstr \<Rightarrow> rstr \<Rightarrow> pcm
     \<Rightarrow> bool" where
  "synthesis_of decode post voice phrase v \<longleftrightarrow>
     (\<exists>w. synthesize_uncached_phrase decode (post w) voice phrase = Inr v)"

fun bg_value :: "bg_pc \<Rightarrow> pcm option" where
  "bg_value (BStore v) = Some v"
| "bg_value (BHealthy v) = Some v"
| "bg_value (BSend (Inr v)) = Some v"
| "bg_value (BRemove (Inr v)) = Some v"
| "bg_value (BDone (Inr v)) = Some v"
| "bg_value _ = None"

definition value_inv ::
  "('b \<Rightarrow> rstr + pcm) \<Rightarrow> (nat \<Rightarrow> (rstr \<times> rstr) list \<Rightarrow> 'b tts_response) \<Rightarrow> tts_sys \<Rightarrow> bool" where
  "value_inv decode post s \<longleftrightarrow>
     lru.sound (\<lambda>k v. \<forall>p. k = sys_key s p \<longrightarrow> synthesis_of decode post (rt_voice s) p v) (rt_cache s) \<and>
     (\<forall>b \<in> set (rt_backgrounds s). \<forall>v. bg_value (bg_pc b) = Some v \<longrightarrow>
        synthesis_of decode post (rt_voice s) (bg_phrase b) v) \<and>
     (\<forall>r \<in> set (rt_requests s). \<forall>v. rq_pc r = RDone (Inr v) \<longrightarrow>
        synthesis_of decode post (rt_voice s) (rq_phrase r) v)"

lemma value_invI:
  assumes "lru.sound (\<lambda>k v. \<forall>p. k = sys_key s p \<longrightarrow> synthesis_of decode post (rt_voice s) p v)
      (rt_cache s)"
    and "\<And>b v. b \<in> set (rt_backgrounds s) \<Longrightarrow> bg_value (bg_pc b) = Some v \<Longrightarrow>
      synthesis_of decode post (rt_voice s) (bg_phrase b) v"
    and "\<And>r v. r \<in> set (rt_requests s) \<Longrightarrow> rq_pc r = RDone (Inr v) \<Longrightarrow>
      synthesis_of decode post (rt_voice s) (rq_phrase r) v"
  shows "value_inv decode post s"
  using assms unfolding value_inv_def by blast

lemma value_invD:
  assumes "value_inv decode post s"
  shows "lru.sound (\<lambda>k v. \<forall>p. k = sys_key s p \<longrightarrow> synthesis_of decode post (rt_voice s) p v)
      (rt_cache s)"
    and "b \<in> set (rt_backgrounds s) \<Longrightarrow> bg_value (bg_pc b) = Some v \<Longrightarrow>
      synthesis_of decode post (rt_voice s) (bg_phrase b) v"
    and "r \<in> set (rt_requests s) \<Longrightarrow> rq_pc r = RDone (Inr v) \<Longrightarrow>
      synthesis_of decode post (rt_voice s) (rq_phrase r) v"
  using assms unfolding value_inv_def by blast+

lemma value_inv_bg:
  assumes "value_inv decode post s" and "w < length (rt_backgrounds s)"
    and "rt_voice s' = rt_voice s" "rt_rate s' = rt_rate s" "rt_requests s' = rt_requests s"
    and "rt_backgrounds s' = (rt_backgrounds s)[w := (rt_backgrounds s ! w)\<lparr>bg_pc := pc\<rparr>]"
    and "\<And>v. bg_value pc = Some v \<Longrightarrow>
      synthesis_of decode post (rt_voice s) (bg_phrase (rt_backgrounds s ! w)) v"
    and "rt_cache s' = rt_cache s \<or> (\<exists>v. bg_value pc = Some v \<and> rt_cache s' =
      cache_insert (sys_key s (bg_phrase (rt_backgrounds s ! w))) v (rt_cache s))"
  shows "value_inv decode post s'"
proof (rule value_invI)
  note D = value_invD[OF assms(1)]
  have key: "sys_key s' = sys_key s" using assms(3,4) by (rule sys_key_cong)
  show "lru.sound (\<lambda>k v. \<forall>p. k = sys_key s' p \<longrightarrow> synthesis_of decode post (rt_voice s') p v)
      (rt_cache s')"
    using assms(8)
  proof (elim disjE exE conjE)
    assume "rt_cache s' = rt_cache s"
    with D(1) show ?thesis by (simp add: key assms(3))
  next
    fix v
    assume "bg_value pc = Some v" and "rt_cache s' =
      cache_insert (sys_key s (bg_phrase (rt_backgrounds s ! w))) v (rt_cache s)"
    then show ?thesis
      using D(1) assms(7) by (simp add: key assms(3) lru.sound_insert sys_key_inj)
  qed
  show "synthesis_of decode post (rt_voice s') (bg_phrase b) v"
    if "b \<in> set (rt_backgrounds s')" "bg_value (bg_pc b) = Some v" for b v
  proof (cases "b \<in> set (rt_backgrounds s)")
    case True
    with D(2) that show ?thesis by (simp add: assms(3))
  next
    case False
    with that(1) assms(6) set_update_subset_insert[of "rt_backgrounds s" w]
    have "b = (rt_backgrounds s ! w)\<lparr>bg_pc := pc\<rparr>" by auto
    with that(2) assms(7) show ?thesis by (simp add: assms(3))
  qed
  show "synthesis_of decode post (rt_voice s') (rq_phrase r) v"
    if "r \<in> set (rt_requests s')" "rq_pc r = RDone (Inr v)" for r v
    using D(3) that by (simp add: assms(3,5))
qed

lemma background_step_value:
  assumes "value_inv decode post s" and w: "w < length (rt_backgrounds s)"
  shows "value_inv decode post (background_step decode post now recovered w s)"
proof -
  let ?b = "rt_backgrounds s ! w" let ?s' = "background_step decode post now recovered w s"
  have own: "synthesis_of decode post (rt_voice s) (bg_phrase ?b) v" if "bg_value (bg_pc ?b) = Some v" for v
    using value_invD(2)[OF assms(1) nth_mem[OF w] that] .
  have "?s' = s \<or> (\<exists>pc. rt_backgrounds ?s' = (rt_backgrounds s)[w := ?b\<lparr>bg_pc := pc\<rparr>] \<and>
      (\<forall>v. bg_value pc = Some v \<longrightarrow> synthesis_of decode post (rt_voice s) (bg_phrase ?b) v) \<and>
      (rt_cache ?s' = rt_cache s \<or> (\<exists>v. bg_value pc = Some v \<and>
        rt_cache ?s' = cache_insert (sys_key s (bg_phrase ?b)) v (rt_cache s))))"
  proof (cases "bg_pc ?b")
    case BSynth
    then show ?thesis
      by (auto simp: background_step_def Let_def synthesis_of_def split: sum.split
          intro!: exI[of _ "case synthesize_uncached_phrase decode (post w) (rt_voice s) (bg_phrase ?b) of
            Inr v \<Rightarrow> BStore v | Inl e \<Rightarrow> BFail e"])
  next
    case (BStore v)
    then show ?thesis using own
      by (auto simp: background_step_def Let_def intro!: exI[of _ "BHealthy v"])
  next
    case (BHealthy v)
    then show ?thesis using own
      by (auto simp: background_step_def Let_def intro!: exI[of _ "BSend (Inr v)"])
  next
    case (BFail e)
    then show ?thesis
      by (auto simp: background_step_def Let_def split: prod.split
          intro!: exI[of _ "if fst (begin_recovery now (rt_availability s)) then BBurst e else BSend (Inl e)"])
  next
    case (BBurst e)
    then show ?thesis
      by (auto simp: background_step_def Let_def intro!: exI[of _ "BRecovered e recovered"])
  next
    case (BRecovered e ok)
    then show ?thesis
      by (auto simp: background_step_def Let_def intro!: exI[of _ "BSend (Inl e)"])
  next
    case (BSend r)
    then show ?thesis using own
      by (cases r) (auto simp: background_step_def Let_def intro!: exI[of _ "BRemove r"])
  next
    case (BRemove r)
    then show ?thesis using own
      by (cases r) (auto simp: background_step_def Let_def intro!: exI[of _ "BDone r"])
  next
    case (BDone r)
    then show ?thesis by (simp add: background_step_def Let_def)
  qed
  then show ?thesis
  proof (elim disjE[of "?s' = s"] exE conjE)
    assume "?s' = s" with assms(1) show ?thesis by simp
  next
    fix pc
    assume "rt_backgrounds ?s' = (rt_backgrounds s)[w := ?b\<lparr>bg_pc := pc\<rparr>]"
      and "\<forall>v. bg_value pc = Some v \<longrightarrow> synthesis_of decode post (rt_voice s) (bg_phrase ?b) v"
      and "rt_cache ?s' = rt_cache s \<or> (\<exists>v. bg_value pc = Some v \<and>
        rt_cache ?s' = cache_insert (sys_key s (bg_phrase ?b)) v (rt_cache s))"
    then show ?thesis
      by (intro value_inv_bg[OF assms, where pc = pc]) (simp_all add: background_step_parts)
  qed
qed

lemma value_inv_req:
  assumes "value_inv decode post s"
    and "rt_voice s' = rt_voice s" "rt_rate s' = rt_rate s"
    and "rt_requests s' = (rt_requests s)[i := (rt_requests s ! i)\<lparr>rq_pc := pc\<rparr>]"
    and "\<And>v. pc = RDone (Inr v) \<Longrightarrow>
      synthesis_of decode post (rt_voice s) (rq_phrase (rt_requests s ! i)) v"
    and "rt_cache s' = rt_cache s \<or> rt_cache s' = snd (cache_get k (rt_cache s))"
    and "\<And>b. b \<in> set (rt_backgrounds s') \<Longrightarrow> b \<in> set (rt_backgrounds s) \<or> bg_value (bg_pc b) = None"
  shows "value_inv decode post s'"
proof (rule value_invI)
  note D = value_invD[OF assms(1)]
  have key: "sys_key s' = sys_key s" using assms(2,3) by (rule sys_key_cong)
  show "lru.sound (\<lambda>k v. \<forall>p. k = sys_key s' p \<longrightarrow> synthesis_of decode post (rt_voice s') p v)
      (rt_cache s')"
    using assms(6) D(1) by (auto simp: key assms(2) intro: lru.sound_get)
  show "synthesis_of decode post (rt_voice s') (bg_phrase b) v"
    if "b \<in> set (rt_backgrounds s')" "bg_value (bg_pc b) = Some v" for b v
    using D(2)[of b v] assms(7)[of b] that by (auto simp: assms(2))
  show "synthesis_of decode post (rt_voice s') (rq_phrase r) v"
    if "r \<in> set (rt_requests s')" "rq_pc r = RDone (Inr v)" for r v
  proof (cases "r \<in> set (rt_requests s)")
    case True
    with D(3) that(2) show ?thesis by (simp add: assms(2))
  next
    case False
    with that(1) assms(4) set_update_subset_insert[of "rt_requests s" i]
    have "r = (rt_requests s ! i)\<lparr>rq_pc := pc\<rparr>" by auto
    with that(2) assms(5) show ?thesis by (simp add: assms(2))
  qed
qed

lemma cache_hit_value:
  assumes "value_inv decode post s" and "cache_get (sys_key s p) (rt_cache s) = (Some v, c)"
  shows "synthesis_of decode post (rt_voice s) p v"
  using lru.sound_hit[OF value_invD(1)[OF assms(1)] assms(2)] by blast

lemma watch_value:
  assumes "value_inv decode post s" and "flight_inv s" and "w < length (rt_backgrounds s)"
    and "rt_watches s ! w = Ready (Inr v)"
  shows "synthesis_of decode post (rt_voice s) (bg_phrase (rt_backgrounds s ! w)) v"
proof -
  have "published (bg_pc (rt_backgrounds s ! w)) = Ready (Inr v)"
    using flight_invD(7)[OF assms(2,3)] assms(4) by simp
  then have "bg_value (bg_pc (rt_backgrounds s ! w)) = Some v"
    by (cases "bg_pc (rt_backgrounds s ! w)") simp_all
  from value_invD(2)[OF assms(1) nth_mem[OF assms(3)] this] show ?thesis .
qed

lemma request_step_value:
  assumes "value_inv decode post s" and "flight_inv s" and "wait_inv s" and "i < length (rt_requests s)"
  shows "value_inv decode post (request_step now i s)"
proof -
  let ?r = "rt_requests s ! i" let ?key = "sys_key s (rq_phrase ?r)"
  note req = value_inv_req[OF assms(1), where i = i and k = ?key]
  show ?thesis
  proof (cases "rq_pc ?r")
    case RCache
    obtain res c where get: "cache_get ?key (rt_cache s) = (res, c)" by fastforce
    show ?thesis
    proof (cases res)
      case None
      show ?thesis
        by (rule req[where pc = RFlight]) (simp_all add: request_step_def Let_def RCache get None)
    next
      case (Some v)
      show ?thesis
        by (rule req[where pc = "RDone (Inr v)"])
          (use cache_hit_value[OF assms(1) get[unfolded Some]] in
            \<open>simp_all add: request_step_def Let_def RCache get Some\<close>)
    qed
  next
    case RFlight
    then show ?thesis
      by (cases "hm_get (rt_in_flight s) ?key")
        (auto intro!: req simp: request_step_def Let_def)
  next
    case RAvail
    then show ?thesis
      by (cases "assert_runtime_available_for_new_synthesis now (rt_availability s)"; cases
        "fst (assert_runtime_available_for_new_synthesis now (rt_availability s))")
        (auto intro!: req simp: request_step_def Let_def)
  next
    case RLaunch
    then show ?thesis
      by (cases "hm_get (rt_in_flight s) ?key")
        (auto intro!: req simp: request_step_def Let_def)
  next
    case (RWait w)
    then have w: "w < length (rt_backgrounds s)" "bg_phrase (rt_backgrounds s ! w) = rq_phrase ?r"
      using assms(3) nth_mem[OF assms(4)] by (auto simp: wait_inv_def)
    show ?thesis
    proof (cases "rt_watches s ! w")
      case Pending
      with RWait assms(1) show ?thesis by (simp add: request_step_def Let_def)
    next
      case (Ready res)
      with RWait w watch_value[OF assms(1,2) w(1)] show ?thesis
        by (intro req[where pc = "RDone res"]) (auto simp: request_step_def Let_def)
    qed
  next
    case (RDone r)
    with assms(1) show ?thesis by (simp add: request_step_def Let_def)
  qed
qed

lemma tts_step_value:
  assumes "value_inv decode post s" and "flight_inv s" and "wait_inv s"
  shows "value_inv decode post (tts_step decode post e s)"
proof (cases e)
  case (EvCall p)
  show ?thesis
    unfolding EvCall by (rule value_invI) (use value_invD[OF assms(1)] in \<open>auto simp: sys_key_def\<close>)
next
  case (EvRequest now i)
  with assms show ?thesis by (simp add: request_step_value)
next
  case (EvBackground now ok w)
  with assms show ?thesis by (simp add: background_step_value)
qed

interpretation answered: relative_invariant "tts_step decode post" "\<lambda>s. flight_inv s \<and> wait_inv s"
  "value_inv decode post" for decode post
  by unfold_locales (simp_all add: tts_step_value tts_step_flight tts_step_wait)

lemma tts_run_value:
  "value_inv decode post s \<Longrightarrow> flight_inv s \<Longrightarrow> wait_inv s \<Longrightarrow>
     value_inv decode post (tts_run decode post es s)"
  unfolding tts_run_fold by (simp add: answered.run_rel)

lemma runtime_new_value: "value_inv decode post (runtime_new cfg rate)"
  by (simp add: value_inv_def runtime_new_def lru.sound_def cache_new_def)

lemma tts_run_voice: "rt_voice (tts_run decode post es s) = rt_voice s"
proof (induction es arbitrary: s)
  case (Cons e es)
  have "rt_voice (tts_step decode post e s) = rt_voice s"
    by (cases e) (auto simp: background_step_parts request_step_def Let_def
        split: req_pc.splits option.splits prod.splits sum.splits in_flight_state.splits)
  with Cons show ?case by simp
qed simp

subsection \<open>Progress of a background task\<close>

fun bg_rank :: "bg_pc \<Rightarrow> nat" where
  "bg_rank BSynth = 0"
| "bg_rank (BStore v) = 1"
| "bg_rank (BHealthy v) = 2"
| "bg_rank (BFail e) = 1"
| "bg_rank (BBurst e) = 2"
| "bg_rank (BRecovered e ok) = 3"
| "bg_rank (BSend r) = 4"
| "bg_rank (BRemove r) = 5"
| "bg_rank (BDone r) = 6"

text \<open>The control point of task \<open>w\<close> moves only when task \<open>w\<close> takes a step, and then it moves on.\<close>

lemma background_step_rank:
  assumes "w < length (rt_backgrounds s)"
  shows "min 6 (Suc (bg_rank (bg_pc (rt_backgrounds s ! w)))) \<le>
    bg_rank (bg_pc (rt_backgrounds (background_step decode post now recovered w s) ! w))"
  using assms
  by (auto simp: background_step_def Let_def split: bg_pc.splits sum.splits prod.splits)

lemma background_step_other:
  "v \<noteq> w \<Longrightarrow> rt_backgrounds (background_step decode post now recovered w s) ! v = rt_backgrounds s ! v"
  by (auto simp: background_step_def Let_def split: bg_pc.splits sum.splits prod.splits)

lemma request_step_backgrounds:
  "v < length (rt_backgrounds s) \<Longrightarrow> rt_backgrounds (request_step now i s) ! v = rt_backgrounds s ! v"
  "length (rt_backgrounds s) \<le> length (rt_backgrounds (request_step now i s))"
  by (auto simp: request_step_def Let_def nth_append
      split: req_pc.splits option.splits prod.splits sum.splits in_flight_state.splits)

fun steps_of :: "nat \<Rightarrow> tts_event list \<Rightarrow> nat" where
  "steps_of w [] = 0"
| "steps_of w (EvBackground now ok v # es) = (if v = w then Suc (steps_of w es) else steps_of w es)"
| "steps_of w (_ # es) = steps_of w es"

lemma tts_step_rank:
  assumes "w < length (rt_backgrounds s)"
  shows "w < length (rt_backgrounds (tts_step decode post e s))"
    and "min 6 (bg_rank (bg_pc (rt_backgrounds s ! w)) + steps_of w [e]) \<le>
      bg_rank (bg_pc (rt_backgrounds (tts_step decode post e s) ! w))"
proof -
  show "w < length (rt_backgrounds (tts_step decode post e s))"
    using assms request_step_backgrounds(2)[of s] by (cases e) (auto simp: background_step_parts intro: order_less_le_trans)
  show "min 6 (bg_rank (bg_pc (rt_backgrounds s ! w)) + steps_of w [e]) \<le>
      bg_rank (bg_pc (rt_backgrounds (tts_step decode post e s) ! w))"
  proof (cases e)
    case (EvBackground now ok v)
    with assms background_step_rank[OF assms] show ?thesis
      by (cases "v = w") (auto simp: background_step_other)
  qed (use assms in \<open>auto simp: request_step_backgrounds\<close>)
qed

lemma steps_of_Cons: "steps_of w (e # es) = steps_of w [e] + steps_of w es"
  by (cases e) auto

lemma tts_run_rank:
  "w < length (rt_backgrounds s) \<Longrightarrow>
     w < length (rt_backgrounds (tts_run decode post es s)) \<and>
     min 6 (bg_rank (bg_pc (rt_backgrounds s ! w)) + steps_of w es) \<le>
       bg_rank (bg_pc (rt_backgrounds (tts_run decode post es s) ! w))"
proof (induction es arbitrary: s)
  case (Cons e es)
  note step1 = tts_step_rank(1)[OF Cons.prems, of decode post e]
  note step2 = tts_step_rank(2)[OF Cons.prems, of e decode post]
  from Cons.IH[OF step1] step2 show ?case
    by (subst steps_of_Cons) auto
qed simp

text \<open>A request that waits keeps waiting on the same task until it is answered.\<close>

lemma request_step_waiter:
  assumes "i < length (rt_requests s)"
  shows "i < length (rt_requests (request_step now j s))"
    and "rq_pc (rt_requests s ! i) = RWait w \<Longrightarrow>
      rq_pc (rt_requests (request_step now j s) ! i) = RWait w \<or>
      (\<exists>r. rq_pc (rt_requests (request_step now j s) ! i) = RDone r)"
    and "rq_pc (rt_requests s ! i) = RDone r \<Longrightarrow>
      rq_pc (rt_requests (request_step now j s) ! i) = RDone r"
  using assms
  by (cases "i = j"; auto simp: request_step_def Let_def
      split: req_pc.splits option.splits prod.splits sum.splits in_flight_state.splits)+

lemma tts_step_waiter:
  assumes "i < length (rt_requests s)"
    and "rq_pc (rt_requests s ! i) = RWait w \<or> (\<exists>r. rq_pc (rt_requests s ! i) = RDone r)"
  shows "i < length (rt_requests (tts_step decode post e s)) \<and>
    (rq_pc (rt_requests (tts_step decode post e s) ! i) = RWait w \<or>
     (\<exists>r. rq_pc (rt_requests (tts_step decode post e s) ! i) = RDone r))"
proof (cases e)
  case (EvRequest now j)
  from assms request_step_waiter[OF assms(1), where now = now and j = j]
  show ?thesis unfolding EvRequest by (simp only: tts_step.simps split: if_split) blast
qed (use assms in \<open>auto simp: nth_append background_step_parts\<close>)

lemma tts_run_waiter:
  "i < length (rt_requests s) \<Longrightarrow>
     rq_pc (rt_requests s ! i) = RWait w \<or> (\<exists>r. rq_pc (rt_requests s ! i) = RDone r) \<Longrightarrow>
     i < length (rt_requests (tts_run decode post es s)) \<and>
     (rq_pc (rt_requests (tts_run decode post es s) ! i) = RWait w \<or>
      (\<exists>r. rq_pc (rt_requests (tts_run decode post es s) ! i) = RDone r))"
  using tts_step_waiter[of i _ w decode post] by (induction es arbitrary: s) auto

lemma request_step_answers:
  assumes "i < length (rt_requests s)"
    and "rq_pc (rt_requests s ! i) = RWait w \<or> (\<exists>r. rq_pc (rt_requests s ! i) = RDone r)"
    and "rt_watches s ! w = Ready r"
  shows "\<exists>r. rq_pc (rt_requests (request_step now i s) ! i) = RDone r"
  using assms by (auto simp: request_step_def Let_def)

lemma published_rank: "5 \<le> bg_rank pc \<Longrightarrow> \<exists>r. published pc = Ready r"
  by (cases pc) simp_all

lemmas tts_run_inv = tts_run_flight tts_run_wait tts_run_value
lemmas runtime_new_inv = runtime_new_flight runtime_new_wait runtime_new_value

subsection \<open>Cooldown\<close>

text \<open>Nothing is in progress: no background task is active, no request is past the check.\<close>

definition quiescent :: "tts_sys \<Rightarrow> bool" where
  "quiescent s \<longleftrightarrow>
     (\<forall>b \<in> set (rt_backgrounds s). \<not> bg_active b) \<and> (\<forall>r \<in> set (rt_requests s). rq_pc r \<noteq> RLaunch)"

fun event_time :: "tts_event \<Rightarrow> nat option" where
  "event_time (EvCall p) = None"
| "event_time (EvRequest now i) = Some now"
| "event_time (EvBackground now ok w) = Some now"

lemma quiescent_req:
  assumes "quiescent s" and "rt_backgrounds s' = rt_backgrounds s"
    and "rt_requests s' = (rt_requests s)[i := (rt_requests s ! i)\<lparr>rq_pc := pc\<rparr>]" and "pc \<noteq> RLaunch"
  shows "quiescent s'"
  using assms set_update_subset_insert[of "rt_requests s" i "(rt_requests s ! i)\<lparr>rq_pc := pc\<rparr>"]
  by (fastforce simp: quiescent_def)

lemma cooldown_step:
  assumes "quiescent s" and "rt_availability s = Cooldown until"
    and "\<And>now. event_time e = Some now \<Longrightarrow> now < until"
  shows "quiescent (tts_step decode post e s) \<and>
    rt_availability (tts_step decode post e s) = Cooldown until \<and>
    rt_backgrounds (tts_step decode post e s) = rt_backgrounds s"
proof (cases e)
  case (EvCall p)
  with assms show ?thesis by (auto simp: quiescent_def)
next
  case (EvRequest now i)
  show ?thesis
  proof (cases "i < length (rt_requests s)")
    case True
    let ?s' = "request_step now i s"
    have nl: "rq_pc (rt_requests s ! i) \<noteq> RLaunch"
      using assms(1) nth_mem[OF True] by (auto simp: quiescent_def)
    have chk: "assert_runtime_available_for_new_synthesis now (Cooldown until)
        = (Inl CooldownError, Cooldown until)"
      using assms(3) EvRequest by (simp add: assert_runtime_available_for_new_synthesis_def)
    have "rt_availability ?s' = Cooldown until \<and> rt_backgrounds ?s' = rt_backgrounds s \<and>
      (?s' = s \<or> (\<exists>pc. pc \<noteq> RLaunch \<and>
        rt_requests ?s' = (rt_requests s)[i := (rt_requests s ! i)\<lparr>rq_pc := pc\<rparr>]))"
      using nl assms(2) chk
      by (auto simp: request_step_def Let_def
          split: req_pc.splits option.splits prod.splits in_flight_state.splits)
    with True EvRequest quiescent_req[OF assms(1), of ?s' i] assms(1) show ?thesis by auto
  qed (use assms EvRequest in auto)
next
  case (EvBackground now ok w)
  show ?thesis
  proof (cases "w < length (rt_backgrounds s)")
    case True
    then obtain r where "bg_pc (rt_backgrounds s ! w) = BDone r"
      using assms(1) nth_mem[OF True] unfolding quiescent_def bg_active_iff by blast
    then have "background_step decode post now ok w s = s" by (simp add: background_step_def Let_def)
    with True EvBackground assms show ?thesis by simp
  qed (use assms EvBackground in auto)
qed

lemmas tts_eval = request_step_def background_step_def runtime_new_def cache_new_def cache_get_def
  cache_insert_def hm_contains_def set_req_def set_bg_def Let_def
  assert_runtime_available_for_new_synthesis_def begin_recovery_def end_recovery_def
  POST_FAILURE_COOLDOWN_def synthesize_uncached_phrase_def

text \<open>A run in which two calls ask for the same phrase: the second joins the synthesis of the first.\<close>

definition two_calls :: "tts_event list" where
  "two_calls = [EvCall [7], EvRequest 0 0, EvRequest 0 0, EvRequest 0 0, EvRequest 0 0,
     EvCall [7], EvRequest 0 1, EvRequest 0 1]"

definition echo_post :: "nat \<Rightarrow> (rstr \<times> rstr) list \<Rightarrow> pcm tts_response" where
  "echo_post w form = Body [of_nat (length form)]"

lemma two_calls_run:
  "tts_run Inr echo_post two_calls (runtime_new tts_section_default 48000) =
     \<lparr>rt_voice = tts_voice tts_section_default, rt_rate = 48000, rt_cache = cache_new,
      rt_in_flight = [(cache_key (tts_voice tts_section_default) 48000 [7], 0)],
      rt_availability = Healthy, rt_watches = [Pending],
      rt_requests = [\<lparr>rq_phrase = [7], rq_pc = RWait 0\<rparr>, \<lparr>rq_phrase = [7], rq_pc = RWait 0\<rparr>],
      rt_backgrounds = [\<lparr>bg_phrase = [7], bg_pc = BSynth\<rparr>]\<rparr>"
  by (simp add: two_calls_def tts_eval sys_key_def)

subsection \<open>Properties\<close>

text \<open>C5. Whatever the interleaving of requests and background tasks, two background
  syntheses that are both unfinished are never for the same phrase.\<close>

theorem one_synthesis_per_phrase:
  assumes "v < length (rt_backgrounds s)" and "w < length (rt_backgrounds s)"
    and "s = tts_run decode post es (runtime_new cfg rate)"
    and "bg_active (rt_backgrounds s ! v)" and "bg_active (rt_backgrounds s ! w)"
    and "bg_phrase (rt_backgrounds s ! v) = bg_phrase (rt_backgrounds s ! w)"
  shows "v = w"
proof -
  have "flight_inv s" unfolding assms(3) by (intro tts_run_inv runtime_new_inv)
  note D = flight_invD(6)[OF this]
  have "Some v = Some w"
    using D[OF assms(1,4)] D[OF assms(2,5)] by (simp only: assms(6))
  then show ?thesis by (rule option.inject[THEN iffD1])
qed

lemma one_synthesis_per_phrase_witness:
  "let s = tts_run Inr echo_post two_calls (runtime_new tts_section_default 48000)
   in bg_active (rt_backgrounds s ! 0) \<and> (\<forall>v < length (rt_backgrounds s).
     bg_active (rt_backgrounds s ! v) \<longrightarrow> bg_phrase (rt_backgrounds s ! v) = [7] \<longrightarrow> v = 0)"
  using one_synthesis_per_phrase[OF _ _ refl, of _ Inr echo_post two_calls tts_section_default 48000 0]
  by (simp add: two_calls_run Let_def)

text \<open>C6. Every successful answer, from the cache, from a synthesis the request joined or from
  one it launched, is audio the service returned for exactly that phrase and the configured
  voice, under every interleaving and every behaviour of the service.\<close>

theorem answers_are_syntheses:
  assumes "r \<in> set (rt_requests (tts_run decode post es (runtime_new cfg rate)))"
    and "rq_pc r = RDone (Inr v)"
  shows "\<exists>w. synthesize_uncached_phrase decode (post w) (tts_voice cfg) (rq_phrase r) = Inr v"
proof -
  have "value_inv decode post (tts_run decode post es (runtime_new cfg rate))"
    by (intro tts_run_inv runtime_new_inv)
  from value_invD(3)[OF this assms] show ?thesis
    by (simp add: synthesis_of_def tts_run_voice) (simp add: runtime_new_def)
qed

lemma answers_are_syntheses_witness:
  "let s = tts_run Inr echo_post (two_calls @ replicate 5 (EvBackground 0 True 0) @ [EvRequest 0 1])
       (runtime_new tts_section_default 48000)
   in rq_pc (rt_requests s ! 1) = RDone (Inr [2]) \<and>
      (\<exists>w. synthesize_uncached_phrase Inr (echo_post w) (tts_voice tts_section_default)
             (rq_phrase (rt_requests s ! 1)) = Inr [2])"
proof -
  let ?es = "two_calls @ replicate 5 (EvBackground 0 True 0) @ [EvRequest 0 1]"
  let ?s = "tts_run Inr echo_post ?es (runtime_new tts_section_default 48000)"
  have run: "1 < length (rt_requests ?s)" "rq_pc (rt_requests ?s ! 1) = RDone (Inr [2])"
    by (simp_all add: two_calls_def tts_eval echo_post_def tts_form_def tts_section_default_def
        default_tts_voice_def sys_key_def numeral_eq_Suc trim_def trim_start_def trim_end_by_def is_whitespace_def lit_def)
  from answers_are_syntheses[OF nth_mem[OF run(1)] run(2)] run(2) show ?thesis
    by (simp add: Let_def)
qed

text \<open>C7. No request is stranded: once the task a request waits on has taken five steps, in
  any interleaving with other requests and tasks and whatever the service and the retry burst
  do, the request's next step answers it.\<close>

theorem waiter_is_answered:
  assumes "s = tts_run decode post es0 (runtime_new cfg rate)"
    and "i < length (rt_requests s)" and "rq_pc (rt_requests s ! i) = RWait w"
    and "5 \<le> steps_of w es"
  shows "\<exists>r. rq_pc (rt_requests (request_step now i (tts_run decode post es s)) ! i) = RDone r"
proof -
  have inv: "flight_inv s" "wait_inv s" unfolding assms(1) by (intro tts_run_inv runtime_new_inv)+
  let ?s' = "tts_run decode post es s"
  have w: "w < length (rt_backgrounds s)"
    using inv(2) nth_mem[OF assms(2)] assms(3) by (auto simp: wait_inv_def)
  have w': "w < length (rt_backgrounds ?s')" "5 \<le> bg_rank (bg_pc (rt_backgrounds ?s' ! w))"
    using tts_run_rank[OF w, of decode post es] assms(4) by auto
  obtain r where "rt_watches ?s' ! w = Ready r"
    using published_rank[OF w'(2)] flight_invD(7)[OF tts_run_flight[OF inv(1)] w'(1)] by auto
  with tts_run_waiter[OF assms(2), of w decode post es] assms(3) show ?thesis
    by (intro request_step_answers[where w = w]) auto
qed

lemma waiter_is_answered_witness:
  "\<exists>r. rq_pc (rt_requests (request_step 9 1
     (tts_run Inr (\<lambda>w f. BodyFailed) (replicate 5 (EvBackground 3 False 0))
       (tts_run Inr (\<lambda>w f. BodyFailed) two_calls (runtime_new tts_section_default 48000)))) ! 1) = RDone r"
proof (rule waiter_is_answered[OF refl])
  let ?s = "tts_run Inr (\<lambda>w f. BodyFailed :: pcm tts_response) two_calls
    (runtime_new tts_section_default 48000)"
  show "1 < length (rt_requests ?s)" and "rq_pc (rt_requests ?s ! 1) = RWait 0"
    by (simp_all add: two_calls_def tts_eval sys_key_def)
  show "5 \<le> steps_of 0 (replicate 5 (EvBackground 3 False 0))" by (simp add: numeral_eq_Suc)
qed

text \<open>While the runtime cools down and nothing is in progress, no call launches a
  synthesis: whatever events happen before the cooldown ends, no background task is added and
  the runtime stays in cooldown.\<close>

theorem cooldown_blocks_synthesis:
  assumes "quiescent s" and "rt_availability s = Cooldown until"
    and "\<And>e now. e \<in> set es \<Longrightarrow> event_time e = Some now \<Longrightarrow> now < until"
  shows "rt_backgrounds (tts_run decode post es s) = rt_backgrounds s \<and>
    rt_availability (tts_run decode post es s) = Cooldown until"
  using assms
proof (induction es arbitrary: s)
  case (Cons e es)
  have "quiescent (tts_step decode post e s) \<and>
    rt_availability (tts_step decode post e s) = Cooldown until \<and>
    rt_backgrounds (tts_step decode post e s) = rt_backgrounds s"
    by (rule cooldown_step[OF Cons.prems(1,2)]) (use Cons.prems(3) in auto)
  moreover have "\<And>e' now. e' \<in> set es \<Longrightarrow> event_time e' = Some now \<Longrightarrow> now < until"
    using Cons.prems(3) by (meson list.set_intros(2))
  ultimately show ?case using Cons.IH[of "tts_step decode post e s"] by simp
qed simp

lemma cooldown_blocks_synthesis_witness:
  "let s0 = (runtime_new tts_section_default 48000)\<lparr>rt_availability := Cooldown 100\<rparr>;
       s = tts_run Inr echo_post [EvCall [7], EvRequest 99 0, EvRequest 99 0, EvRequest 99 0] s0
   in rt_backgrounds s = [] \<and> rt_availability s = Cooldown 100 \<and>
      rq_pc (rt_requests s ! 0) = RDone (Inl CooldownError)"
proof -
  let ?s0 = "(runtime_new tts_section_default 48000)\<lparr>rt_availability := Cooldown 100\<rparr>"
  let ?es = "[EvCall [7], EvRequest 99 0, EvRequest 99 0, EvRequest 99 0]"
  have "rt_backgrounds (tts_run Inr echo_post ?es ?s0) = rt_backgrounds ?s0 \<and>
    rt_availability (tts_run Inr echo_post ?es ?s0) = Cooldown 100"
    by (rule cooldown_blocks_synthesis) (auto simp: quiescent_def runtime_new_def)
  then show ?thesis by (simp add: Let_def tts_eval)
qed

end
