(* ===== verification/Callbacks.thy ===== *)
theory Callbacks
  imports RustStr HashMap
begin

text \<open>
  \<^verbatim>\<open>src/sip/callbacks.rs\<close>: the four registries shared between pjsip's threads and the session
  manager, the pjsua callbacks, the events they send, and the parsing of the caller's number.

  The registries are the fields of \<open>sip_state\<close>, which also carries what the program does to the
  outside: the conference slots, the ports destroyed, the pools released and the deferred
  destructions.  A port or a pool is named by its allocation, so a name is never reused; the
  answers of pjsua are arguments.
\<close>

subsection \<open>The registries\<close>

record active_media =
  am_conf_port_id :: conf_id
  am_pool :: pool

record cleanup =
  cl_port :: port
  cl_pool :: "pool option"

text \<open>A one-shot channel is \<open>Waiting\<close> until it is fired or its sender is dropped.\<close>

datatype oneshot = Waiting | Fired | Dropped

record sip_state =
  pending_ports :: "(call_id, port) hashmap"
  active_media :: "(call_id, active_media) hashmap"
  media_ready_tx :: "(call_id, nat) hashmap"
  pending_cleanup :: "(conf_id, cleanup) hashmap"
  oneshots :: "oneshot list"
  conference :: "(conf_id, port) hashmap"
  deferred :: "cleanup list"
  destroyed :: "port list"
  released :: "pool list"
  next_port :: port
  next_pool :: pool

definition register_pending_port ::
  "call_id \<Rightarrow> port \<Rightarrow> 'a sip_state_scheme \<Rightarrow> 'a sip_state_scheme" where
  "register_pending_port call p s = s\<lparr>pending_ports := hm_insert call p (pending_ports s)\<rparr>"

definition unregister_pending_port ::
  "call_id \<Rightarrow> 'a sip_state_scheme \<Rightarrow> port option \<times> 'a sip_state_scheme" where
  "unregister_pending_port call s =
     (hm_get (pending_ports s) call, s\<lparr>pending_ports := hm_remove call (pending_ports s)\<rparr>)"

definition take_active_media ::
  "call_id \<Rightarrow> 'a sip_state_scheme \<Rightarrow> active_media option \<times> 'a sip_state_scheme" where
  "take_active_media call s =
     (hm_get (active_media s) call, s\<lparr>active_media := hm_remove call (active_media s)\<rparr>)"

definition register_pending_cleanup ::
  "conf_id \<Rightarrow> port \<Rightarrow> pool option \<Rightarrow> 'a sip_state_scheme \<Rightarrow> 'a sip_state_scheme" where
  "register_pending_cleanup conf p pl s =
     s\<lparr>pending_cleanup := hm_insert conf \<lparr>cl_port = p, cl_pool = pl\<rparr> (pending_cleanup s)\<rparr>"

definition take_pending_cleanup ::
  "conf_id \<Rightarrow> 'a sip_state_scheme \<Rightarrow> cleanup option \<times> 'a sip_state_scheme" where
  "take_pending_cleanup conf s =
     (hm_get (pending_cleanup s) conf, s\<lparr>pending_cleanup := hm_remove conf (pending_cleanup s)\<rparr>)"

text \<open>Replacing or removing an entry of \<^verbatim>\<open>MEDIA_READY_TX\<close> drops the sender it held.\<close>

definition drop_sender :: "call_id \<Rightarrow> 'a sip_state_scheme \<Rightarrow> 'a sip_state_scheme" where
  "drop_sender call s =
     (case hm_get (media_ready_tx s) call of
        None \<Rightarrow> s
      | Some ch \<Rightarrow>
          s\<lparr>oneshots := (if oneshots s ! ch = Waiting then (oneshots s)[ch := Dropped] else oneshots s)\<rparr>)"

definition register_media_ready ::
  "call_id \<Rightarrow> 'a sip_state_scheme \<Rightarrow> nat \<times> 'a sip_state_scheme" where
  "register_media_ready call s =
     (let ch = length (oneshots s); s1 = drop_sender call s
      in (ch, s1\<lparr>oneshots := oneshots s1 @ [Waiting],
                 media_ready_tx := hm_insert call ch (media_ready_tx s1)\<rparr>))"

definition unregister_media_ready :: "call_id \<Rightarrow> 'a sip_state_scheme \<Rightarrow> 'a sip_state_scheme" where
  "unregister_media_ready call s =
     (let s1 = drop_sender call s in s1\<lparr>media_ready_tx := hm_remove call (media_ready_tx s1)\<rparr>)"

definition fire_media_ready :: "call_id \<Rightarrow> 'a sip_state_scheme \<Rightarrow> 'a sip_state_scheme" where
  "fire_media_ready call s =
     (case hm_get (media_ready_tx s) call of
        None \<Rightarrow> s
      | Some ch \<Rightarrow> s\<lparr>media_ready_tx := hm_remove call (media_ready_tx s),
                     oneshots := (oneshots s)[ch := Fired]\<rparr>)"

subsection \<open>Memory\<close>

definition create_port :: "'a sip_state_scheme \<Rightarrow> port \<times> 'a sip_state_scheme" where
  "create_port s = (next_port s, s\<lparr>next_port := Suc (next_port s)\<rparr>)"

definition destroy_port :: "port \<Rightarrow> 'a sip_state_scheme \<Rightarrow> 'a sip_state_scheme" where
  "destroy_port p s = s\<lparr>destroyed := destroyed s @ [p]\<rparr>"

definition release_pool :: "pool option \<Rightarrow> 'a sip_state_scheme \<Rightarrow> 'a sip_state_scheme" where
  "release_pool pl s =
     (case pl of None \<Rightarrow> s | Some q \<Rightarrow> s\<lparr>released := released s @ [q]\<rparr>)"

text \<open>\<^verbatim>\<open>DeferredCleanup\<close> of \<^verbatim>\<open>session.rs\<close>: \<open>spawn_deferred\<close> starts a thread, \<open>run_deferred k\<close> is the
  end of the \<open>k\<close>-th thread still sleeping.\<close>

definition spawn_deferred :: "cleanup \<Rightarrow> 'a sip_state_scheme \<Rightarrow> 'a sip_state_scheme" where
  "spawn_deferred c s = s\<lparr>deferred := deferred s @ [c]\<rparr>"

definition run_cleanup :: "cleanup \<Rightarrow> 'a sip_state_scheme \<Rightarrow> 'a sip_state_scheme" where
  "run_cleanup c s = release_pool (cl_pool c) (destroy_port (cl_port c) s)"

definition run_deferred :: "nat \<Rightarrow> 'a sip_state_scheme \<Rightarrow> 'a sip_state_scheme" where
  "run_deferred k s =
     (if k < length (deferred s)
      then run_cleanup (deferred s ! k) (s\<lparr>deferred := take k (deferred s) @ drop (Suc k) (deferred s)\<rparr>)
      else s)"

declare register_pending_port_def [registry_ops] unregister_pending_port_def [registry_ops] take_active_media_def [registry_ops]
  register_pending_cleanup_def [registry_ops] take_pending_cleanup_def [registry_ops] drop_sender_def [registry_ops]
  register_media_ready_def [registry_ops] unregister_media_ready_def [registry_ops] fire_media_ready_def [registry_ops]
  create_port_def [registry_ops] destroy_port_def [registry_ops] release_pool_def [registry_ops]
  spawn_deferred_def [registry_ops] run_cleanup_def [registry_ops] run_deferred_def [registry_ops]

subsection \<open>The media callback\<close>

text \<open>
  \<^verbatim>\<open>on_call_media_state\<close> between its lock regions.  What pjsua answers while the port is held:
  no conference port yet, no pool, the conference refuses the port, or a slot.
\<close>

datatype attach_outcome = NoConfPort | NoPool | AddFailed | Added conf_id

datatype callback_pc =
    CbTake
  | CbHeld port
  | CbPutBack port
  | CbPublish active_media
  | CbNotify
  | CbDone

definition media_step ::
  "attach_outcome \<Rightarrow> call_id \<Rightarrow> callback_pc \<Rightarrow> 'a sip_state_scheme \<Rightarrow> callback_pc \<times> 'a sip_state_scheme" where
  "media_step out call pc s =
     (case pc of
        CbTake \<Rightarrow>
          (case unregister_pending_port call s of
             (None, s1) \<Rightarrow> (CbDone, s1)
           | (Some p, s1) \<Rightarrow> (CbHeld p, s1))
      | CbHeld p \<Rightarrow>
          (case out of
             NoConfPort \<Rightarrow> (CbPutBack p, s)
           | NoPool \<Rightarrow> (CbPutBack p, s)
           | AddFailed \<Rightarrow>
               (CbPutBack p, release_pool (Some (next_pool s)) (s\<lparr>next_pool := Suc (next_pool s)\<rparr>))
           | Added conf \<Rightarrow>
               (CbPublish \<lparr>am_conf_port_id = conf, am_pool = next_pool s\<rparr>,
                s\<lparr>next_pool := Suc (next_pool s), conference := hm_insert conf p (conference s)\<rparr>))
      | CbPutBack p \<Rightarrow> (CbDone, register_pending_port call p s)
      | CbPublish am \<Rightarrow> (CbNotify, s\<lparr>active_media := hm_insert call am (active_media s)\<rparr>)
      | CbNotify \<Rightarrow> (CbDone, fire_media_ready call s)
      | CbDone \<Rightarrow> (CbDone, s))"

text \<open>The callback run without interruption.\<close>

definition on_call_media_state ::
  "attach_outcome \<Rightarrow> call_id \<Rightarrow> 'a sip_state_scheme \<Rightarrow> 'a sip_state_scheme" where
  "on_call_media_state out call s =
     snd (((\<lambda>(pc, s). media_step out call pc s) ^^ 4) (CbTake, s))"

subsection \<open>The conference callback\<close>

datatype conf_op = RemovePort | OtherOp

text \<open>\<^verbatim>\<open>on_conf_op_completed\<close>: \<open>info\<close> is \<open>None\<close> for a null pointer.\<close>

definition on_conf_op_completed ::
  "(conf_op \<times> conf_id \<times> pj_status) option \<Rightarrow> 'a sip_state_scheme \<Rightarrow> 'a sip_state_scheme" where
  "on_conf_op_completed info s =
     (case info of
        None \<Rightarrow> s
      | Some (op, conf, status) \<Rightarrow>
          if op \<noteq> RemovePort then s
          else
            (case take_pending_cleanup conf s of
               (None, s1) \<Rightarrow> s1
             | (Some c, s1) \<Rightarrow> if status \<noteq> 0 then s1 else run_cleanup c s1))"

subsection \<open>Events\<close>

datatype sip_event =
    IncomingCall int call_id "rstr option" "rstr option"
  | CallStateChanged call_id u32
  | DtmfDigit call_id uchar

text \<open>\<^verbatim>\<open>EVENT_TX\<close>: not set, or a channel that is open or closed with what has been sent.\<close>

type_synonym event_tx = "(bool \<times> sip_event list) option"

definition send_event :: "sip_event \<Rightarrow> event_tx \<Rightarrow> event_tx" where
  "send_event ev tx =
     (case tx of
        None \<Rightarrow> None
      | Some (is_open, sent) \<Rightarrow> if is_open then Some (is_open, sent @ [ev]) else tx)"

text \<open>\<^verbatim>\<open>extract_header_value\<close>: \<open>rdata\<close> and its message may be null; \<open>find_hdr\<close> is pjsip's lookup,
  giving the length and the bytes of the value (\<open>None\<close> for a null pointer); \<open>lossy\<close> decodes UTF-8.\<close>

definition extract_header_value ::
  "('m \<Rightarrow> rstr \<Rightarrow> (int \<times> nat list option) option) \<Rightarrow> (nat list \<Rightarrow> rstr) \<Rightarrow> 'm option option \<Rightarrow> rstr
     \<Rightarrow> rstr option" where
  "extract_header_value find_hdr lossy rdata name =
     (case rdata of
        None \<Rightarrow> None
      | Some None \<Rightarrow> None
      | Some (Some msg) \<Rightarrow>
          (case find_hdr msg name of
             None \<Rightarrow> None
           | Some (slen, None) \<Rightarrow> None
           | Some (slen, Some bytes) \<Rightarrow>
               if slen \<le> 0 then None else Some (trim (lossy (take (nat slen) bytes)))))"

definition extract_phone_number :: "rstr \<Rightarrow> rstr option" where
  "extract_phone_number remote_info =
     (case find_sub remote_info (lit ''sip:'') of
        None \<Rightarrow> None
      | Some i \<Rightarrow>
          (let rest = drop (i + 4) remote_info in
           case find_char ((=) 64) rest of
             None \<Rightarrow> None
           | Some at_pos \<Rightarrow>
               (let digits = filter is_ascii_digit (take at_pos rest) in
                if digits = [] then None
                else if length digits = 11 \<and> hd digits = 49 then Some (tl digits)
                else Some digits)))"

text \<open>\<open>call_info\<close> is what \<^verbatim>\<open>pjsua_call_get_info\<close> gives: the remote URI and the call state.\<close>

definition on_incoming_call ::
  "(rstr \<Rightarrow> rstr option) \<Rightarrow> (nat list \<Rightarrow> rstr) \<Rightarrow> (nat list \<times> u32) option \<Rightarrow> int \<Rightarrow> call_id
     \<Rightarrow> event_tx \<Rightarrow> event_tx" where
  "on_incoming_call header lossy call_info acc call tx =
     send_event
       (IncomingCall acc call (header (lit ''X-Mumble-Server''))
         (case call_info of None \<Rightarrow> None | Some (remote, _) \<Rightarrow> extract_phone_number (lossy remote))) tx"

definition on_call_state :: "(nat list \<times> u32) option \<Rightarrow> call_id \<Rightarrow> event_tx \<Rightarrow> event_tx" where
  "on_call_state call_info call tx =
     (case call_info of None \<Rightarrow> tx | Some (_, state) \<Rightarrow> send_event (CallStateChanged call state) tx)"

text \<open>\<^verbatim>\<open>char::from_u32\<close> refuses surrogates and everything above 0x10FFFF; the digit is cast to
  \<open>u32\<close> first.\<close>

definition char_from_u32 :: "u32 \<Rightarrow> uchar option" where
  "char_from_u32 w =
     (let c = unat w in if (55296 \<le> c \<and> c \<le> 57343) \<or> 1114111 < c then None else Some c)"

definition on_dtmf_digit_callback :: "u32 \<Rightarrow> call_id \<Rightarrow> event_tx \<Rightarrow> event_tx" where
  "on_dtmf_digit_callback digit call tx =
     send_event (DtmfDigit call (case char_from_u32 digit of None \<Rightarrow> 63 | Some c \<Rightarrow> c)) tx"

subsection \<open>Lemmas\<close>

lemma set_filter_digits: "set (filter is_ascii_digit s) \<subseteq> {c. is_ascii_digit c}"
  by auto

lemma numeral_funpow: "(f ^^ 4) x = f (f (f (f x)))"
  by (simp add: numeral_eq_Suc)

lemma failed_attach:
  assumes "hm_get (pending_ports s) call = Some p" and "\<forall>conf. out \<noteq> Added conf"
  shows "hm_get (pending_ports (on_call_media_state out call s)) call = Some p \<and>
    active_media (on_call_media_state out call s) = active_media s \<and>
    conference (on_call_media_state out call s) = conference s \<and>
    media_ready_tx (on_call_media_state out call s) = media_ready_tx s \<and>
    oneshots (on_call_media_state out call s) = oneshots s \<and>
    destroyed (on_call_media_state out call s) = destroyed s"
  using assms
  by (cases out)
    (simp_all add: on_call_media_state_def numeral_funpow media_step_def unregister_pending_port_def
      register_pending_port_def release_pool_def)

lemma successful_attach:
  assumes "hm_get (pending_ports s) call = Some p"
  shows "hm_get (pending_ports (on_call_media_state (Added conf) call s)) call = None \<and>
    hm_get (conference (on_call_media_state (Added conf) call s)) conf = Some p \<and>
    hm_get (active_media (on_call_media_state (Added conf) call s)) call
      = Some \<lparr>am_conf_port_id = conf, am_pool = next_pool s\<rparr> \<and>
    destroyed (on_call_media_state (Added conf) call s) = destroyed s \<and>
    (\<forall>ch. hm_get (media_ready_tx s) call = Some ch \<longrightarrow> ch < length (oneshots s) \<longrightarrow>
       oneshots (on_call_media_state (Added conf) call s) ! ch = Fired)"
  using assms
  by (simp add: on_call_media_state_def numeral_funpow media_step_def unregister_pending_port_def
      fire_media_ready_def split: option.split)

subsection \<open>Properties\<close>

text \<open>The media callback never loses a port: after any number of callbacks in which the
  conference refuses the port, the next one that is given a slot attaches exactly the port that
  was registered, publishes it as active and fires the call's notifier.\<close>

theorem media_callback_retries:
  assumes "hm_get (pending_ports s) call = Some p" and "\<forall>out \<in> set outs. \<forall>c. out \<noteq> Added c"
    and "hm_get (media_ready_tx s) call = Some ch" and "ch < length (oneshots s)"
  shows "let s1 = fold (\<lambda>out. on_call_media_state out call) outs s;
             s' = on_call_media_state (Added conf) call s1 in
    hm_get (pending_ports s1) call = Some p \<and> hm_get (pending_ports s') call = None \<and>
    hm_get (conference s') conf = Some p \<and>
    map_option am_conf_port_id (hm_get (active_media s') call) = Some conf \<and>
    oneshots s' ! ch = Fired \<and> destroyed s' = destroyed s"
  using assms
proof (induction outs arbitrary: s)
  case Nil
  with successful_attach[OF Nil(1), of conf] show ?case by (simp add: Let_def)
next
  case (Cons out outs)
  let ?s1 = "on_call_media_state out call s"
  note F = failed_attach[OF Cons.prems(1), of out]
  have "\<forall>conf. out \<noteq> Added conf" using Cons.prems(2) by simp
  with F have F': "hm_get (pending_ports ?s1) call = Some p" "media_ready_tx ?s1 = media_ready_tx s"
    "oneshots ?s1 = oneshots s" "destroyed ?s1 = destroyed s" by blast+
  from Cons.IH[OF F'(1)] Cons.prems(2-4) F'(2-4) show ?case by (simp add: Let_def)
qed

lemma media_callback_retries_witness:
  "let s = \<lparr>pending_ports = [(4, 0)], active_media = [], media_ready_tx = [(4, 0)],
      pending_cleanup = [], oneshots = [Waiting], conference = [], deferred = [], destroyed = [],
      released = [], next_port = 1, next_pool = 0\<rparr>;
     s1 = fold (\<lambda>out. on_call_media_state out 4) [NoConfPort, AddFailed] s
   in hm_get (conference (on_call_media_state (Added 7) 4 s1)) 7 = Some 0"
  using media_callback_retries[of "\<lparr>pending_ports = [(4, 0)], active_media = [], media_ready_tx = [(4, 0)],
      pending_cleanup = [], oneshots = [Waiting], conference = [], deferred = [], destroyed = [],
      released = [], next_port = 1, next_pool = 0\<rparr>" 4 0 "[NoConfPort, AddFailed]" 0 7]
  by (simp add: Let_def)

lemma find_char_split:
  "\<forall>c \<in> set u. c \<noteq> 64 \<Longrightarrow> find_char ((=) 64) (u @ 64 # t) = Some (length u)"
  by (induction u) auto

definition sip_address :: "rstr \<Rightarrow> rstr \<Rightarrow> rstr \<Rightarrow> rstr" where
  "sip_address pre user host = pre @ lit ''sip:'' @ user @ 64 # host"

definition phone_digits :: "rstr \<Rightarrow> rstr" where
  "phone_digits user = filter is_ascii_digit user"

text \<open>A user part that spells a telephone number: digits, \<open>+\<close> and the separators \<open>( ) - .\<close>, with at
  least one digit.\<close>

definition spells_number :: "rstr \<Rightarrow> bool" where
  "spells_number user \<longleftrightarrow>
     list_all (\<lambda>c. is_ascii_digit c \<or> c \<in> {43, 40, 41, 45, 46}) user \<and> phone_digits user \<noteq> []"

text \<open>\<open>pre\<close>, such as a display name, does not hold the scheme itself.\<close>

definition scheme_after :: "rstr \<Rightarrow> rstr \<Rightarrow> bool" where
  "scheme_after pre address \<longleftrightarrow> find_sub address (lit ''sip:'') = Some (length pre)"

lemma extract_phone_number_digits:
  assumes "scheme_after pre (sip_address pre user host)" and "\<forall>c \<in> set user. c \<noteq> 64"
  shows "extract_phone_number (sip_address pre user host) =
    (let d = phone_digits user in
     if d = [] then None else if length d = 11 \<and> hd d = 49 then Some (tl d) else Some d)"
proof -
  have "length (lit ''sip:'') = 4" by (simp add: lit_def)
  then have "drop (length pre + 4) (sip_address pre user host) = user @ 64 # host"
    unfolding sip_address_def by (metis append.assoc append_eq_conv_conj length_append)
  then show ?thesis
    using assms(1) by (simp add: extract_phone_number_def scheme_after_def find_char_split[OF assms(2)]
        phone_digits_def Let_def)
qed

lemma spells_number_digits:
  assumes "spells_number user" and "scheme_after pre (sip_address pre user host)"
  shows "extract_phone_number (sip_address pre user host) =
    Some (if length (phone_digits user) = 11 \<and> hd (phone_digits user) = 49 then tl (phone_digits user)
          else phone_digits user)"
proof -
  have "\<forall>c \<in> set user. c \<noteq> 64" using assms(1) by (auto simp: spells_number_def list_all_iff is_ascii_digit_def)
  from extract_phone_number_digits[OF assms(2) this] assms(1) show ?thesis
    by (simp add: spells_number_def Let_def)
qed

lemma phone_digits_id: "list_all is_ascii_digit n \<Longrightarrow> phone_digits n = n"
  by (simp add: phone_digits_def list_all_iff)

text \<open>C13. A caller is recognised however the telephone number is written: two addresses whose user
  parts spell the same digits, or ten digits once without and once with the country code \<open>1\<close>, give
  the same caller number, whatever the display names, the separators and the hosts.  It has the digits
  of the address, without the country code, and an address that is the number itself gives it
  back.\<close>

theorem caller_number_canonical:
  assumes "spells_number user" and "scheme_after pre (sip_address pre user host)"
    and "spells_number user'" and "scheme_after pre' (sip_address pre' user' host')"
    and "phone_digits user' = phone_digits user \<or>
      length (phone_digits user) = 10 \<and> phone_digits user' = 49 # phone_digits user"
  shows "\<exists>n. extract_phone_number (sip_address pre user host) = Some n \<and>
    extract_phone_number (sip_address pre' user' host') = Some n \<and>
    (phone_digits user = n \<or> length n = 10 \<and> phone_digits user = 49 # n) \<and>
    (\<forall>h. extract_phone_number (sip_address [] n h) = Some n)"
proof -
  let ?d = "phone_digits user"
  define n where "n = (if length ?d = 11 \<and> hd ?d = 49 then tl ?d else ?d)"
  have n: "?d = n \<or> length n = 10 \<and> ?d = 49 # n"
    by (cases ?d) (auto simp: n_def)
  have "list_all is_ascii_digit ?d" by (simp add: phone_digits_def list_all_iff)
  with n have digits: "list_all is_ascii_digit n" by auto
  have short: "\<not> (length n = 11 \<and> hd n = 49)" by (cases ?d) (auto simp: n_def)
  have "n \<noteq> []" using n assms(1) by (auto simp: spells_number_def)
  with digits have self: "spells_number n" by (auto simp: spells_number_def phone_digits_id list_all_iff)
  have "scheme_after [] (sip_address [] n h)" for h
    by (simp add: scheme_after_def sip_address_def lit_def)
  from spells_number_digits[OF self this] short digits
  have "\<forall>h. extract_phone_number (sip_address [] n h) = Some n" by (auto simp: phone_digits_id)
  moreover have "extract_phone_number (sip_address pre user host) = Some n"
    using spells_number_digits[OF assms(1,2)] by (simp add: n_def)
  moreover have "extract_phone_number (sip_address pre' user' host') = Some n"
    using spells_number_digits[OF assms(3,4)] assms(5) by (auto simp: n_def)
  ultimately show ?thesis using n by blast
qed

lemma caller_number_canonical_witness:
  "\<exists>n. extract_phone_number (lit ''<sip:+17204919941@h>'') = Some n \<and>
     extract_phone_number (lit ''sip:(720)491-9941@host'') = Some n \<and>
     (phone_digits (lit ''(720)491-9941'') = n \<or>
      length n = 10 \<and> phone_digits (lit ''(720)491-9941'') = 49 # n)"
proof -
  let ?u = "lit ''(720)491-9941''" and ?v = "lit ''+17204919941''"
  have "spells_number ?u" "spells_number ?v"
    "scheme_after [] (sip_address [] ?u (lit ''host''))" "scheme_after (lit ''<'') (sip_address (lit ''<'') ?v (lit ''h>''))"
    "length (phone_digits ?u) = 10 \<and> phone_digits ?v = 49 # phone_digits ?u"
    by (simp_all add: lit_def spells_number_def phone_digits_def is_ascii_digit_def scheme_after_def sip_address_def)
  from caller_number_canonical[OF this(1,3,2,4) disjI2[OF this(5)]] show ?thesis
    by (auto simp: sip_address_def lit_def)
qed

text \<open>A user part without a digit names no caller, although the comment on the function says it would.\<close>

lemma named_user_has_no_number: "extract_phone_number (lit ''sip:user@host'') = None"
  by (simp add: extract_phone_number_def lit_def is_ascii_digit_def Let_def)

end
