(* ===== verification/Callers.thy ===== *)
theory Callers
  imports RustStr "HOL-Library.AList"
begin

text \<open>
  \<^verbatim>\<open>src/db.rs\<close>: the caller store.  \<open>caller_db\<close> is the database the two migrations
  create: the table \<^verbatim>\<open>callers\<close> keyed by phone number and the table \<^verbatim>\<open>caller_channels\<close>
  keyed by phone number and server host, each an association list of its rows.  Each SQL statement of the source is one table
  operation; a statement can fail (\<open>db_fault\<close> names the one that does), and the foreign key
  of \<^verbatim>\<open>caller_channels\<close> is enforced when the connection asks for it (\<open>fk\<close>).

  The \<open>i64\<close> columns hold 64 bits, which \<^verbatim>\<open>as i64\<close> and \<^verbatim>\<open>as u64\<close> reinterpret without
  change, so a \<open>u64\<close> time stamp is stored as it is; a channel id is widened on the way in and
  truncated on the way out.  The name generator is the \<^verbatim>\<open>names\<close> crate: \<open>gen k\<close> is what the
  \<open>k\<close>-th fresh generator returns.

  The locale \<open>caller_store\<close> states the contract of the trait \<^verbatim>\<open>CallerStore\<close>, which is what
  the session code relies on; the SQLite model is its interpretation \<open>sqlite\<close>.
\<close>

subsection \<open>Data\<close>

record caller_info =
  ci_phone_number :: rstr
  ci_nickname :: rstr
  ci_last_seen :: u64
  ci_is_new :: bool

record caller_row =
  row_nickname :: rstr
  row_last_seen :: i64

record caller_db =
  tbl_callers :: "(rstr \<times> caller_row) list"
  tbl_channels :: "((rstr \<times> rstr) \<times> i64) list"

definition empty_db :: caller_db where
  "empty_db = \<lparr>tbl_callers = [], tbl_channels = []\<rparr>"

text \<open>Which statement of an operation fails, if any; \<open>FailNickname k\<close> is the \<open>k\<close>-th query
  of the nickname loop.\<close>

datatype db_fault = NoFault | FailSelect | FailUpdate | FailNickname nat | FailInsert

datatype db_error = QueryFailed | ForeignKeyViolation

subsection \<open>Nicknames\<close>

definition generate_nickname :: "rstr option \<Rightarrow> rstr" where
  "generate_nickname g =
     replace_char 45 (lit ''_'') (case g of None \<Rightarrow> lit ''anonymous'' | Some s \<Rightarrow> s)"

text \<open>\<^verbatim>\<open>SELECT 1 FROM callers WHERE nickname = ?\<close>\<close>

definition nickname_taken :: "caller_db \<Rightarrow> rstr \<Rightarrow> bool" where
  "nickname_taken db n \<longleftrightarrow> list_ex (\<lambda>(p, row). row_nickname row = n) (tbl_callers db)"

text \<open>The loop of \<^verbatim>\<open>get_or_create_caller\<close>: it ends when a candidate is free or a query
  fails, and not otherwise.\<close>

partial_function (option) pick_nickname ::
  "db_fault \<Rightarrow> (rstr \<Rightarrow> bool) \<Rightarrow> (nat \<Rightarrow> rstr option) \<Rightarrow> nat \<Rightarrow> (db_error + rstr) option" where
  "pick_nickname fault taken gen k =
     (if fault = FailNickname k then Some (Inl QueryFailed)
      else if \<not> taken (generate_nickname (gen k)) then Some (Inr (generate_nickname (gen k)))
      else pick_nickname fault taken gen (Suc k))"

subsection \<open>Operations\<close>

text \<open>\<^verbatim>\<open>UPDATE callers SET last_seen = ? WHERE phone_number = ?\<close>\<close>

definition update_last_seen :: "u64 \<Rightarrow> rstr \<Rightarrow> caller_db \<Rightarrow> caller_db" where
  "update_last_seen now phone db =
     (case map_of (tbl_callers db) phone of
        None \<Rightarrow> db
      | Some row \<Rightarrow>
          db\<lparr>tbl_callers := AList.update phone (row\<lparr>row_last_seen := now\<rparr>) (tbl_callers db)\<rparr>)"

text \<open>\<^verbatim>\<open>INSERT INTO callers ... ON CONFLICT(phone_number) DO UPDATE SET last_seen\<close>\<close>

definition insert_caller :: "rstr \<Rightarrow> rstr \<Rightarrow> u64 \<Rightarrow> caller_db \<Rightarrow> caller_db" where
  "insert_caller phone nick now db =
     (case map_of (tbl_callers db) phone of
        Some row \<Rightarrow>
          db\<lparr>tbl_callers := AList.update phone (row\<lparr>row_last_seen := now\<rparr>) (tbl_callers db)\<rparr>
      | None \<Rightarrow>
          db\<lparr>tbl_callers := AList.update phone
               \<lparr>row_nickname = nick, row_last_seen = now\<rparr> (tbl_callers db)\<rparr>)"

text \<open>The result is \<open>None\<close> when the nickname loop does not end.\<close>

definition get_or_create_caller ::
  "db_fault \<Rightarrow> u64 \<Rightarrow> (nat \<Rightarrow> rstr option) \<Rightarrow> rstr \<Rightarrow> caller_db
     \<Rightarrow> ((db_error + caller_info) \<times> caller_db) option" where
  "get_or_create_caller fault now gen phone db =
     (if fault = FailSelect then Some (Inl QueryFailed, db)
      else case map_of (tbl_callers db) phone of
        Some row \<Rightarrow>
          if fault = FailUpdate then Some (Inl QueryFailed, db)
          else Some (Inr \<lparr>ci_phone_number = phone, ci_nickname = row_nickname row,
                          ci_last_seen = row_last_seen row, ci_is_new = False\<rparr>,
                     update_last_seen now phone db)
      | None \<Rightarrow>
          (case pick_nickname fault (nickname_taken db) gen 0 of
             None \<Rightarrow> None
           | Some (Inl e) \<Rightarrow> Some (Inl e, db)
           | Some (Inr nick) \<Rightarrow>
               if fault = FailInsert then Some (Inl QueryFailed, db)
               else Some (Inr \<lparr>ci_phone_number = phone, ci_nickname = nick,
                               ci_last_seen = now, ci_is_new = True\<rparr>,
                          insert_caller phone nick now db)))"

definition set_nickname ::
  "db_fault \<Rightarrow> rstr \<Rightarrow> rstr \<Rightarrow> caller_db \<Rightarrow> (db_error + unit) \<times> caller_db" where
  "set_nickname fault phone nick db =
     (if fault = FailUpdate then (Inl QueryFailed, db)
      else (Inr (),
        case map_of (tbl_callers db) phone of
          None \<Rightarrow> db
        | Some row \<Rightarrow>
            db\<lparr>tbl_callers := AList.update phone (row\<lparr>row_nickname := nick\<rparr>) (tbl_callers db)\<rparr>))"

definition set_last_channel_id ::
  "bool \<Rightarrow> db_fault \<Rightarrow> rstr \<Rightarrow> rstr \<Rightarrow> u32 \<Rightarrow> caller_db \<Rightarrow> (db_error + unit) \<times> caller_db" where
  "set_last_channel_id fk fault phone host channel_id db =
     (if fault = FailInsert then (Inl QueryFailed, db)
      else if fk \<and> map_of (tbl_callers db) phone = None then (Inl ForeignKeyViolation, db)
      else (Inr (),
        db\<lparr>tbl_channels := AList.update (phone, host) (ucast channel_id) (tbl_channels db)\<rparr>))"

definition get_last_channel_id ::
  "db_fault \<Rightarrow> rstr \<Rightarrow> rstr \<Rightarrow> caller_db \<Rightarrow> db_error + u32 option" where
  "get_last_channel_id fault phone host db =
     (if fault = FailSelect then Inl QueryFailed
      else Inr (map_option ucast (map_of (tbl_channels db) (phone, host))))"

subsection \<open>Observations and the database invariant\<close>

definition nick_of :: "caller_db \<Rightarrow> rstr \<rightharpoonup> rstr" where
  "nick_of db = (\<lambda>p. map_option row_nickname (map_of (tbl_callers db) p))"

definition last_of :: "caller_db \<Rightarrow> rstr \<times> rstr \<rightharpoonup> u32" where
  "last_of db = (\<lambda>k. map_option ucast (map_of (tbl_channels db) k))"

text \<open>Primary keys are unique and every channel row refers to a caller.\<close>

definition db_inv :: "caller_db \<Rightarrow> bool" where
  "db_inv db \<longleftrightarrow>
     distinct (map fst (tbl_callers db)) \<and> distinct (map fst (tbl_channels db)) \<and>
     fst ` fst ` set (tbl_channels db) \<subseteq> fst ` set (tbl_callers db)"

text \<open>No two callers share a nickname, and no generated nickname holds a hyphen.\<close>

definition nicknames :: "caller_db \<Rightarrow> rstr list" where
  "nicknames db = map (row_nickname \<circ> snd) (tbl_callers db)"

lemma nickname_taken_iff: "nickname_taken db n \<longleftrightarrow> n \<in> set (nicknames db)"
  by (force simp: nickname_taken_def nicknames_def list_ex_iff)

lemma update_new_row: "map_of xs k = None \<Longrightarrow> AList.update k v xs = xs @ [(k, v)]"
  by (induction xs) (auto split: if_splits)


lemma update_keys: "fst ` set (AList.update k v xs) = insert k (fst ` set xs)"
  by (simp add: dom_update)

lemma nick_of_insert:
  "tbl_callers db' = AList.update p row (tbl_callers db) \<Longrightarrow>
     nick_of db' = (nick_of db)(p \<mapsto> row_nickname row)"
  by (simp add: nick_of_def update_conv' fun_eq_iff)

lemma generate_nickname_no_hyphen: "45 \<notin> set (generate_nickname g)"
  by (auto simp: generate_nickname_def lit_def dest!: subsetD[OF set_replace_char]
      split: option.splits)

lemma pick_nickname_Some:
  assumes "pick_nickname fault taken gen k = Some r"
  shows "(\<exists>j. fault = FailNickname j) \<and> r = Inl QueryFailed \<or>
         (\<exists>j \<ge> k. r = Inr (generate_nickname (gen j)) \<and> \<not> taken (generate_nickname (gen j)))"
proof (rule pick_nickname.raw_induct
    [where P = "\<lambda>fault taken gen k r. (\<exists>j. fault = FailNickname j) \<and> r = Inl QueryFailed \<or>
         (\<exists>j \<ge> k. r = Inr (generate_nickname (gen j)) \<and> \<not> taken (generate_nickname (gen j)))",
     OF _ assms])
  fix f fault taken gen k r
  assume IH: "\<And>fault taken gen k r. f fault taken gen k = Some r \<Longrightarrow>
      (\<exists>j. fault = FailNickname j) \<and> r = Inl QueryFailed \<or>
      (\<exists>j \<ge> k. r = Inr (generate_nickname (gen j)) \<and> \<not> taken (generate_nickname (gen j)))"
    and eq: "(if fault = FailNickname k then Some (Inl QueryFailed)
       else if \<not> taken (generate_nickname (gen k)) then Some (Inr (generate_nickname (gen k)))
       else f fault taken gen (Suc k)) = Some r"
  from eq show "(\<exists>j. fault = FailNickname j) \<and> r = Inl QueryFailed \<or>
      (\<exists>j \<ge> k. r = Inr (generate_nickname (gen j)) \<and> \<not> taken (generate_nickname (gen j)))"
    by (auto split: if_splits dest!: IH)
qed

text \<open>The loop ends as soon as the generator yields a free name.\<close>

lemma pick_nickname_terminates:
  assumes "\<not> taken (generate_nickname (gen (k + d)))"
  shows "\<exists>r. pick_nickname fault taken gen k = Some r"
  using assms
proof (induction d arbitrary: k)
  case 0
  then show ?case by (subst pick_nickname.simps) simp
next
  case (Suc d)
  then have "\<exists>r. pick_nickname fault taken gen (Suc k) = Some r"
    using Suc.IH[of "Suc k"] by simp
  then show ?case by (subst pick_nickname.simps) auto
qed

lemma pick_nickname_free:
  "pick_nickname fault taken gen k = Some (Inr n) \<Longrightarrow> \<not> taken n \<and> 45 \<notin> set n"
  using pick_nickname_Some generate_nickname_no_hyphen by fastforce

subsection \<open>What each operation does\<close>

lemma goc_known:
  assumes "map_of (tbl_callers db) p = Some row"
    and "get_or_create_caller fault now gen p db = Some (Inr i, db')"
  shows "i = \<lparr>ci_phone_number = p, ci_nickname = row_nickname row,
              ci_last_seen = row_last_seen row, ci_is_new = False\<rparr>"
    and "tbl_callers db' = AList.update p (row\<lparr>row_last_seen := now\<rparr>) (tbl_callers db)"
    and "tbl_channels db' = tbl_channels db"
  using assms by (auto simp: get_or_create_caller_def update_last_seen_def split: if_splits)

lemma goc_new:
  assumes "map_of (tbl_callers db) p = None"
    and "get_or_create_caller fault now gen p db = Some (Inr i, db')"
  shows "ci_is_new i" and "ci_phone_number i = p" and "ci_last_seen i = now"
    and "ci_nickname i \<notin> set (nicknames db)" and "45 \<notin> set (ci_nickname i)"
    and "tbl_callers db' = tbl_callers db @
           [(p, \<lparr>row_nickname = ci_nickname i, row_last_seen = now\<rparr>)]"
    and "tbl_channels db' = tbl_channels db"
  using assms
  by (auto simp: get_or_create_caller_def insert_caller_def update_new_row
      nickname_taken_iff[symmetric] dest: pick_nickname_free
      split: if_splits option.splits sum.splits)

lemma goc_error:
  "get_or_create_caller fault now gen p db = Some (Inl e, db') \<Longrightarrow> db' = db \<and> fault \<noteq> NoFault"
  by (auto simp: get_or_create_caller_def dest!: pick_nickname_Some
      split: if_splits option.splits sum.splits)

lemma goc_cases:
  assumes "get_or_create_caller fault now gen p db = Some (r, db')"
  obtains (error) e where "r = Inl e" "db' = db"
  | (known) i row where "r = Inr i" "map_of (tbl_callers db) p = Some row"
      "get_or_create_caller fault now gen p db = Some (Inr i, db')"
  | (created) i where "r = Inr i" "map_of (tbl_callers db) p = None"
      "get_or_create_caller fault now gen p db = Some (Inr i, db')"
  using assms goc_error by (cases r; cases "map_of (tbl_callers db) p") auto

lemma goc_nick:
  assumes "get_or_create_caller fault now gen p db = Some (Inr i, db')"
  shows "nick_of db' = (nick_of db)(p \<mapsto> ci_nickname i)"
proof (cases "map_of (tbl_callers db) p")
  case None
  note new = goc_new[OF None assms]
  show ?thesis
    by (rule nick_of_insert[where row = "\<lparr>row_nickname = ci_nickname i, row_last_seen = now\<rparr>",
          simplified]) (simp add: new update_new_row None)
next
  case (Some row)
  from goc_known[OF Some assms] show ?thesis
    using nick_of_insert[of db' p "row\<lparr>row_last_seen := now\<rparr>" db] by simp
qed

lemma goc_inv:
  assumes "db_inv db" and "get_or_create_caller fault now gen p db = Some (r, db')"
  shows "db_inv db'"
  using assms(2)
proof (cases rule: goc_cases)
  case error
  with assms show ?thesis by simp
next
  case (known i row)
  from goc_known[OF known(2,3)] assms(1) show ?thesis
    by (auto simp: db_inv_def distinct_update update_keys)
next
  case (created i)
  from goc_new[OF created(2,3)] assms(1) created(2) show ?thesis
    by (simp add: db_inv_def map_of_eq_None_iff) blast
qed


lemma set_last_cases:
  "set_last_channel_id fk fault p h c db = (r, db') \<Longrightarrow>
     (\<exists>e. r = Inl e) \<and> db' = db \<or>
     r = Inr () \<and> (fk \<longrightarrow> map_of (tbl_callers db) p \<noteq> None) \<and>
       db' = db\<lparr>tbl_channels := AList.update (p, h) (ucast c) (tbl_channels db)\<rparr>"
  by (auto simp: set_last_channel_id_def split: if_splits)

lemma set_last_last_of:
  "set_last_channel_id fk fault p h c db = (Inr (), db') \<Longrightarrow> last_of db' = (last_of db)((p, h) \<mapsto> c)"
  by (auto dest!: set_last_cases simp: last_of_def update_conv' fun_eq_iff ucast_u32_u64_u32)

lemma set_last_inv:
  assumes "db_inv db" and "set_last_channel_id True fault p h c db = (r, db')"
  shows "db_inv db'"
proof (cases "db' = db")
  case True
  with assms show ?thesis by simp
next
  case False
  with set_last_cases[OF assms(2)]
  have "p \<in> fst ` set (tbl_callers db)"
    and "db' = db\<lparr>tbl_channels := AList.update (p, h) (ucast c) (tbl_channels db)\<rparr>"
    by (auto simp: map_of_eq_None_iff)
  with assms(1) show ?thesis
    by (simp add: db_inv_def distinct_update update_keys)
qed

subsection \<open>The contract of a caller store\<close>

text \<open>
  Calls the session code makes on a store, and their run.  A lookup that does not end stops
  the run.
\<close>

datatype ('e, 'f) store_call = CallGetOrCreate 'e rstr | CallSetLast 'f rstr rstr u32

fun run_store ::
  "('e \<Rightarrow> rstr \<Rightarrow> 's \<Rightarrow> ('r \<times> 's) option) \<Rightarrow> ('f \<Rightarrow> rstr \<Rightarrow> rstr \<Rightarrow> u32 \<Rightarrow> 's \<Rightarrow> 'q \<times> 's) \<Rightarrow>
     ('e, 'f) store_call list \<Rightarrow> 's \<Rightarrow> 's option" where
  "run_store goc setl [] s = Some s"
| "run_store goc setl (CallGetOrCreate e p # cs) s =
     (case goc e p s of None \<Rightarrow> None | Some (_, s') \<Rightarrow> run_store goc setl cs s')"
| "run_store goc setl (CallSetLast f p h c # cs) s = run_store goc setl cs (snd (setl f p h c s))"

text \<open>A call that stores a channel for caller \<open>p\<close> on server \<open>h\<close>.\<close>

fun touches :: "rstr \<Rightarrow> rstr \<Rightarrow> ('e, 'f) store_call \<Rightarrow> bool" where
  "touches p h (CallGetOrCreate e q) = False"
| "touches p h (CallSetLast f q k c) = (q = p \<and> k = h)"

locale caller_store =
  fixes goc :: "'e \<Rightarrow> rstr \<Rightarrow> 's \<Rightarrow> (('x + caller_info) \<times> 's) option"
    and set_last :: "'f \<Rightarrow> rstr \<Rightarrow> rstr \<Rightarrow> u32 \<Rightarrow> 's \<Rightarrow> ('x + unit) \<times> 's"
    and get_last :: "'g \<Rightarrow> rstr \<Rightarrow> rstr \<Rightarrow> 's \<Rightarrow> 'x + u32 option"
    and nick :: "'s \<Rightarrow> rstr \<rightharpoonup> rstr"
    and last :: "'s \<Rightarrow> rstr \<times> rstr \<rightharpoonup> u32"
    and inv :: "'s \<Rightarrow> bool"
  assumes goc_ok: "goc e p s = Some (Inr i, s') \<Longrightarrow> nick s' = (nick s)(p \<mapsto> ci_nickname i)"
    and goc_same: "nick s p = Some n \<Longrightarrow> goc e p s = Some (Inr i, s') \<Longrightarrow>
      ci_nickname i = n \<and> \<not> ci_is_new i"
    and goc_fail: "goc e p s = Some (Inl x, s') \<Longrightarrow> s' = s"
    and goc_last: "goc e p s = Some (r, s') \<Longrightarrow> last s' = last s"
    and goc_keeps: "inv s \<Longrightarrow> goc e p s = Some (r, s') \<Longrightarrow> inv s'"
    and set_last_ok: "set_last f p h c s = (Inr u, s') \<Longrightarrow> last s' = (last s)((p, h) \<mapsto> c)"
    and set_last_fail: "set_last f p h c s = (Inl x, s') \<Longrightarrow> s' = s"
    and set_last_nick: "nick (snd (set_last f p h c s)) = nick s"
    and set_last_keeps: "inv s \<Longrightarrow> inv (snd (set_last f p h c s))"
    and get_last_ok: "get_last g p h s = Inr ch \<Longrightarrow> ch = last s (p, h)"
begin

text \<open>A caller that has a nickname keeps it, whatever calls follow, for whichever callers,
  and whichever of them fail.\<close>

lemma goc_keeps_nick: "nick s p = Some n \<Longrightarrow> goc e q s = Some (r, s') \<Longrightarrow> nick s' p = Some n"
  using goc_ok goc_same goc_fail by (cases r) (fastforce split: if_splits)+

lemma run_nick:
  "nick s p = Some n \<Longrightarrow> run_store goc set_last cs s = Some s' \<Longrightarrow> nick s' p = Some n"
proof (induction cs arbitrary: s)
  case Nil
  then show ?case by simp
next
  case (Cons c cs)
  show ?case
  proof (cases c)
    case (CallGetOrCreate e q)
    with Cons show ?thesis by (auto split: option.splits dest: goc_keeps_nick)
  next
    case (CallSetLast f q h ch)
    with Cons.IH[of "snd (set_last f q h ch s)"] Cons.prems show ?thesis
      by (simp add: set_last_nick)
  qed
qed

lemma run_inv: "inv s \<Longrightarrow> run_store goc set_last cs s = Some s' \<Longrightarrow> inv s'"
proof (induction cs arbitrary: s)
  case Nil
  then show ?case by simp
next
  case (Cons c cs)
  then show ?case
    by (cases c) (auto split: option.splits dest: goc_keeps set_last_keeps)
qed

lemma same_nickname_after:
  assumes "goc e p s = Some (Inr i, s1)"
    and "run_store goc set_last cs s1 = Some s2" and "goc e' p s2 = Some (Inr i', s3)"
  shows "ci_nickname i' = ci_nickname i \<and> \<not> ci_is_new i'"
proof -
  have "nick s1 p = Some (ci_nickname i)" using goc_ok[OF assms(1)] by simp
  then have "nick s2 p = Some (ci_nickname i)" using run_nick assms(2) by blast
  then show ?thesis using goc_same assms(3) by blast
qed

text \<open>The channel read back is the one last stored for that caller on that server.\<close>

lemma set_last_other:
  assumes "(q, k) \<noteq> (p, h)"
  shows "last (snd (set_last f q k c s)) (p, h) = last s (p, h)"
proof (cases "set_last f q k c s")
  case (Pair r s')
  with assms show ?thesis
    using set_last_ok[of f q k c s] set_last_fail[of f q k c s] by (cases r) auto
qed

lemma run_last:
  "\<forall>c \<in> set cs. \<not> touches p h c \<Longrightarrow> run_store goc set_last cs s = Some s' \<Longrightarrow>
     last s' (p, h) = last s (p, h)"
proof (induction cs arbitrary: s)
  case Nil
  then show ?case by simp
next
  case (Cons c cs)
  then show ?case
    by (cases c) (auto split: option.splits dest: goc_last simp: set_last_other)
qed

lemma last_channel_read_back:
  assumes "set_last f p h c s = (Inr u, s1)" and "\<forall>c \<in> set cs. \<not> touches p h c"
    and "run_store goc set_last cs s1 = Some s2" and "get_last g p h s2 = Inr ch"
  shows "ch = Some c"
  using set_last_ok[OF assms(1)] run_last[OF assms(2,3)] get_last_ok[OF assms(4)] by simp

end

text \<open>The SQLite model meets the contract; the environment of a lookup is the failing
  statement, the clock and the name generator.\<close>

definition sqlite_goc ::
  "db_fault \<times> u64 \<times> (nat \<Rightarrow> rstr option) \<Rightarrow> rstr \<Rightarrow> caller_db
     \<Rightarrow> ((db_error + caller_info) \<times> caller_db) option" where
  "sqlite_goc e p db = (case e of (fault, now, gen) \<Rightarrow> get_or_create_caller fault now gen p db)"

lemma nick_of_known: "nick_of db p = Some n \<longleftrightarrow>
    (\<exists>row. map_of (tbl_callers db) p = Some row \<and> row_nickname row = n)"
  by (simp add: nick_of_def)

lemma goc_channels:
  "get_or_create_caller fault now gen p db = Some (r, db') \<Longrightarrow> tbl_channels db' = tbl_channels db"
  by (cases rule: goc_cases, assumption) (auto dest: goc_known(3) goc_new(7))

interpretation sqlite: caller_store sqlite_goc "set_last_channel_id True" get_last_channel_id
  nick_of last_of db_inv
proof (unfold_locales, goal_cases)
  case (1 e p s i s')
  then show ?case by (auto simp: sqlite_goc_def dest: goc_nick split: prod.splits)
next
  case (2 s p n e i s')
  then show ?case
    by (auto simp: sqlite_goc_def nick_of_known dest: goc_known(1) split: prod.splits)
next
  case (3 e p s x s')
  then show ?case by (auto simp: sqlite_goc_def dest: goc_error split: prod.splits)
next
  case (4 e p s r s')
  then show ?case by (auto simp: sqlite_goc_def last_of_def dest: goc_channels split: prod.splits)
next
  case (5 s e p r s')
  then show ?case by (auto simp: sqlite_goc_def dest: goc_inv split: prod.splits)
next
  case (6 f p h c s u s')
  then show ?case by (simp add: set_last_last_of)
next
  case (7 f p h c s x s')
  then show ?case by (auto dest: set_last_cases)
next
  case (8 f p h c s)
  show ?case by (simp add: set_last_channel_id_def nick_of_def)
next
  case (9 s f p h c)
  then show ?case by (metis prod.collapse set_last_inv)
next
  case (10 g p h s r)
  then show ?case by (auto simp: get_last_channel_id_def last_of_def split: if_splits)
qed


subsection \<open>Properties\<close>

text \<open>A caller who has been given a nickname gets the same nickname on every later call, and
  is not treated as new, whatever lookups and channel writes for any callers happen in between
  and whichever of their SQL statements fail.\<close>

theorem caller_keeps_nickname:
  assumes "get_or_create_caller fault now gen p db = Some (Inr i, db1)"
    and "run_store sqlite_goc (set_last_channel_id True) calls db1 = Some db2"
    and "get_or_create_caller fault' now' gen' p db2 = Some (Inr i', db3)"
  shows "ci_nickname i' = ci_nickname i \<and> \<not> ci_is_new i'"
  using sqlite.same_nickname_after[of "(fault, now, gen)" p db i db1 calls db2
      "(fault', now', gen')" i' db3] assms
  by (simp add: sqlite_goc_def)

lemma caller_keeps_nickname_witness:
  "\<exists>i db1 i' db3.
     get_or_create_caller NoFault 100 (\<lambda>k. Some (lit ''a-b'')) (lit ''5'') empty_db
       = Some (Inr i, db1) \<and>
     get_or_create_caller NoFault 900 (\<lambda>k. Some (lit ''x-y'')) (lit ''5'') db1
       = Some (Inr i', db3) \<and>
     ci_nickname i = lit ''a_b'' \<and> ci_nickname i' = ci_nickname i \<and> \<not> ci_is_new i'"
proof -
  let ?i = "\<lparr>ci_phone_number = lit ''5'', ci_nickname = lit ''a_b'', ci_last_seen = 100,
              ci_is_new = True\<rparr>"
  let ?j = "?i\<lparr>ci_is_new := False\<rparr>"
  let ?db = "\<lambda>t. \<lparr>tbl_callers = [(lit ''5'', \<lparr>row_nickname = lit ''a_b'', row_last_seen = t\<rparr>)],
                   tbl_channels = []\<rparr>"
  have 1: "get_or_create_caller NoFault 100 (\<lambda>k. Some (lit ''a-b'')) (lit ''5'') empty_db
      = Some (Inr ?i, ?db 100)"
    by (simp add: get_or_create_caller_def empty_db_def pick_nickname.simps nickname_taken_def
        generate_nickname_def replace_char_def lit_def insert_caller_def)
  have 2: "get_or_create_caller NoFault 900 (\<lambda>k. Some (lit ''x-y'')) (lit ''5'') (?db 100)
      = Some (Inr ?j, ?db 900)"
    by (simp add: get_or_create_caller_def update_last_seen_def)
  have "ci_nickname ?j = ci_nickname ?i \<and> \<not> ci_is_new ?j"
    by (rule caller_keeps_nickname[OF 1 _ 2, of "[]"]) simp
  with 1 2 show ?thesis by fastforce
qed

text \<open>The channel stored for a caller on a server is read back exactly (through the
  \<open>u32\<close> to \<open>i64\<close> and back conversions) after any further store traffic that does not store
  a channel for the same caller on the same server; other servers do not interfere.\<close>

theorem last_channel_round_trip:
  assumes "set_last_channel_id True fault p h c db = (Inr (), db1)"
    and "\<forall>call \<in> set calls. \<not> touches p h call"
    and "run_store sqlite_goc (set_last_channel_id True) calls db1 = Some db2"
    and "get_last_channel_id fault' p h db2 = Inr r"
  shows "r = Some c"
  using assms by (rule sqlite.last_channel_read_back)

lemma last_channel_round_trip_witness:
  "\<exists>db1. set_last_channel_id True NoFault (lit ''5'') (lit ''a'') 42
       \<lparr>tbl_callers = [(lit ''5'', \<lparr>row_nickname = lit ''n'', row_last_seen = 1\<rparr>)],
        tbl_channels = []\<rparr> = (Inr (), db1) \<and>
     get_last_channel_id NoFault (lit ''5'') (lit ''a'') db1 = Inr (Some 42)"
proof -
  let ?db = "\<lambda>cs. \<lparr>tbl_callers = [(lit ''5'', \<lparr>row_nickname = lit ''n'', row_last_seen = 1\<rparr>)],
                    tbl_channels = cs\<rparr>"
  let ?db1 = "?db [((lit ''5'', lit ''a''), 42)]"
  let ?db2 = "?db [((lit ''5'', lit ''a''), 42), ((lit ''5'', lit ''b''), 7)]"
  have 1: "set_last_channel_id True NoFault (lit ''5'') (lit ''a'') 42 (?db []) = (Inr (), ?db1)"
    by (simp add: set_last_channel_id_def)
  have 2: "run_store sqlite_goc (set_last_channel_id True)
      [CallSetLast NoFault (lit ''5'') (lit ''b'') 7] ?db1 = Some ?db2"
    by (simp add: set_last_channel_id_def lit_def)
  have 3: "get_last_channel_id NoFault (lit ''5'') (lit ''a'') ?db2 = Inr (Some 42)"
    by (simp add: get_last_channel_id_def)
  have 4: "get_last_channel_id NoFault (lit ''5'') (lit ''a'') ?db1 = Inr (Some 42)"
    by (simp add: get_last_channel_id_def)
  have "Some 42 = Some (42 :: u32)"
    by (rule last_channel_round_trip[OF 1 _ 2 3]) (simp add: lit_def)
  with 1 4 show ?thesis by blast
qed



text \<open>C11. A lookup without a database failure fails to return exactly when the caller is
  unknown and the generator never yields a nickname that is still free.\<close>

theorem get_or_create_caller_diverges_iff:
  "get_or_create_caller NoFault now gen p db = None \<longleftrightarrow>
     map_of (tbl_callers db) p = None \<and> (\<forall>k. generate_nickname (gen k) \<in> set (nicknames db))"
proof -
  have "pick_nickname NoFault (nickname_taken db) gen 0 = None \<longleftrightarrow>
      (\<forall>k. nickname_taken db (generate_nickname (gen k)))"
    using pick_nickname_terminates[of "nickname_taken db" gen 0 _ NoFault]
      pick_nickname_Some[of NoFault "nickname_taken db" gen 0]
    by (cases "pick_nickname NoFault (nickname_taken db) gen 0") fastforce+
  then show ?thesis
    by (auto simp: get_or_create_caller_def nickname_taken_iff split: option.splits sum.splits)
qed

end
