(* ===== verification/Session.thy ===== *)
theory Session
  imports Callbacks Callers Config
begin

text \<open>
  \<^verbatim>\<open>SessionManager\<close> of \<^verbatim>\<open>src/session.rs\<close> and the event loop of \<^verbatim>\<open>src/main.rs\<close> that drives it.

  \<^verbatim>\<open>on_incoming_call\<close> is an asynchronous task, one per call, running beside the main loop,
  pjsip's callback threads and the deferred-cleanup threads.  \<open>setup_pc\<close> lists its control
  points: each step is the code from one lock region or await to the next, and an event of
  \<open>event\<close> schedules one step of one of the participants, so a sequence of events is an
  interleaving.  A cancellation token is named by the setup task that created it.
\<close>

subsection \<open>Who is calling\<close>

text \<open>The identity part of \<^verbatim>\<open>on_incoming_call\<close>: the Mumble user name, the channel to rejoin and
  whether the intro is played.  \<open>lookup\<close> and \<open>last_channel\<close> are what the caller store answers,
  \<open>generated\<close> is a nickname from \<^verbatim>\<open>generate_nickname\<close>.\<close>

definition caller_identity ::
  "config \<Rightarrow> rstr option \<Rightarrow> (db_error + caller_info) \<Rightarrow> (db_error + u32 option) \<Rightarrow> u64 \<Rightarrow> rstr
     \<Rightarrow> rstr \<times> u32 option \<times> bool" where
  "caller_identity cfg caller_number lookup last_channel now generated =
     (case caller_number of
        None \<Rightarrow> (generated, None, False)
      | Some _ \<Rightarrow>
          (case lookup of
             Inl _ \<Rightarrow> (generated, None, False)
           | Inr info \<Rightarrow>
               (ci_nickname info,
                (case last_channel of Inl _ \<Rightarrow> None | Inr ch \<Rightarrow> ch),
                ci_is_new info \<or>
                  aud_intro_replay_after_days (cfg_audio cfg) * 86400
                    \<le> saturating_sub now (ci_last_seen info))))"

subsection \<open>Audio parameters\<close>

definition FRAME_DURATION_MS :: u32 where "FRAME_DURATION_MS = 10"

text \<open>Samples per frame, jitter frames, capacity of the frame queues, samples per ring buffer.\<close>

definition samples_per_frame :: "config \<Rightarrow> u32" where
  "samples_per_frame cfg = aud_sample_rate (cfg_audio cfg) * FRAME_DURATION_MS div 1000"

definition jitter_frames :: "config \<Rightarrow> u64" where
  "jitter_frames cfg = ucast (max (aud_jitter_buffer_ms (cfg_audio cfg) div FRAME_DURATION_MS) 2)"

definition queue_capacity :: "config \<Rightarrow> u64" where
  "queue_capacity cfg = jitter_frames cfg * ucast (sip_max_concurrent_calls (cfg_sip cfg))"

definition buffer_samples :: "config \<Rightarrow> u64" where
  "buffer_samples cfg = ucast (aud_sample_rate (cfg_audio cfg)) div 5"

subsection \<open>Rejoining the last channel\<close>

text \<open>The channel a new session is in: \<open>join_ok\<close> says whether \<^verbatim>\<open>join_channel\<close> could be sent.\<close>

definition rejoin_channel :: "u32 option \<Rightarrow> u32 \<Rightarrow> u32 \<Rightarrow> bool \<Rightarrow> u32" where
  "rejoin_channel last_channel initial max_id join_ok =
     (case last_channel of
        None \<Rightarrow> initial
      | Some ch \<Rightarrow> if ch \<le> max_id \<and> ch \<noteq> initial \<and> join_ok then ch else initial)"

subsection \<open>Sessions and the manager\<close>

datatype sound_event =
  SelfJoinedChannel | UserJoinedChannel | UserLeftChannel | TextMessage | Intro

datatype task_kind =
  EncoderTask | DecoderTask | VoiceForwardTask | MumbleEventTask | TtsAnnounceTask | TtsTextTask

text \<open>A tokio task, named by the setup that spawned it.\<close>

type_synonym handle = "nat \<times> task_kind"

record call_session =
  cs_port :: port
  cs_handles :: "handle list"
  cs_channel_watch :: u32
  cs_sounds :: "sound_event list"
  cs_current_channel_id :: u32
  cs_max_channel_id :: u32
  cs_caller_number :: "rstr option"
  cs_server_host :: rstr

record pending_write =
  pw_phone :: rstr
  pw_host :: rstr
  pw_channel :: u32
  pw_finished :: bool

text \<open>A connection: the channel the handshake left us in, the highest channel id and whether a
  message to the server can still be sent.\<close>

record connection =
  cn_channel_id :: u32
  cn_max_channel_id :: u32
  cn_join_ok :: bool

datatype abort_reason =
  AnswerFailed | ReadyDropped | CancelledWaiting | CancelledIntro | CancelledConnect | ConnectFailed

text \<open>\<^verbatim>\<open>cleanup_media_port\<close> and the media part of the other teardowns, between lock regions.\<close>

datatype clean_pc =
    ClPending
  | ClActive bool
  | ClDecide bool "active_media option"
  | ClRemove conf_id
  | ClFallback conf_id
  | ClEnd

datatype setup_pc =
    SCheck
  | SLookup
  | SRegisterPort port
  | SRegisterReady port
  | SGeneration port nat
  | SInsert port nat u64
  | SAnswer port nat u64
  | SWaitMedia port nat u64
  | SIntro port u64
  | SConnect port u64
  | SSpawn port u64 connection
  | SRemovePending port u64 call_session
  | SCheckCancel port bool call_session
  | SInsertSession call_session
  | SAbort abort_reason port u64
  | SCleanup abort_reason port clean_pc
  | SAfterAbort abort_reason
  | SLate port clean_pc
  | SDone

record setup_task =
  st_call :: call_id
  st_mumble_server :: "rstr option"
  st_caller_number :: "rstr option"
  st_last_channel :: "u32 option"
  st_play_intro :: bool
  st_sounds :: "sound_event list"
  st_pc :: setup_pc

text \<open>Where the main loop is: between events, or inside \<^verbatim>\<open>on_call_disconnected\<close>.\<close>

datatype main_pc =
    MIdle
  | MCancel call_id
  | MPersist call_id call_session
  | MClean call_id call_session clean_pc

record media_thread =
  mt_call :: call_id
  mt_pc :: callback_pc

record sys = sip_state +
  sessions :: "(call_id, call_session) hashmap"
  pending_setups :: "(call_id, u64 \<times> nat) hashmap"
  next_setup_generation :: u64
  pending_writes :: "pending_write list"
  cancelled :: "nat list"
  setups :: "setup_task list"
  main_loop :: main_pc
  media_threads :: "media_thread list"
  hangups :: "(call_id \<times> nat) list"
  spawned :: "handle list"
  aborted :: "handle list"

definition initial_sys :: sys where
  "initial_sys =
     \<lparr>pending_ports = [], active_media = [], media_ready_tx = [], pending_cleanup = [],
      oneshots = [], conference = [], deferred = [], destroyed = [], released = [],
      next_port = 0, next_pool = 0,
      sessions = [], pending_setups = [], next_setup_generation = 0, pending_writes = [],
      cancelled = [], setups = [], main_loop = MIdle, media_threads = [], hangups = [],
      spawned = [], aborted = []\<rparr>"

subsection \<open>Operations of the manager\<close>

definition admits :: "config \<Rightarrow> sys \<Rightarrow> bool" where
  "admits cfg s \<longleftrightarrow>
     length (sessions s) + length (pending_setups s) < unat (sip_max_concurrent_calls (cfg_sip cfg))"

definition remove_pending_setup :: "call_id \<Rightarrow> u64 \<Rightarrow> sys \<Rightarrow> bool \<times> sys" where
  "remove_pending_setup call gen s =
     (case hm_get (pending_setups s) call of
        Some (g, tok) \<Rightarrow>
          if g = gen then (True, s\<lparr>pending_setups := hm_remove call (pending_setups s)\<rparr>) else (False, s)
      | None \<Rightarrow> (False, s))"

definition cancel_pending_setup :: "call_id \<Rightarrow> sys \<Rightarrow> bool \<times> sys" where
  "cancel_pending_setup call s =
     (case hm_get (pending_setups s) call of
        Some (g, tok) \<Rightarrow> (True, s\<lparr>cancelled := tok # cancelled s\<rparr>)
      | None \<Rightarrow> (False, s))"

definition active_call_count :: "sys \<Rightarrow> nat" where
  "active_call_count s = length (sessions s)"

definition abort_tasks :: "handle list \<Rightarrow> sys \<Rightarrow> sys" where
  "abort_tasks hs s = s\<lparr>aborted := aborted s @ hs\<rparr>"

definition spawn_tasks :: "handle list \<Rightarrow> sys \<Rightarrow> sys" where
  "spawn_tasks hs s = s\<lparr>spawned := spawned s @ hs\<rparr>"

definition hangup :: "call_id \<Rightarrow> nat \<Rightarrow> sys \<Rightarrow> sys" where
  "hangup call code s = s\<lparr>hangups := hangups s @ [(call, code)]\<rparr>"

definition reap_completed_writes :: "sys \<Rightarrow> sys" where
  "reap_completed_writes s = s\<lparr>pending_writes := filter (\<lambda>w. \<not> pw_finished w) (pending_writes s)\<rparr>"

text \<open>\<^verbatim>\<open>drain_pending_writes\<close> takes the handles and waits for them in order.\<close>

definition drain_pending_writes :: "sys \<Rightarrow> pending_write list \<times> sys" where
  "drain_pending_writes s = (pending_writes s, s\<lparr>pending_writes := []\<rparr>)"

definition persist_last_channel :: "call_session \<Rightarrow> sys \<Rightarrow> sys" where
  "persist_last_channel cs s =
     (case cs_caller_number cs of
        None \<Rightarrow> s
      | Some phone \<Rightarrow>
          s\<lparr>pending_writes := pending_writes s @
              [\<lparr>pw_phone = phone, pw_host = cs_server_host cs,
                pw_channel = cs_current_channel_id cs, pw_finished = False\<rparr>]\<rparr>)"

subsection \<open>Releasing a media port\<close>

text \<open>
  One step of releasing \<open>port\<close> for \<open>call\<close>.  \<open>fallback\<close> says what is done when the port is neither
  pending nor active: \<^verbatim>\<open>cleanup_media_port\<close> defers its destruction, the other teardowns skip it.
  \<open>status\<close> is the result of \<^verbatim>\<open>pjsua_conf_remove_port\<close>.
\<close>

definition clean_step ::
  "bool \<Rightarrow> pj_status \<Rightarrow> call_id \<Rightarrow> port \<Rightarrow> clean_pc \<Rightarrow> 'a sip_state_scheme
     \<Rightarrow> clean_pc \<times> 'a sip_state_scheme" where
  "clean_step fallback status call p pc s =
     (case pc of
        ClPending \<Rightarrow>
          (case unregister_pending_port call s of (found, s1) \<Rightarrow> (ClActive (found \<noteq> None), s1))
      | ClActive was_pending \<Rightarrow>
          (case take_active_media call s of (am, s1) \<Rightarrow> (ClDecide was_pending am, s1))
      | ClDecide was_pending am \<Rightarrow>
          if was_pending then (ClEnd, destroy_port p s)
          else
            (case am of
               Some m \<Rightarrow>
                 (ClRemove (am_conf_port_id m),
                  register_pending_cleanup (am_conf_port_id m) p (Some (am_pool m)) s)
             | None \<Rightarrow>
                 (ClEnd, if fallback then spawn_deferred \<lparr>cl_port = p, cl_pool = None\<rparr> s else s))
      | ClRemove conf \<Rightarrow> (if status \<noteq> 0 then ClFallback conf else ClEnd, s)
      | ClFallback conf \<Rightarrow>
          (case take_pending_cleanup conf s of
             (None, s1) \<Rightarrow> (ClEnd, s1)
           | (Some c, s1) \<Rightarrow> (ClEnd, spawn_deferred c s1))
      | ClEnd \<Rightarrow> (ClEnd, s))"

subsection \<open>Setting up a call\<close>

text \<open>What a setup task gets from outside at a step: the store's answers, the status of a pjsua
  call, which branch of a \<^verbatim>\<open>select!\<close> is taken, the outcome of the connection.\<close>

datatype setup_answer =
    Proceed
  | Identified "db_error + caller_info" "db_error + u32 option" u64 rstr
  | Status pj_status
  | MediaReady
  | MediaDropped
  | CancelSeen
  | IntroElapsed
  | Connected connection
  | ConnectError

definition goto :: "setup_pc \<Rightarrow> setup_task \<Rightarrow> setup_task" where
  "goto pc t = t\<lparr>st_pc := pc\<rparr>"

definition session_handles :: "nat \<Rightarrow> handle list" where
  "session_handles i =
     [(i, EncoderTask), (i, DecoderTask), (i, VoiceForwardTask), (i, MumbleEventTask),
      (i, TtsAnnounceTask), (i, TtsTextTask)]"

definition status_of :: "setup_answer \<Rightarrow> pj_status" where
  "status_of ans = (case ans of Status st \<Rightarrow> st | _ \<Rightarrow> 0)"

text \<open>The session a connected setup builds.\<close>

definition new_session ::
  "config \<Rightarrow> nat \<Rightarrow> setup_task \<Rightarrow> port \<Rightarrow> connection \<Rightarrow> call_session" where
  "new_session cfg i t p c =
     (let ch = rejoin_channel (st_last_channel t) (cn_channel_id c) (cn_max_channel_id c) (cn_join_ok c) in
      \<lparr>cs_port = p, cs_handles = session_handles i, cs_channel_watch = ch,
       cs_sounds = st_sounds t @
         (if tts_enabled (cfg_tts cfg) \<and> tts_announce_on_connect (cfg_tts cfg) then []
          else [SelfJoinedChannel]),
       cs_current_channel_id = ch, cs_max_channel_id = cn_max_channel_id c,
       cs_caller_number = st_caller_number t,
       cs_server_host = mc_host (mumble_config_of cfg (st_mumble_server t))\<rparr>)"

text \<open>The end of a setup, once it is connected: the tasks are spawned, the entry is removed, and
  either the session is stored or everything is torn down.\<close>

definition finish_action ::
  "config \<Rightarrow> nat \<Rightarrow> setup_answer \<Rightarrow> setup_task \<Rightarrow> sys \<Rightarrow> setup_task \<times> sys" where
  "finish_action cfg i ans t s =
     (let call = st_call t in
      case st_pc t of
        SSpawn p gen c \<Rightarrow>
          (goto (SRemovePending p gen (new_session cfg i t p c)) t,
           spawn_tasks (filter (\<lambda>h. snd h \<noteq> DecoderTask) (session_handles i)) s)
      | SRemovePending p gen cs \<Rightarrow>
          (case remove_pending_setup call gen s of
             (owns, s1) \<Rightarrow> (goto (SCheckCancel p owns cs) t, s1))
      | SCheckCancel p owns cs \<Rightarrow>
          if i \<in> set (cancelled s) then
            (let s1 = abort_tasks (cs_handles cs) s in
             if owns then (goto (SLate p (ClActive False)) t, s1)
             else (goto SDone t, spawn_deferred \<lparr>cl_port = p, cl_pool = None\<rparr> s1))
          else (goto (SInsertSession cs) t, s)
      | SInsertSession cs \<Rightarrow> (goto SDone t, s\<lparr>sessions := hm_insert call cs (sessions s)\<rparr>)
      | SLate p pc \<Rightarrow>
          (if pc = ClEnd then (goto SDone t, s)
           else case clean_step False (status_of ans) call p pc s of
             (pc', s1) \<Rightarrow> (goto (SLate p pc') t, s1))
      | _ \<Rightarrow> (t, s))"

text \<open>One step of setup \<open>i\<close>, whose task is \<open>t\<close>: the task after it and the rest of the state.\<close>

definition setup_action ::
  "config \<Rightarrow> nat \<Rightarrow> setup_answer \<Rightarrow> setup_task \<Rightarrow> sys \<Rightarrow> setup_task \<times> sys" where
  "setup_action cfg i ans t s =
     (let call = st_call t in
      case st_pc t of
        SCheck \<Rightarrow>
          if admits cfg s then (goto SLookup t, s) else (goto SDone t, hangup call 486 s)
      | SLookup \<Rightarrow>
          (case ans of
             Identified lookup last_channel now generated \<Rightarrow>
               (case caller_identity cfg (st_caller_number t) lookup last_channel now generated of
                  (username, last_ch, intro) \<Rightarrow>
                    (case create_port s of
                       (p, s1) \<Rightarrow>
                         (t\<lparr>st_last_channel := last_ch, st_play_intro := intro, st_pc := SRegisterPort p\<rparr>,
                          spawn_tasks [(i, DecoderTask)] s1)))
           | _ \<Rightarrow> (t, s))
      | SRegisterPort p \<Rightarrow> (goto (SRegisterReady p) t, register_pending_port call p s)
      | SRegisterReady p \<Rightarrow>
          (case register_media_ready call s of (ch, s1) \<Rightarrow> (goto (SGeneration p ch) t, s1))
      | SGeneration p ch \<Rightarrow>
          (goto (SInsert p ch (next_setup_generation s)) t,
           s\<lparr>next_setup_generation := next_setup_generation s + 1\<rparr>)
      | SInsert p ch gen \<Rightarrow>
          (goto (SAnswer p ch gen) t, s\<lparr>pending_setups := hm_insert call (gen, i) (pending_setups s)\<rparr>)
      | SAnswer p ch gen \<Rightarrow>
          (goto (if status_of ans \<noteq> 0 then SAbort AnswerFailed p gen else SWaitMedia p ch gen) t, s)
      | SWaitMedia p ch gen \<Rightarrow>
          (case ans of
             MediaReady \<Rightarrow>
               if oneshots s ! ch \<noteq> Fired then (t, s)
               else if st_play_intro t
               then (t\<lparr>st_sounds := st_sounds t @ [Intro], st_pc := SIntro p gen\<rparr>, s)
               else (goto (SConnect p gen) t, s)
           | MediaDropped \<Rightarrow>
               (if oneshots s ! ch = Dropped then goto (SAbort ReadyDropped p gen) t else t, s)
           | CancelSeen \<Rightarrow>
               (if i \<in> set (cancelled s) then goto (SAbort CancelledWaiting p gen) t else t, s)
           | _ \<Rightarrow> (t, s))
      | SIntro p gen \<Rightarrow>
          (case ans of
             IntroElapsed \<Rightarrow> (goto (SConnect p gen) t, s)
           | CancelSeen \<Rightarrow>
               (if i \<in> set (cancelled s) then goto (SAbort CancelledIntro p gen) t else t, s)
           | _ \<Rightarrow> (t, s))
      | SConnect p gen \<Rightarrow>
          (case ans of
             Connected c \<Rightarrow> (goto (SSpawn p gen c) t, s)
           | ConnectError \<Rightarrow> (goto (SAbort ConnectFailed p gen) t, s)
           | CancelSeen \<Rightarrow>
               (if i \<in> set (cancelled s) then goto (SAbort CancelledConnect p gen) t else t, s)
           | _ \<Rightarrow> (t, s))
      | SAbort reason p gen \<Rightarrow>
          (case remove_pending_setup call gen s of
             (owns, s1) \<Rightarrow>
               (let s2 = abort_tasks [(i, DecoderTask)] s1 in
                if owns then (goto (SCleanup reason p ClPending) t, s2)
                else (goto SDone t, spawn_deferred \<lparr>cl_port = p, cl_pool = None\<rparr> s2)))
      | SCleanup reason p pc \<Rightarrow>
          (if pc = ClEnd then (goto (SAfterAbort reason) t, s)
           else case clean_step True (status_of ans) call p pc s of
             (pc', s1) \<Rightarrow> (goto (SCleanup reason p pc') t, s1))
      | SAfterAbort reason \<Rightarrow>
          (goto SDone t,
            if reason = AnswerFailed \<or> reason = CancelledWaiting then unregister_media_ready call s
            else if reason = ConnectFailed then hangup call 503 s else s)
      | _ \<Rightarrow> finish_action cfg i ans t s)"

definition setup_step :: "config \<Rightarrow> nat \<Rightarrow> setup_answer \<Rightarrow> sys \<Rightarrow> sys" where
  "setup_step cfg i ans s =
     (case setup_action cfg i ans (setups s ! i) s of
        (t, s1) \<Rightarrow> s1\<lparr>setups := (setups s1)[i := t]\<rparr>)"

subsection \<open>The main loop\<close>

text \<open>\<^verbatim>\<open>on_call_disconnected\<close>: its first lock region, and the rest step by step.\<close>

definition on_call_disconnected :: "call_id \<Rightarrow> sys \<Rightarrow> sys" where
  "on_call_disconnected call s =
     (case hm_get (sessions s) call of
        Some cs \<Rightarrow> s\<lparr>sessions := hm_remove call (sessions s), main_loop := MPersist call cs\<rparr>
      | None \<Rightarrow> s\<lparr>main_loop := MCancel call\<rparr>)"

definition main_step :: "pj_status \<Rightarrow> sys \<Rightarrow> sys" where
  "main_step status s =
     (case main_loop s of
        MIdle \<Rightarrow> s
      | MCancel call \<Rightarrow> (snd (cancel_pending_setup call s))\<lparr>main_loop := MIdle\<rparr>
      | MPersist call cs \<Rightarrow>
          (persist_last_channel cs (reap_completed_writes s))\<lparr>main_loop := MClean call cs ClPending\<rparr>
      | MClean call cs pc \<Rightarrow>
          (if pc = ClEnd then s\<lparr>main_loop := MIdle\<rparr>
           else case clean_step False status call (cs_port cs) pc s of
             (pc', s1) \<Rightarrow>
               (case pc of ClActive _ \<Rightarrow> abort_tasks (cs_handles cs) s1 | _ \<Rightarrow> s1)
                 \<lparr>main_loop := MClean call cs pc'\<rparr>))"

text \<open>\<open>join_ok\<close>: whether the join message could be handed to the connection.\<close>

definition navigate :: "uchar \<Rightarrow> bool \<Rightarrow> call_session \<Rightarrow> call_session" where
  "navigate digit join_ok cs =
     (let ch = (if digit = 42 then saturating_sub (cs_current_channel_id cs) 1
                else min (cs_current_channel_id cs + 1) (cs_max_channel_id cs));
          cs1 = cs\<lparr>cs_sounds := cs_sounds cs @ [SelfJoinedChannel]\<rparr>
      in if join_ok then cs1\<lparr>cs_current_channel_id := ch, cs_channel_watch := ch\<rparr> else cs1)"

definition on_dtmf_digit :: "call_id \<Rightarrow> uchar \<Rightarrow> bool \<Rightarrow> sys \<Rightarrow> sys" where
  "on_dtmf_digit call digit join_ok s =
     (case hm_get (sessions s) call of
        None \<Rightarrow> s
      | Some cs \<Rightarrow>
          if digit = 49 then
            s\<lparr>sessions := hm_insert call (cs\<lparr>cs_sounds := cs_sounds cs @ [Intro]\<rparr>) (sessions s)\<rparr>
          else if digit = 42 \<or> digit = 35 then
            s\<lparr>sessions := hm_insert call (navigate digit join_ok cs) (sessions s)\<rparr>
          else s)"

subsection \<open>The system\<close>

datatype event =
    EvIncoming call_id "rstr option" "rstr option"
  | EvSetup nat setup_answer
  | EvCallState call_id u32
  | EvMain pj_status
  | EvDtmf call_id uchar bool
  | EvMedia call_id
  | EvCallback nat attach_outcome
  | EvConfOp conf_op conf_id pj_status
  | EvDeferred nat
  | EvWriteDone nat

definition callback_step :: "nat \<Rightarrow> attach_outcome \<Rightarrow> sys \<Rightarrow> sys" where
  "callback_step j out s =
     (let m = media_threads s ! j in
      case media_step out (mt_call m) (mt_pc m) s of
        (pc, s1) \<Rightarrow> s1\<lparr>media_threads := (media_threads s1)[j := m\<lparr>mt_pc := pc\<rparr>]\<rparr>)"

text \<open>pjsua gives a port a slot that is free, and a slot is free once its removal succeeded; the
  main loop takes an event only when it has finished the one before.\<close>

fun slot_free :: "attach_outcome \<Rightarrow> sys \<Rightarrow> bool" where
  "slot_free (Added conf) s = (hm_get (conference s) conf = None)"
| "slot_free _ s = True"

fun sys_step :: "config \<Rightarrow> event \<Rightarrow> sys \<Rightarrow> sys" where
  "sys_step cfg (EvIncoming call server number) s =
     (if main_loop s = MIdle
      then s\<lparr>setups := setups s @ [\<lparr>st_call = call, st_mumble_server = server,
               st_caller_number = number, st_last_channel = None, st_play_intro = False,
               st_sounds = [], st_pc = SCheck\<rparr>]\<rparr>
      else s)"
| "sys_step cfg (EvSetup i ans) s = (if i < length (setups s) then setup_step cfg i ans s else s)"
| "sys_step cfg (EvCallState call state) s =
     (if main_loop s = MIdle \<and> state = 6 then on_call_disconnected call s else s)"
| "sys_step cfg (EvMain status) s = main_step status s"
| "sys_step cfg (EvDtmf call digit join_ok) s =
     (if main_loop s = MIdle then on_dtmf_digit call digit join_ok s else s)"
| "sys_step cfg (EvMedia call) s =
     s\<lparr>media_threads := media_threads s @ [\<lparr>mt_call = call, mt_pc = CbTake\<rparr>]\<rparr>"
| "sys_step cfg (EvCallback j out) s =
     (if j < length (media_threads s) \<and> slot_free out s then callback_step j out s else s)"
| "sys_step cfg (EvConfOp op conf status) s =
     on_conf_op_completed (Some (op, conf, status))
       (if op = RemovePort \<and> status = 0 then s\<lparr>conference := hm_remove conf (conference s)\<rparr> else s)"
| "sys_step cfg (EvDeferred k) s = run_deferred k s"
| "sys_step cfg (EvWriteDone k) s =
     (if k < length (pending_writes s)
      then s\<lparr>pending_writes := (pending_writes s)[k := (pending_writes s ! k)\<lparr>pw_finished := True\<rparr>]\<rparr>
      else s)"

inductive reachable :: "config \<Rightarrow> sys \<Rightarrow> bool" for cfg where
  reachable_init: "reachable cfg initial_sys"
| reachable_step: "reachable cfg s \<Longrightarrow> reachable cfg (sys_step cfg e s)"

definition sys_run :: "config \<Rightarrow> event list \<Rightarrow> sys \<Rightarrow> sys" where
  "sys_run cfg es s = fold (sys_step cfg) es s"

lemma reachable_run: "reachable cfg s \<Longrightarrow> reachable cfg (sys_run cfg es s)"
  by (induction es arbitrary: s) (auto simp: sys_run_def intro: reachable_step)

lemma reachable_iff_run: "reachable cfg s \<longleftrightarrow> (\<exists>es. s = sys_run cfg es initial_sys)"
proof
  show "\<exists>es. s = sys_run cfg es initial_sys" if "reachable cfg s"
    using that
  proof (induction rule: reachable.induct)
    case reachable_init
    show ?case by (intro exI[of _ "[]"]) (simp add: sys_run_def)
  next
    case (reachable_step s e)
    then obtain es where "s = sys_run cfg es initial_sys" by blast
    then show ?case by (intro exI[of _ "es @ [e]"]) (simp add: sys_run_def)
  qed
qed (auto intro: reachable_run reachable_init)

subsection \<open>Example runs\<close>

text \<open>A bridge for at most \<open>n\<close> calls, and the events of one call that is answered, attached to
  slot \<open>conf\<close> and connected as setup \<open>i\<close>: up to the last step before its session is stored.\<close>

definition bridge_for :: "u32 \<Rightarrow> config" where
  "bridge_for n =
     \<lparr>cfg_sip = \<lparr>sip_listen_port = 5060, sip_account_uri = [], sip_registrar = [], sip_username = [],
                 sip_password = [], sip_max_concurrent_calls = n\<rparr>,
      cfg_mumble = \<lparr>mum_default_host = [], mum_port = 64738, mum_password = [], mum_channel = [],
                    mum_accept_invalid_cert = True\<rparr>,
      cfg_audio = audio_section_default, cfg_tts = tts_section_default,
      cfg_database = database_section_default, cfg_sms = sms_section_default\<rparr>"

definition call_begins :: "call_id \<Rightarrow> nat \<Rightarrow> event list" where
  "call_begins call i =
     [EvIncoming call None None, EvSetup i Proceed,
      EvSetup i (Identified (Inl QueryFailed) (Inl QueryFailed) 0 [])]"

definition call_registers :: "nat \<Rightarrow> event list" where
  "call_registers i = replicate 4 (EvSetup i Proceed) @ [EvSetup i (Status 0)]"

definition call_attaches :: "call_id \<Rightarrow> nat \<Rightarrow> conf_id \<Rightarrow> event list" where
  "call_attaches call j conf =
     [EvMedia call, EvCallback j NoConfPort, EvCallback j (Added conf), EvCallback j NoConfPort,
      EvCallback j NoConfPort]"

definition call_connects :: "nat \<Rightarrow> event list" where
  "call_connects i =
     [EvSetup i MediaReady,
      EvSetup i (Connected \<lparr>cn_channel_id = 3, cn_max_channel_id = 9, cn_join_ok = True\<rparr>),
      EvSetup i Proceed]"

definition call_established :: "call_id \<Rightarrow> nat \<Rightarrow> conf_id \<Rightarrow> event list" where
  "call_established call i conf =
     call_begins call i @ call_registers i @ call_attaches call i conf @ call_connects i @
     replicate 3 (EvSetup i Proceed)"

definition call_hangs_up :: "call_id \<Rightarrow> conf_id \<Rightarrow> event list" where
  "call_hangs_up call conf =
     EvCallState call 6 # replicate 6 (EvMain 0) @ [EvConfOp RemovePort conf 0]"

end
