(* ===== verification/MumbleControl.thy ===== *)
theory MumbleControl
  imports RustStr HashMap Config
begin

text \<open>
  \<^verbatim>\<open>src/mumble/control.rs\<close>: the Mumble client of a call, with the handshake, the receive loop that
  turns packets into events, the send loop and the sender handle.  Packets are those of the
  \<^verbatim>\<open>mumble_protocol\<close> library: an absent protobuf field reads as its default.  Sockets, TLS and
  the codec are the arguments that say what each operation answered.
\<close>

subsection \<open>Packets\<close>

record user_state =
  us_session :: "u32 option"
  us_name :: "rstr option"
  us_channel_id :: "u32 option"

record channel_state =
  chs_channel_id :: "u32 option"
  chs_name :: "rstr option"

record text_message =
  tm_actor :: "u32 option"
  tm_message :: "rstr option"

datatype voice_packet =
    VoicePing
  | VoiceOpus u32 u64 "u8 list" bool
  | VoiceOther u32 u64

datatype packet =
    CryptSetup "u8 list" "u8 list" "u8 list"
  | ChannelState channel_state
  | UserState user_state
  | ServerSync "u32 option"
  | Reject
  | UserRemove "u32 option"
  | TextMessage text_message
  | UDPTunnel voice_packet
  | PingPacket
  | OtherPacket

definition or_default :: "'a::zero option \<Rightarrow> 'a" where
  "or_default x = (case x of None \<Rightarrow> 0 | Some v \<Rightarrow> v)"

definition or_empty :: "rstr option \<Rightarrow> rstr" where
  "or_empty x = (case x of None \<Rightarrow> [] | Some v \<Rightarrow> v)"

lemma or_default_simps [simp]: "or_default None = 0" "or_default (Some v) = v"
  by (simp_all add: or_default_def)

lemma or_empty_simps [simp]: "or_empty None = []" "or_empty (Some v) = v"
  by (simp_all add: or_empty_def)

datatype mumble_event =
    EvConnected u32
  | EvDisconnected
  | EvAudioReceived u32 "u8 list" u64
  | EvUserChangedChannel u32 u32
  | EvChannelState u32 rstr
  | EvUserDisconnected u32
  | EvTextMessageReceived "rstr option" rstr

subsection \<open>Names of users\<close>

definition update_user_name_map :: "user_state \<Rightarrow> (u32, rstr) hashmap \<Rightarrow> (u32, rstr) hashmap" where
  "update_user_name_map msg user_names =
     (case (us_session msg, us_name msg) of
        (Some session_id, Some n) \<Rightarrow>
          (let name = trim n in
           if name = [] then hm_remove session_id user_names else hm_insert session_id name user_names)
      | _ \<Rightarrow> user_names)"

definition remove_user_from_map :: "u32 \<Rightarrow> (u32, rstr) hashmap \<Rightarrow> (u32, rstr) hashmap" where
  "remove_user_from_map session_id user_names = hm_remove session_id user_names"

definition resolve_text_message_sender_name :: "text_message \<Rightarrow> (u32, rstr) hashmap \<Rightarrow> rstr option" where
  "resolve_text_message_sender_name msg user_names =
     (case tm_actor msg of None \<Rightarrow> None | Some actor \<Rightarrow> hm_get user_names actor)"

subsection \<open>The handshake\<close>

datatype connect_error =
    ResolveFailed | TcpFailed | TlsFailed | SendFailed | ReceiveFailed
  | InvalidKeySize | InvalidClientNonceSize | InvalidServerNonceSize
  | LoginRejected | ClosedBeforeServerSync

record handshake =
  hs_target_channel_id :: "u32 option"
  hs_max_channel_id :: u32
  hs_channel_names :: "(u32, rstr) hashmap"
  hs_user_names :: "(u32, rstr) hashmap"

definition handshake_start :: handshake where
  "handshake_start = \<lparr>hs_target_channel_id = None, hs_max_channel_id = 0, hs_channel_names = [],
     hs_user_names = []\<rparr>"

definition handshake_channel :: "rstr \<Rightarrow> channel_state \<Rightarrow> handshake \<Rightarrow> handshake" where
  "handshake_channel channel msg hs =
     (let ch_id = or_default (chs_channel_id msg); name = or_empty (chs_name msg)
      in hs\<lparr>hs_channel_names := hm_insert ch_id name (hs_channel_names hs),
            hs_max_channel_id := max (hs_max_channel_id hs) ch_id,
            hs_target_channel_id :=
              (if channel \<noteq> [] \<and> name = channel then Some ch_id else hs_target_channel_id hs)\<rparr>)"

text \<open>\<open>key_size\<close> and \<open>nonce_size\<close> are the lengths the library's \<open>ClientCryptState\<close> takes.  The
  result is the session, the state and the packets that were not read.\<close>

fun handshake_loop ::
  "nat \<Rightarrow> nat \<Rightarrow> rstr \<Rightarrow> (unit + packet) list \<Rightarrow> handshake \<Rightarrow>
     connect_error + u32 \<times> handshake \<times> (unit + packet) list" where
  "handshake_loop key_size nonce_size channel [] hs = Inl ClosedBeforeServerSync"
| "handshake_loop key_size nonce_size channel (Inl _ # stream) hs = Inl ReceiveFailed"
| "handshake_loop key_size nonce_size channel (Inr packet # stream) hs =
     (case packet of
        CryptSetup key client_nonce server_nonce \<Rightarrow>
          if length key \<noteq> key_size then Inl InvalidKeySize
          else if length client_nonce \<noteq> nonce_size then Inl InvalidClientNonceSize
          else if length server_nonce \<noteq> nonce_size then Inl InvalidServerNonceSize
          else handshake_loop key_size nonce_size channel stream hs
      | ChannelState msg \<Rightarrow>
          handshake_loop key_size nonce_size channel stream (handshake_channel channel msg hs)
      | UserState msg \<Rightarrow>
          handshake_loop key_size nonce_size channel stream
            (hs\<lparr>hs_user_names := update_user_name_map msg (hs_user_names hs)\<rparr>)
      | ServerSync session \<Rightarrow> Inr (or_default session, hs, stream)
      | Reject \<Rightarrow> Inl LoginRejected
      | _ \<Rightarrow> handshake_loop key_size nonce_size channel stream hs)"

subsection \<open>Connecting\<close>

datatype serverbound =
    SAuthenticate rstr "rstr option" bool
  | SUserState u32
  | SPing
  | SVoice u64 "u8 list" bool

definition authenticate_message :: "mumble_config \<Rightarrow> serverbound" where
  "authenticate_message cfg =
     SAuthenticate (mc_username cfg) (if mc_password cfg = [] then None else Some (mc_password cfg)) True"

record mumble_client =
  cl_session_id :: u32
  cl_channel_id :: u32
  cl_max_channel_id :: u32
  cl_channel_names :: "(u32, rstr) hashmap"
  cl_user_names :: "(u32, rstr) hashmap"
  cl_stream :: "(unit + packet) list"

text \<open>What the network answers: \<open>resolved\<close>, \<open>tcp\<close> and \<open>tls\<close> say whether each stage succeeded,
  \<open>send_ok\<close> whether a packet could be sent.  The result carries the packets that were sent.\<close>

definition connect ::
  "nat \<Rightarrow> nat \<Rightarrow> mumble_config \<Rightarrow> bool \<Rightarrow> bool \<Rightarrow> bool \<Rightarrow> (serverbound \<Rightarrow> bool) \<Rightarrow> (unit + packet) list \<Rightarrow>
     connect_error + mumble_client \<times> serverbound list" where
  "connect key_size nonce_size cfg resolved tcp tls send_ok stream =
     (if \<not> resolved then Inl ResolveFailed
      else if \<not> tcp then Inl TcpFailed
      else if \<not> tls then Inl TlsFailed
      else if \<not> send_ok (authenticate_message cfg) then Inl SendFailed
      else
        (case handshake_loop key_size nonce_size (mc_channel cfg) stream handshake_start of
           Inl e \<Rightarrow> Inl e
         | Inr (session_id, hs, rest) \<Rightarrow>
             (let joins = (case hs_target_channel_id hs of None \<Rightarrow> [] | Some ch_id \<Rightarrow> [SUserState ch_id])
              in if list_all send_ok joins then
                   Inr (\<lparr>cl_session_id = session_id,
                         cl_channel_id = or_default (hs_target_channel_id hs),
                         cl_max_channel_id = hs_max_channel_id hs,
                         cl_channel_names = hs_channel_names hs,
                         cl_user_names = hs_user_names hs,
                         cl_stream = rest\<rparr>, authenticate_message cfg # joins)
                 else Inl SendFailed)))"

subsection \<open>The receive and send loops\<close>

definition handle_packet ::
  "packet \<Rightarrow> (u32, rstr) hashmap \<Rightarrow> mumble_event list \<times> (u32, rstr) hashmap" where
  "handle_packet packet user_names =
     (case packet of
        UDPTunnel voice \<Rightarrow>
          ((case voice of
              VoiceOpus session_id seq_num data eot \<Rightarrow> [EvAudioReceived session_id data seq_num]
            | _ \<Rightarrow> []), user_names)
      | UserState msg \<Rightarrow>
          ((case us_channel_id msg of
              None \<Rightarrow> []
            | Some ch \<Rightarrow> [EvUserChangedChannel (or_default (us_session msg)) ch]),
           update_user_name_map msg user_names)
      | ChannelState msg \<Rightarrow>
          ([EvChannelState (or_default (chs_channel_id msg)) (or_empty (chs_name msg))], user_names)
      | UserRemove session \<Rightarrow>
          ([EvUserDisconnected (or_default session)],
           remove_user_from_map (or_default session) user_names)
      | TextMessage msg \<Rightarrow>
          ([EvTextMessageReceived (resolve_text_message_sender_name msg user_names)
              (or_empty (tm_message msg))], user_names)
      | _ \<Rightarrow> ([], user_names))"

text \<open>The events of the receive task, to the end of the connection.\<close>

fun recv_loop :: "(unit + packet) list \<Rightarrow> (u32, rstr) hashmap \<Rightarrow> mumble_event list" where
  "recv_loop (Inr packet # stream) user_names =
     (let (events, user_names') = handle_packet packet user_names in events @ recv_loop stream user_names')"
| "recv_loop _ user_names = [EvDisconnected]"

text \<open>The send task, over what its \<open>select!\<close> sees: a tick of the ping timer, or an item of the
  outgoing queue (\<open>None\<close>: every sender is gone).  The result is what was put on the wire.\<close>

datatype send_select = PingTick | Outgoing "serverbound option"

fun send_loop :: "(serverbound \<Rightarrow> bool) \<Rightarrow> send_select list \<Rightarrow> serverbound list" where
  "send_loop send_ok [] = []"
| "send_loop send_ok (PingTick # rest) = (if send_ok SPing then SPing # send_loop send_ok rest else [])"
| "send_loop send_ok (Outgoing None # rest) = []"
| "send_loop send_ok (Outgoing (Some p) # rest) = (if send_ok p then p # send_loop send_ok rest else [])"

text \<open>The sender handle: sending into the queue fails once the send task is gone.\<close>

definition send_control :: "bool \<Rightarrow> serverbound \<Rightarrow> serverbound list \<Rightarrow> unit + serverbound list" where
  "send_control queue_open p queue = (if queue_open then Inr (queue @ [p]) else Inl ())"

definition join_channel :: "bool \<Rightarrow> u32 \<Rightarrow> serverbound list \<Rightarrow> unit + serverbound list" where
  "join_channel queue_open channel_id queue = send_control queue_open (SUserState channel_id) queue"

definition send_voice ::
  "bool \<Rightarrow> u64 \<Rightarrow> u8 list \<Rightarrow> bool \<Rightarrow> serverbound list \<Rightarrow> unit + serverbound list" where
  "send_voice queue_open seq_num opus_data end_of_transmission queue =
     send_control queue_open (SVoice seq_num opus_data end_of_transmission) queue"


subsection \<open>The handshake in one piece\<close>

text \<open>What one packet before \<open>ServerSync\<close> does to the state, and which packets do not end the
  handshake.\<close>

definition handshake_packet :: "rstr \<Rightarrow> packet \<Rightarrow> handshake \<Rightarrow> handshake" where
  "handshake_packet channel packet hs =
     (case packet of
        ChannelState msg \<Rightarrow> handshake_channel channel msg hs
      | UserState msg \<Rightarrow> hs\<lparr>hs_user_names := update_user_name_map msg (hs_user_names hs)\<rparr>
      | _ \<Rightarrow> hs)"

definition benign :: "nat \<Rightarrow> nat \<Rightarrow> packet \<Rightarrow> bool" where
  "benign key_size nonce_size packet =
     (case packet of
        CryptSetup key client_nonce server_nonce \<Rightarrow>
          length key = key_size \<and> length client_nonce = nonce_size \<and> length server_nonce = nonce_size
      | ServerSync _ \<Rightarrow> False
      | Reject \<Rightarrow> False
      | _ \<Rightarrow> True)"

lemma benign_simps [simp]:
  "benign k n (CryptSetup key cn sn) \<longleftrightarrow> length key = k \<and> length cn = n \<and> length sn = n"
  "benign k n (ChannelState c)" "benign k n (UserState u)" "\<not> benign k n (ServerSync s)"
  "\<not> benign k n Reject" "benign k n (UserRemove s)" "benign k n (TextMessage t)"
  "benign k n (UDPTunnel v)" "benign k n PingPacket" "benign k n OtherPacket"
  by (simp_all add: benign_def)

lemma handshake_packet_simps [simp]:
  "handshake_packet channel (CryptSetup key cn sn) hs = hs"
  "handshake_packet channel (ChannelState c) hs = handshake_channel channel c hs"
  "handshake_packet channel (UserState u) hs =
     hs\<lparr>hs_user_names := update_user_name_map u (hs_user_names hs)\<rparr>"
  "handshake_packet channel (ServerSync s) hs = hs" "handshake_packet channel Reject hs = hs"
  "handshake_packet channel (UserRemove s) hs = hs" "handshake_packet channel (TextMessage t) hs = hs"
  "handshake_packet channel (UDPTunnel v) hs = hs" "handshake_packet channel PingPacket hs = hs"
  "handshake_packet channel OtherPacket hs = hs"
  by (simp_all add: handshake_packet_def)

lemma handshake_loop_iff:
  "handshake_loop key_size nonce_size channel stream hs = Inr (session_id, hs', rest) \<longleftrightarrow>
     (\<exists>before session. stream = map Inr before @ Inr (ServerSync session) # rest \<and>
        list_all (benign key_size nonce_size) before \<and> session_id = or_default session \<and>
        hs' = fold (handshake_packet channel) before hs)"
proof (induction key_size nonce_size channel stream hs rule: handshake_loop.induct)
  case (3 key_size nonce_size channel packet stream hs)
  have shape: "(\<exists>before session. Inr packet # stream = map Inr before @ Inr (ServerSync session) # rest \<and>
        list_all (benign key_size nonce_size) before \<and> session_id = or_default session \<and>
        hs' = fold (handshake_packet channel) before hs) \<longleftrightarrow>
      (\<exists>session. packet = ServerSync session \<and> stream = rest \<and> session_id = or_default session \<and> hs' = hs) \<or>
      benign key_size nonce_size packet \<and>
      (\<exists>before session. stream = map Inr before @ Inr (ServerSync session) # rest \<and>
        list_all (benign key_size nonce_size) before \<and> session_id = or_default session \<and>
        hs' = fold (handshake_packet channel) before (handshake_packet channel packet hs))"
    (is "?L \<longleftrightarrow> ?A \<or> ?B")
  proof
    assume ?L
    then obtain before session where b: "Inr packet # stream = map Inr before @ Inr (ServerSync session) # rest"
      "list_all (benign key_size nonce_size) before" "session_id = or_default session"
      "hs' = fold (handshake_packet channel) before hs" by blast
    then show "?A \<or> ?B" by (cases before) auto
  next
    assume "?A \<or> ?B"
    then show ?L
    proof
      assume ?A
      then show ?L by (intro exI[of _ "[]"]) auto
    next
      assume ?B
      then obtain before session where "stream = map Inr before @ Inr (ServerSync session) # rest"
        "list_all (benign key_size nonce_size) before" "session_id = or_default session"
        "hs' = fold (handshake_packet channel) before (handshake_packet channel packet hs)"
        "benign key_size nonce_size packet" by blast
      then show ?L by (intro exI[of _ "packet # before"]) auto
    qed
  qed
  show ?case
    unfolding shape using 3
    by (cases packet) auto
next
  case (2 key_size nonce_size channel u stream hs)
  have "Inl u # stream \<noteq> map Inr before @ Inr p # rest" for before and p :: packet
    by (cases before) auto
  then show ?case by simp
qed simp_all


subsection \<open>What a connection knows\<close>

text \<open>The writes a packet makes to the maps of channel names and user names.\<close>

definition channel_writes :: "packet \<Rightarrow> (u32 \<times> rstr option) list" where
  "channel_writes packet =
     (case packet of
        ChannelState msg \<Rightarrow> [(or_default (chs_channel_id msg), Some (or_empty (chs_name msg)))]
      | _ \<Rightarrow> [])"

definition name_writes :: "packet \<Rightarrow> (u32 \<times> rstr option) list" where
  "name_writes packet =
     (case packet of
        UserState msg \<Rightarrow>
          (case (us_session msg, us_name msg) of
             (Some s, Some n) \<Rightarrow> [(s, if trim n = [] then None else Some (trim n))]
           | _ \<Rightarrow> [])
      | _ \<Rightarrow> [])"

definition name_writes_connected :: "packet \<Rightarrow> (u32 \<times> rstr option) list" where
  "name_writes_connected packet =
     (case packet of UserRemove s \<Rightarrow> [(or_default s, None)] | _ \<Rightarrow> name_writes packet)"

definition channels_named :: "rstr \<Rightarrow> packet list \<Rightarrow> u32 list" where
  "channels_named channel packets =
     map fst (filter (\<lambda>w. channel \<noteq> [] \<and> snd w = Some channel) (concat (map channel_writes packets)))"

lemma update_user_name_map_writes:
  "update_user_name_map msg m = fold hm_write (name_writes (UserState msg)) m"
  by (auto simp: update_user_name_map_def name_writes_def hm_write_def Let_def split: option.splits)

lemma name_writes_other:
  "\<forall>msg. packet \<noteq> UserState msg \<Longrightarrow> name_writes packet = []"
  "\<forall>msg. packet \<noteq> ChannelState msg \<Longrightarrow> channel_writes packet = []"
  by (auto simp: name_writes_def channel_writes_def split: packet.splits)

lemma writes_simps [simp]:
  "channel_writes (ChannelState msg) = [(or_default (chs_channel_id msg), Some (or_empty (chs_name msg)))]"
  "channel_writes (UserState u) = []" "name_writes (ChannelState msg) = []"
  "name_writes_connected (UserRemove s) = [(or_default s, None)]"
  "hm_write (k, Some v) m = hm_insert k v m" "hm_write (k, None) m = hm_remove k m"
  by (simp_all add: channel_writes_def name_writes_def name_writes_connected_def hm_write_def)

lemma handshake_packets:
  "hs_user_names (fold (handshake_packet channel) packets hs) =
     fold hm_write (concat (map name_writes packets)) (hs_user_names hs)"
  "hs_channel_names (fold (handshake_packet channel) packets hs) =
     fold hm_write (concat (map channel_writes packets)) (hs_channel_names hs)"
  "hs_max_channel_id (fold (handshake_packet channel) packets hs) =
     fold max (map fst (concat (map channel_writes packets))) (hs_max_channel_id hs)"
  "hs_target_channel_id (fold (handshake_packet channel) packets hs) =
     (if channels_named channel packets = [] then hs_target_channel_id hs
      else Some (last (channels_named channel packets)))"
proof (induction packets arbitrary: hs)
  case (Cons packet packets)
  note ih = Cons.IH
  consider (c) msg where "packet = ChannelState msg" | (u) msg where "packet = UserState msg" |
    (o) "\<forall>msg. packet \<noteq> UserState msg" "\<forall>msg. packet \<noteq> ChannelState msg" by blast
  note cases = this
  have same: "handshake_packet channel packet hs = hs"
    if "\<forall>msg. packet \<noteq> UserState msg" "\<forall>msg. packet \<noteq> ChannelState msg" for hs
    using that by (cases packet) auto
  {
    case 1
    show ?case by (cases rule: cases)
      (simp_all add: ih name_writes_other same update_user_name_map_writes handshake_channel_def Let_def)
  next
    case 2
    show ?case by (cases rule: cases)
      (simp_all add: ih name_writes_other same handshake_channel_def Let_def)
  next
    case 3
    show ?case by (cases rule: cases)
      (simp_all add: ih name_writes_other same handshake_channel_def Let_def max.commute)
  next
    case 4
    show ?case by (cases rule: cases)
      (simp_all add: ih name_writes_other same handshake_channel_def Let_def channels_named_def)
  }
qed (simp_all add: channels_named_def)

text \<open>C25. Connecting succeeds exactly when every stage of the connection does, the authentication
  and the join can be sent, and the server sends \<open>ServerSync\<close> before anything that ends the
  handshake.  The client then has the session of that packet, the channel of the configured name
  that was announced last (the root if there is none), the highest channel id, the names as last
  announced, and the rest of the stream still to read.\<close>

theorem connect_outcome:
  "connect key_size nonce_size cfg resolved tcp tls send_ok stream = Inr (cl, sent) \<longleftrightarrow>
     resolved \<and> tcp \<and> tls \<and> list_all send_ok sent \<and>
     (\<exists>before session rest.
        stream = map Inr before @ Inr (ServerSync session) # rest \<and>
        list_all (benign key_size nonce_size) before \<and>
        sent = authenticate_message cfg #
          (if channels_named (mc_channel cfg) before = [] then []
           else [SUserState (last (channels_named (mc_channel cfg) before))]) \<and>
        cl = \<lparr>cl_session_id = or_default session,
              cl_channel_id =
                (if channels_named (mc_channel cfg) before = [] then 0
                 else last (channels_named (mc_channel cfg) before)),
              cl_max_channel_id = fold max (map fst (concat (map channel_writes before))) 0,
              cl_channel_names = fold hm_write (concat (map channel_writes before)) [],
              cl_user_names = fold hm_write (concat (map name_writes before)) [],
              cl_stream = rest\<rparr>)"
proof (cases "resolved \<and> tcp \<and> tls \<and> send_ok (authenticate_message cfg)")
  case True
  let ?loop = "handshake_loop key_size nonce_size (mc_channel cfg) stream handshake_start"
  let ?client = "\<lambda>session_id hs rest. \<lparr>cl_session_id = session_id,
    cl_channel_id = or_default (hs_target_channel_id hs), cl_max_channel_id = hs_max_channel_id hs,
    cl_channel_names = hs_channel_names hs, cl_user_names = hs_user_names hs, cl_stream = rest\<rparr>"
  let ?joins = "\<lambda>hs. case hs_target_channel_id hs of None \<Rightarrow> [] | Some ch_id \<Rightarrow> [SUserState ch_id]"
  have "connect key_size nonce_size cfg resolved tcp tls send_ok stream = Inr (cl, sent) \<longleftrightarrow>
      (\<exists>session_id hs rest. ?loop = Inr (session_id, hs, rest) \<and> list_all send_ok (?joins hs) \<and>
        cl = ?client session_id hs rest \<and> sent = authenticate_message cfg # ?joins hs)"
    using True by (auto simp: connect_def Let_def split: sum.splits if_splits)
  also have "\<dots> \<longleftrightarrow> (\<exists>before session rest.
      stream = map Inr before @ Inr (ServerSync session) # rest \<and> list_all (benign key_size nonce_size) before \<and>
      list_all send_ok (?joins (fold (handshake_packet (mc_channel cfg)) before handshake_start)) \<and>
      cl = ?client (or_default session) (fold (handshake_packet (mc_channel cfg)) before handshake_start) rest \<and>
      sent = authenticate_message cfg # ?joins (fold (handshake_packet (mc_channel cfg)) before handshake_start))"
    unfolding handshake_loop_iff by blast
  finally show ?thesis
    using True by (simp add: handshake_packets handshake_start_def) (fastforce split: if_splits)
qed (auto simp: connect_def)


text \<open>The highest channel id bounds every channel the server announced before \<open>ServerSync\<close>.\<close>

definition announced_bounded :: "handshake \<Rightarrow> bool" where
  "announced_bounded hs \<longleftrightarrow>
     (\<forall>ch. hm_get (hs_channel_names hs) ch \<noteq> None \<longrightarrow> ch \<le> hs_max_channel_id hs)"

lemma handshake_packet_bounded: "announced_bounded hs \<Longrightarrow> announced_bounded (handshake_packet channel packet hs)"
  by (cases packet) (auto simp: announced_bounded_def handshake_channel_def Let_def max.coboundedI1)

lemma handshake_packets_bounded:
  "announced_bounded hs \<Longrightarrow> announced_bounded (fold (handshake_packet channel) packets hs)"
  by (induction packets arbitrary: hs) (simp_all add: handshake_packet_bounded)

lemma announced_channel_le_max:
  assumes "connect key_size nonce_size cfg resolved tcp tls send_ok stream = Inr (cl, sent)"
    and "hm_get (cl_channel_names cl) ch \<noteq> None"
  shows "ch \<le> cl_max_channel_id cl"
proof -
  from assms(1) obtain session_id hs rest where
    loop: "handshake_loop key_size nonce_size (mc_channel cfg) stream handshake_start = Inr (session_id, hs, rest)"
    and cl: "cl_channel_names cl = hs_channel_names hs" "cl_max_channel_id cl = hs_max_channel_id hs"
    by (auto simp: connect_def Let_def split: if_splits sum.splits)
  from loop obtain before where "hs = fold (handshake_packet (mc_channel cfg)) before handshake_start"
    unfolding handshake_loop_iff by blast
  moreover have "announced_bounded handshake_start"
    by (simp add: announced_bounded_def handshake_start_def)
  ultimately have "announced_bounded hs" by (simp add: handshake_packets_bounded)
  with assms(2) show ?thesis by (auto simp: announced_bounded_def cl)
qed


subsection \<open>Names in the event stream\<close>

lemma handle_packet_names:
  "snd (handle_packet packet m) = fold hm_write (name_writes_connected packet) m"
  by (cases packet) (simp_all add: handle_packet_def update_user_name_map_writes remove_user_from_map_def
      name_writes_connected_def name_writes_def)

lemma recv_loop_append:
  "\<exists>events. recv_loop (map Inr packets @ stream) m =
     events @ recv_loop stream (fold hm_write (concat (map name_writes_connected packets)) m) \<and>
     EvDisconnected \<notin> set events"
proof (induction packets arbitrary: m)
  case (Cons packet packets)
  obtain events where ev: "recv_loop (map Inr packets @ stream) (snd (handle_packet packet m)) =
      events @ recv_loop stream (fold hm_write (concat (map name_writes_connected packets)) (snd (handle_packet packet m)))"
    "EvDisconnected \<notin> set events"
    using Cons.IH by blast
  have "EvDisconnected \<notin> set (fst (handle_packet packet m))"
    by (auto simp: handle_packet_def split: packet.splits voice_packet.splits option.splits)
  with ev show ?case
    by (intro exI[of _ "fst (handle_packet packet m) @ events"])
      (simp add: split_beta handle_packet_names)
qed (auto intro: exI[of _ "[]"])

text \<open>C26. The sender name of a text message is the name last announced for its actor, at the
  handshake or since, trimmed, unless the actor was removed since or the last name was blank.\<close>

theorem text_sender_is_last_name:
  assumes "connect key_size nonce_size cfg resolved tcp tls send_ok
      (map Inr before @ Inr (ServerSync session) # map Inr since @ Inr (TextMessage msg) # stream) = Inr (cl, sent)"
    and "list_all (\<lambda>p. \<nexists>s. p = ServerSync s) before"
    and "tm_actor msg = Some actor"
  shows "\<exists>events events'. recv_loop (cl_stream cl) (cl_user_names cl) =
    events @ EvTextMessageReceived
      (last_write actor (concat (map name_writes before) @ concat (map name_writes_connected since)) None)
      (or_empty (tm_message msg)) # events'"
proof -
  obtain before' session' rest where stream:
    "map Inr before @ Inr (ServerSync session) # map Inr since @ Inr (TextMessage msg) # stream
      = map Inr before' @ Inr (ServerSync session') # rest"
    and benign: "list_all (benign key_size nonce_size) before'"
    and cl: "cl_stream cl = rest" "cl_user_names cl = fold hm_write (concat (map name_writes before')) []"
    using assms(1) unfolding connect_outcome by auto
  have "before' = before \<and> rest = map Inr since @ Inr (TextMessage msg) # stream"
    using stream benign assms(2)
  proof (induction before arbitrary: before')
    case Nil
    then show ?case by (cases before') auto
  next
    case (Cons p before)
    then show ?case by (cases before') auto
  qed
  then have same: "before' = before" "rest = map Inr since @ Inr (TextMessage msg) # stream" by simp_all
  obtain events where "recv_loop (cl_stream cl) (cl_user_names cl) = events @
      recv_loop (Inr (TextMessage msg) # stream) (fold hm_write (concat (map name_writes_connected since))
        (fold hm_write (concat (map name_writes before)) []))"
    using recv_loop_append[of since "Inr (TextMessage msg) # stream" "cl_user_names cl"] cl same by auto
  then show ?thesis
    by (simp add: handle_packet_def resolve_text_message_sender_name_def assms(3) hm_get_writes last_write_append)
      blast
qed

definition example_mumble_config :: mumble_config where
  "example_mumble_config = \<lparr>mc_host = [], mc_port = 64738, mc_username = lit ''sip'', mc_password = [],
     mc_channel = [], mc_accept_invalid_cert = True\<rparr>"

definition user_named :: "u32 \<Rightarrow> rstr \<Rightarrow> packet" where
  "user_named s n = UserState \<lparr>us_session = Some s, us_name = Some n, us_channel_id = None\<rparr>"

lemma text_sender_is_last_name_witness:
  "\<exists>cl sent events events'. connect 16 16 example_mumble_config True True True (\<lambda>_. True)
      [Inr (user_named 5 (lit ''Al'')), Inr (ServerSync (Some 9)), Inr (user_named 5 (lit '' Bo '')),
       Inr (TextMessage \<lparr>tm_actor = Some 5, tm_message = Some (lit ''hi'')\<rparr>)] = Inr (cl, sent) \<and>
    recv_loop (cl_stream cl) (cl_user_names cl) =
      events @ EvTextMessageReceived (Some (lit ''Bo'')) (lit ''hi'') # events'"
proof -
  let ?msg = "\<lparr>tm_actor = Some 5, tm_message = Some (lit ''hi'')\<rparr>"
  obtain cl sent where con: "connect 16 16 example_mumble_config True True True (\<lambda>_. True)
      (map Inr [user_named 5 (lit ''Al'')] @ Inr (ServerSync (Some 9)) # map Inr [user_named 5 (lit '' Bo '')] @
       Inr (TextMessage ?msg) # []) = Inr (cl, sent)"
    by (simp add: connect_def handshake_start_def user_named_def)
  have "trim (lit ''Al'') = lit ''Al''" "trim (lit '' Bo '') = lit ''Bo''"
    by (simp_all add: trim_def trim_start_def trim_end_by_def lit_def is_whitespace_def)
  with text_sender_is_last_name[OF con] con show ?thesis
    by (simp add: user_named_def name_writes_def name_writes_connected_def)
qed

text \<open>A channel update without a name, such as a new description, erases the name the client knew.\<close>

lemma nameless_update_erases_name:
  assumes "chs_channel_id msg = Some ch" and "chs_name msg = None"
  shows "hm_get (hs_channel_names (handshake_channel channel msg hs)) ch = Some []"
    and "fst (handle_packet (ChannelState msg) m) = [EvChannelState ch []]"
  using assms by (simp_all add: handshake_channel_def handle_packet_def)

text \<open>A user who leaves during the handshake keeps the name: removals are not handled there.\<close>

lemma removal_during_handshake_ignored:
  "handshake_packet channel (UserRemove s) hs = hs"
  by simp

text \<open>Every packet that is sent passes through the queue in order, and after the first failure
  nothing is sent.\<close>

lemma send_loop_order:
  "\<exists>n. filter (\<lambda>p. p \<noteq> SPing) (send_loop send_ok selects) =
     take n (filter (\<lambda>p. p \<noteq> SPing) (List.map_filter (\<lambda>s. case s of Outgoing p \<Rightarrow> p | PingTick \<Rightarrow> None) selects))"
proof (induction send_ok selects rule: send_loop.induct)
  case (4 send_ok p rest)
  then obtain n where n: "filter (\<lambda>p. p \<noteq> SPing) (send_loop send_ok rest) =
      take n (filter (\<lambda>p. p \<noteq> SPing) (List.map_filter (\<lambda>s. case s of Outgoing p \<Rightarrow> p | PingTick \<Rightarrow> None) rest))"
    if "send_ok p" by auto
  show ?case
  proof (cases "send_ok p")
    case True
    with n show ?thesis
      by (cases "p = SPing") (auto simp: map_filter_simps intro: exI[of _ n] exI[of _ "Suc n"])
  qed (auto intro: exI[of _ 0])
qed (auto simp: map_filter_simps intro: exI[of _ 0])

end
