(* ===== verification/TtsText.thy ===== *)
theory TtsText
  imports RustStr
begin

text \<open>
  The text half of \<^verbatim>\<open>src/audio/tts.rs\<close>: the phrases that are spoken for a channel change and for
  a text message, with the removal of HTML, the decoding of entities and the recognition of links,
  whose hosts are spoken instead of their addresses.  Numbers in the definitions are code points.
\<close>

subsection \<open>Markup\<close>

definition eq_ignore_ascii_case :: "rstr \<Rightarrow> rstr \<Rightarrow> bool" where
  "eq_ignore_ascii_case s t \<longleftrightarrow> to_ascii_lowercase s = to_ascii_lowercase t"

definition find_ascii_case_insensitive :: "rstr \<Rightarrow> rstr \<Rightarrow> nat option" where
  "find_ascii_case_insensitive haystack needle =
     (if needle = [] then Some 0
      else if length haystack < length needle then None
      else List.find (\<lambda>i. eq_ignore_ascii_case (take (length needle) (drop i haystack)) needle)
        [0..<length haystack - length needle + 1])"

definition decode_basic_html_entities :: "rstr \<Rightarrow> rstr" where
  "decode_basic_html_entities s =
     replace_str (lit ''&amp;'') (lit ''&'')
       (replace_str (lit ''&gt;'') (lit ''>'')
         (replace_str (lit ''&lt;'') (lit ''<'')
           (replace_str (lit ''&apos;'') [39]
             (replace_str (lit ''&#39;'') [39]
               (replace_str (lit ''&quot;'') [34] s)))))"

definition parse_anchor_href :: "rstr \<Rightarrow> rstr option" where
  "parse_anchor_href open_tag =
     (case find_sub (to_ascii_lowercase open_tag) (lit ''href'') of
        None \<Rightarrow> None
      | Some href_idx \<Rightarrow>
          (case trim_start (drop (href_idx + 4) open_tag) of
             [] \<Rightarrow> None
           | c # v \<Rightarrow>
               if c \<noteq> 61 then None
               else
                 (case trim_start v of
                    [] \<Rightarrow> None
                  | q # rest \<Rightarrow>
                      if q = 34 \<or> q = 39 then
                        (case find_char ((=) q) rest of
                           None \<Rightarrow> None
                         | Some end \<Rightarrow> Some (decode_basic_html_entities (take end rest)))
                      else
                        (let end = (case find_char (\<lambda>ch. is_whitespace ch \<or> ch = 62) (q # rest) of
                                      None \<Rightarrow> length (q # rest) | Some e \<Rightarrow> e)
                         in Some (decode_basic_html_entities (take end (q # rest)))))))"

text \<open>The loop of \<^verbatim>\<open>replace_html_anchor_tags\<close> over what is left of the input.\<close>

function replace_html_anchor_tags :: "rstr \<Rightarrow> rstr" where
  "replace_html_anchor_tags s =
     (if s = [] then []
      else case find_ascii_case_insensitive s (lit ''<a'') of
        None \<Rightarrow> s
      | Some i \<Rightarrow>
          (let t = drop i s in
           take i s @
           (case find_char ((=) 62) t of
              None \<Rightarrow> t
            | Some e \<Rightarrow>
                (let open_tag = take (e + 1) t; inner = drop (e + 1) t in
                 case find_ascii_case_insensitive inner (lit ''</a>'') of
                   None \<Rightarrow> t
                 | Some k \<Rightarrow>
                     [32] @ (case parse_anchor_href open_tag of None \<Rightarrow> take k inner | Some h \<Rightarrow> h) @ [32] @
                     replace_html_anchor_tags (drop (k + 4) inner)))))"
  by pat_completeness auto
termination
  by (relation "measure length") auto

declare replace_html_anchor_tags.simps [simp del]

fun strip_tags_from :: "bool \<Rightarrow> rstr \<Rightarrow> rstr" where
  "strip_tags_from in_tag [] = []"
| "strip_tags_from in_tag (c # s) =
     (if c = 60 then 32 # strip_tags_from True s
      else if c = 62 then 32 # strip_tags_from False s
      else if in_tag then strip_tags_from in_tag s
      else c # strip_tags_from in_tag s)"

definition strip_html_tags :: "rstr \<Rightarrow> rstr" where
  "strip_html_tags s = strip_tags_from False s"

subsection \<open>Hosts\<close>

definition is_leading_punctuation :: "uchar \<Rightarrow> bool" where
  "is_leading_punctuation c \<longleftrightarrow> c \<in> set (lit ''([{<'') \<or> c = 34 \<or> c = 39 \<or> c = 96"

definition is_trailing_punctuation :: "uchar \<Rightarrow> bool" where
  "is_trailing_punctuation c \<longleftrightarrow> c \<in> set (lit '')]}>.,!?;:'') \<or> c = 34 \<or> c = 39 \<or> c = 96"

definition split_token_affixes :: "rstr \<Rightarrow> rstr \<times> rstr \<times> rstr" where
  "split_token_affixes token =
     (let start = (case find_char (\<lambda>c. \<not> is_leading_punctuation c) token of
                     None \<Rightarrow> length token | Some i \<Rightarrow> i);
          end = (case find_char (\<lambda>c. \<not> is_trailing_punctuation c) (rev token) of
                   None \<Rightarrow> start | Some i \<Rightarrow> length token - i)
      in if end < start then (token, [], [])
         else (take start token, take (end - start) (drop start token), drop end token))"

definition is_valid_host_label :: "rstr \<Rightarrow> bool" where
  "is_valid_host_label label \<longleftrightarrow>
     label \<noteq> [] \<and> hd label \<noteq> 45 \<and> last label \<noteq> 45 \<and>
     list_all (\<lambda>c. is_ascii_alphanumeric c \<or> c = 45) label"

definition is_valid_hostname :: "rstr \<Rightarrow> bool" where
  "is_valid_hostname host \<longleftrightarrow>
     46 \<in> set host \<and>
     list_ex is_ascii_alphabetic (last (split_on ((=) 46) host)) \<and>
     list_all is_valid_host_label (split_on ((=) 46) host)"

definition normalize_host_for_speech :: "rstr \<Rightarrow> rstr option" where
  "normalize_host_for_speech host =
     (let h = trim_matches 46 (trim host) in
      if h = [] then None
      else
        (let h' = to_ascii_lowercase (case strip_prefix (lit ''www.'') h of None \<Rightarrow> h | Some r \<Rightarrow> r)
         in if is_valid_hostname h' then Some h' else None))"

text \<open>The host in what follows the scheme: up to the path, after any user, before any port.\<close>

definition host_part :: "rstr \<Rightarrow> rstr" where
  "host_part s =
     (let authority = hd (split_on (\<lambda>c. c = 47 \<or> c = 63 \<or> c = 35) s);
          host_and_port = last (split_on ((=) 64) authority)
      in hd (split_on ((=) 58) host_and_port))"

definition parse_host_from_url :: "rstr \<Rightarrow> rstr option" where
  "parse_host_from_url url =
     (case strip_prefix (lit ''http://'') url of
        Some s \<Rightarrow> normalize_host_for_speech (host_part s)
      | None \<Rightarrow> (case strip_prefix (lit ''https://'') url of
          Some s \<Rightarrow> normalize_host_for_speech (host_part s)
        | None \<Rightarrow> (case strip_prefix (lit ''HTTP://'') url of
            Some s \<Rightarrow> normalize_host_for_speech (host_part s)
          | None \<Rightarrow> (case strip_prefix (lit ''HTTPS://'') url of
              Some s \<Rightarrow> normalize_host_for_speech (host_part s)
            | None \<Rightarrow> None))))"

definition parse_host_from_bare_token :: "rstr \<Rightarrow> rstr option" where
  "parse_host_from_bare_token token =
     (if find_sub token (lit ''://'') \<noteq> None then None
      else normalize_host_for_speech (host_part token))"

definition extract_url_host :: "rstr \<Rightarrow> rstr option" where
  "extract_url_host token =
     (let lower = to_ascii_lowercase token in
      if starts_with lower (lit ''http://'') \<or> starts_with lower (lit ''https://'')
      then parse_host_from_url token
      else if starts_with lower (lit ''www.'') then parse_host_from_url (lit ''https://'' @ token)
      else parse_host_from_bare_token token)"

definition hostname_for_speech :: "rstr \<Rightarrow> rstr" where
  "hostname_for_speech host =
     collapse_whitespace (join (lit '' dot '')
       (map (replace_char 45 (lit '' dash '')) (split_on ((=) 46) host)))"

subsection \<open>Phrases\<close>

definition token_has_spoken_content :: "rstr \<Rightarrow> bool" where
  "token_has_spoken_content token \<longleftrightarrow> list_ex is_ascii_alphanumeric token"

definition normalize_text_token_for_tts :: "rstr \<Rightarrow> rstr \<times> rstr option" where
  "normalize_text_token_for_tts token =
     (case split_token_affixes token of
        (prefix, core, suffix) \<Rightarrow>
          if core = [] then (token, None)
          else
            (case extract_url_host core of
               None \<Rightarrow> (token, None)
             | Some hostname \<Rightarrow>
                 (let spoken = hostname_for_speech hostname
                  in (prefix @ spoken @ suffix, Some spoken))))"

definition join_human_list :: "rstr list \<Rightarrow> rstr" where
  "join_human_list items =
     (case items of
        [] \<Rightarrow> []
      | [one] \<Rightarrow> one
      | [x, y] \<Rightarrow> x @ lit '' and '' @ y
      | _ \<Rightarrow> concat (map (\<lambda>(idx, item).
               (if idx = 0 then [] else if idx = length items - 1 then lit '', and '' else lit '', '') @ item)
             (enumerate 0 items)))"

record tts_analysis =
  normalized_message :: rstr
  link_hosts_for_speech :: "rstr list"
  non_link_token_count :: nat

definition analyze_text_message_for_tts :: "rstr \<Rightarrow> tts_analysis" where
  "analyze_text_message_for_tts raw =
     (let decoded = decode_basic_html_entities (strip_html_tags (replace_html_anchor_tags raw));
          tokens = map normalize_text_token_for_tts (split_whitespace decoded)
      in \<lparr>normalized_message = collapse_whitespace (join (lit '' '') (map fst tokens)),
          link_hosts_for_speech = List.map_filter snd tokens,
          non_link_token_count =
            length (filter (\<lambda>(t, h). h = None \<and> token_has_spoken_content t) tokens)\<rparr>)"

definition text_message_phrase :: "rstr option \<Rightarrow> rstr \<Rightarrow> rstr" where
  "text_message_phrase sender_name raw =
     (let sender = (case sender_name of
                      None \<Rightarrow> lit ''Someone''
                    | Some n \<Rightarrow> if trim n = [] then lit ''Someone'' else trim n);
          a = analyze_text_message_for_tts raw
      in if non_link_token_count a = 0 \<and> link_hosts_for_speech a \<noteq> [] then
           (if length (link_hosts_for_speech a) = 1
            then sender @ lit '' posted a link to '' @ hd (link_hosts_for_speech a)
            else sender @ lit '' posted links to '' @ join_human_list (link_hosts_for_speech a))
         else if normalized_message a = [] then sender @ lit '' sent a message''
         else sender @ lit '' says: '' @ normalized_message a)"

definition channel_announcement_phrase :: "rstr option \<Rightarrow> u32 \<Rightarrow> rstr" where
  "channel_announcement_phrase channel_name channel_id =
     (let name = trim (case channel_name of None \<Rightarrow> [] | Some n \<Rightarrow> n) in
      if name = [] then lit ''You are now in channel '' @ show_nat (unat channel_id)
      else lit ''You are now in the '' @ name @ lit '' channel'')"

subsection \<open>Decoding entities\<close>

text \<open>Replacing in a string written as a sequence of tokens, none of which but the pattern itself
  can start a match.\<close>

lemma replace_str_tokens:
  assumes "p \<noteq> []"
    and "\<And>c. c \<in> set s \<Longrightarrow> f c = p \<or>
      (f c \<noteq> [] \<and> (\<forall>x \<in> set (tl (f c)). x \<noteq> hd p) \<and> (\<forall>t. \<not> starts_with (f c @ t) p))"
  shows "replace_str p r (concat (map f s)) = concat (map (\<lambda>c. if f c = p then r else f c) s)"
  using assms(2)
proof (induction s)
  case Nil
  then show ?case by simp
next
  case (Cons c s)
  then have ih: "replace_str p r (concat (map f s)) = concat (map (\<lambda>c. if f c = p then r else f c) s)"
    by simp
  show ?case
  proof (cases "f c = p")
    case True
    with ih show ?thesis by (simp add: replace_str_match[OF assms(1)])
  next
    case False
    with Cons.prems[of c] obtain a w where fc: "f c = a # w" "\<forall>x \<in> set w. x \<noteq> hd p"
      and no: "\<not> starts_with (a # w @ concat (map f s)) p"
      by (cases "f c") (auto simp: starts_with_iff)
    with ih False show ?thesis
      by (simp add: replace_str_step[OF assms(1) no] replace_str_skip[OF assms(1) fc(2)])
  qed
qed

text \<open>The escaping that \<open>decode_basic_html_entities\<close> undoes.\<close>

definition escape_char :: "uchar \<Rightarrow> rstr" where
  "escape_char c =
     (if c = 34 then lit ''&quot;'' else if c = 39 then lit ''&apos;'' else if c = 60 then lit ''&lt;''
      else if c = 62 then lit ''&gt;'' else if c = 38 then lit ''&amp;'' else [c])"

definition escape_html :: "rstr \<Rightarrow> rstr" where
  "escape_html s = concat (map escape_char s)"

lemma set_escape_html: "set (escape_html s) \<inter> {60, 62} = {}"
  by (auto simp: escape_html_def escape_char_def lit_def split: if_splits)

definition escape_but :: "uchar list \<Rightarrow> uchar \<Rightarrow> rstr" where
  "escape_but done c = (if c \<in> set done then [c] else escape_char c)"

lemma escape_but_stage:
  assumes "c0 \<in> {34, 39, 60, 62, 38}" and "c0 \<notin> set done"
    and "38 \<in> set done \<Longrightarrow> False"
  shows "replace_str (escape_char c0) [c0] (concat (map (escape_but done) s))
    = concat (map (escape_but (c0 # done)) s)"
proof -
  have "replace_str (escape_char c0) [c0] (concat (map (escape_but done) s))
      = concat (map (\<lambda>c. if escape_but done c = escape_char c0 then [c0] else escape_but done c) s)"
  proof (rule replace_str_tokens)
    show "escape_char c0 \<noteq> []" using assms(1) by (auto simp: escape_char_def)
    show "escape_but done c = escape_char c0 \<or> escape_but done c \<noteq> [] \<and>
        (\<forall>x \<in> set (tl (escape_but done c)). x \<noteq> hd (escape_char c0)) \<and>
        (\<forall>t. \<not> starts_with (escape_but done c @ t) (escape_char c0))" for c
      using assms by (auto simp: escape_but_def escape_char_def lit_def)
  qed
  moreover have "(if escape_but done c = escape_char c0 then [c0] else escape_but done c)
      = escape_but (c0 # done) c" for c
    using assms by (auto simp: escape_but_def escape_char_def lit_def split: if_splits)
  ultimately show ?thesis by simp
qed

lemma replace_str_absent:
  assumes "p \<noteq> []" and "\<And>i. \<not> starts_with (drop i s) p"
  shows "replace_str p r s = s"
  using assms(2)
proof (induction s)
  case (Cons c s)
  from Cons.prems[of 0] have "\<not> starts_with (c # s) p" by simp
  moreover have "\<not> starts_with (drop i s) p" for i using Cons.prems[of "Suc i"] by simp
  ultimately show ?case using Cons.IH by (simp add: replace_str_step[OF assms(1)])
qed simp

lemma numeric_quote_stage:
  "replace_str (lit ''&#39;'') [39] (concat (map (escape_but [34]) s)) = concat (map (escape_but [34]) s)"
proof -
  have "replace_str (lit ''&#39;'') [39] (concat (map (escape_but [34]) s))
      = concat (map (\<lambda>c. if escape_but [34] c = lit ''&#39;'' then [39] else escape_but [34] c) s)"
    by (rule replace_str_tokens) (auto simp: escape_but_def escape_char_def lit_def)
  moreover have "(if escape_but [34] c = lit ''&#39;'' then [39] else escape_but [34] c) = escape_but [34] c" for c
    by (auto simp: escape_but_def escape_char_def lit_def)
  ultimately show ?thesis by simp
qed

lemma decode_escape_html: "decode_basic_html_entities (escape_html s) = s"
proof -
  have all: "concat (map (escape_but [38, 62, 60, 39, 34]) s) = s"
  proof -
    have "escape_but [38, 62, 60, 39, 34] c = [c]" for c
      by (auto simp: escape_but_def escape_char_def)
    then show ?thesis by (induction s) simp_all
  qed
  have "escape_but [] = escape_char" by (simp add: escape_but_def fun_eq_iff)
  then have "escape_html s = concat (map (escape_but []) s)" by (simp add: escape_html_def)
  then show ?thesis
    using escape_but_stage[of 34 "[]" s] numeric_quote_stage[of s] escape_but_stage[of 39 "[34]" s]
      escape_but_stage[of 60 "[39, 34]" s] escape_but_stage[of 62 "[60, 39, 34]" s]
      escape_but_stage[of 38 "[62, 60, 39, 34]" s] all
    by (simp add: decode_basic_html_entities_def escape_char_def lit_def)
qed

subsection \<open>Removing tags\<close>

lemma strip_tags_no_angle: "set (strip_tags_from b s) \<inter> {60, 62} = {}"
  by (induction b s rule: strip_tags_from.induct) auto

lemma strip_html_tags_id: "60 \<notin> set s \<Longrightarrow> 62 \<notin> set s \<Longrightarrow> strip_html_tags s = s"
  unfolding strip_html_tags_def by (induction s) auto

lemma find_ci_None:
  assumes "n \<noteq> []" and "\<forall>c \<in> set h. lower_char c \<noteq> lower_char (hd n)"
  shows "find_ascii_case_insensitive h n = None"
proof -
  have "\<not> eq_ignore_ascii_case (take (length n) (drop i h)) n" if "i < length h - length n + 1" "length n \<le> length h" for i
  proof -
    have i: "i < length h" using that assms(1) by (cases n) auto
    then have "take (length n) (drop i h) = h ! i # take (length n - 1) (drop (Suc i) h)"
      using assms(1) by (metis Cons_nth_drop_Suc length_0_conv length_greater_0_conv take_Cons')
    moreover have "lower_char (h ! i) \<noteq> lower_char (hd n)" using assms(2) i by simp
    ultimately show ?thesis
      using assms(1) by (cases n) (auto simp: eq_ignore_ascii_case_def to_ascii_lowercase_def)
  qed
  then show ?thesis
    using assms(1) by (auto simp: find_ascii_case_insensitive_def find_None_iff simp del: upt_Suc)
qed

lemma lower_char_eq_60: "lower_char c = 60 \<longleftrightarrow> c = 60"
  by (auto simp: lower_char_def is_ascii_upper_def)

lemma replace_anchors_id: "60 \<notin> set s \<Longrightarrow> replace_html_anchor_tags s = s"
proof -
  assume "60 \<notin> set s"
  then have "find_ascii_case_insensitive s (lit ''<a'') = None"
    by (intro find_ci_None) (auto simp: lit_def lower_char_eq_60 lower_char_eq_60[of 60, simplified])
  then show "replace_html_anchor_tags s = s" by (simp add: replace_html_anchor_tags.simps)
qed

lemma decode_entities_id: "38 \<notin> set s \<Longrightarrow> decode_basic_html_entities s = s"
proof -
  assume "38 \<notin> set s"
  then have "replace_str p r s = s" if "p \<noteq> []" "hd p = 38" for p r
    using that replace_str_skip[of p s r "[]"] by auto
  then show ?thesis by (simp add: decode_basic_html_entities_def lit_def)
qed

subsection \<open>Hosts\<close>

lemma split_on_set: "c \<in> set s \<Longrightarrow> \<not> P c \<Longrightarrow> \<exists>w \<in> set (split_on P s). c \<in> set w"
proof (induction s)
  case (Cons a s)
  then show ?case by (cases "split_on P s") (auto split: if_splits)
qed simp

lemma valid_hostname_chars:
  assumes "is_valid_hostname h" and "c \<in> set h"
  shows "is_ascii_alphanumeric c \<or> c = 45 \<or> c = 46"
proof (cases "c = 46")
  case False
  then obtain w where "w \<in> set (split_on ((=) 46) h)" "c \<in> set w"
    using split_on_set[OF assms(2), of "(=) 46"] by auto
  with assms(1) show ?thesis by (auto simp: is_valid_hostname_def is_valid_host_label_def list_all_iff)
qed simp

lemma split_on_snoc_sep: "P d \<Longrightarrow> \<exists>ws. ws \<noteq> [] \<and> split_on P (t @ [d]) = ws @ [[]]"
proof (induction t)
  case (Cons a t)
  then obtain w ws where "split_on P (t @ [d]) = (w # ws) @ [[]]" by (metis neq_Nil_conv)
  then show ?case by (auto intro: exI[of _ "[] # w # ws"] exI[of _ "(a # w) # ws"])
qed (auto intro: exI[of _ "[[]]"])

lemma valid_hostname_ends:
  assumes "is_valid_hostname h"
  shows "h \<noteq> []" and "hd h \<noteq> 46" and "last h \<noteq> 46"
proof -
  show ne: "h \<noteq> []" using assms by (auto simp: is_valid_hostname_def)
  have labels: "\<forall>w \<in> set (split_on ((=) 46) h). w \<noteq> []"
    using assms by (auto simp: is_valid_hostname_def is_valid_host_label_def list_all_iff)
  show "hd h \<noteq> 46"
  proof
    assume "hd h = 46"
    with ne obtain t where "h = 46 # t" by (cases h) auto
    with labels show False by simp
  qed
  show "last h \<noteq> 46"
  proof
    assume "last h = 46"
    with ne obtain t where "h = t @ [46]" by (metis append_butlast_last_id)
    moreover have "[] \<in> set (split_on ((=) 46) (t @ [46]))"
      using split_on_snoc_sep[of "(=) 46" 46 t] by auto
    ultimately show False using labels by blast
  qed
qed

lemma host_chars_plain:
  "is_ascii_alphanumeric c \<or> c = 45 \<or> c = 46 \<Longrightarrow>
     \<not> is_whitespace c \<and> c \<noteq> 47 \<and> c \<noteq> 63 \<and> c \<noteq> 35 \<and> c \<noteq> 64 \<and> c \<noteq> 58"
  by (auto simp: char_class_defs)

lemma trim_matches_id: "s \<noteq> [] \<Longrightarrow> hd s \<noteq> c \<Longrightarrow> last s \<noteq> c \<Longrightarrow> trim_matches c s = s"
  by (cases s) (auto simp: trim_matches_def trim_end_by_id)

lemma normalize_valid_host:
  assumes "is_valid_hostname h" and "to_ascii_lowercase h = h"
  shows "normalize_host_for_speech h =
      (if starts_with h (lit ''www.'') then normalize_host_for_speech h else Some h)"
    and "normalize_host_for_speech (lit ''www.'' @ h) = Some h"
proof -
  note ends = valid_hostname_ends[OF assms(1)]
  have plain: "\<forall>c \<in> set h. \<not> is_whitespace c"
    using valid_hostname_chars[OF assms(1)] host_chars_plain by blast
  then have "trim h = h" using ends(1) by (intro trim_id) auto
  with ends assms show "normalize_host_for_speech h =
      (if starts_with h (lit ''www.'') then normalize_host_for_speech h else Some h)"
    by (auto simp: normalize_host_for_speech_def trim_matches_id strip_prefix_def)
  have "trim (lit ''www.'' @ h) = lit ''www.'' @ h"
    by (rule trim_id) (use plain ends(1) in \<open>auto simp: lit_def is_whitespace_def\<close>)
  moreover have "trim_matches 46 (lit ''www.'' @ h) = lit ''www.'' @ h"
    by (rule trim_matches_id) (use ends in \<open>auto simp: lit_def\<close>)
  ultimately show "normalize_host_for_speech (lit ''www.'' @ h) = Some h"
    using assms by (auto simp: normalize_host_for_speech_def lit_def strip_prefix_def)
qed

text \<open>What may follow a host in an address: nothing, or a port, path, query or fragment.\<close>

definition address_tail :: "rstr \<Rightarrow> bool" where
  "address_tail t \<longleftrightarrow>
     t = [] \<or> hd t = 47 \<or> hd t = 63 \<or> hd t = 35 \<or>
     (\<exists>n r. t = 58 # show_nat n @ r \<and> (r = [] \<or> hd r = 47 \<or> hd r = 63 \<or> hd r = 35))"

lemma split_on_hd_append:
  "\<forall>c \<in> set h. \<not> P c \<Longrightarrow> t = [] \<or> P (hd t) \<Longrightarrow> hd (split_on P (h @ t)) = h"
  by (cases t) (auto simp: split_on_hd)

lemma host_part_host:
  assumes "\<forall>c \<in> set h. is_ascii_alphanumeric c \<or> c = 45 \<or> c = 46" and "address_tail t"
  shows "host_part (h @ t) = h"
proof -
  let ?P = "\<lambda>c :: nat. c = 47 \<or> c = 63 \<or> c = 35"
  have h: "\<forall>c \<in> set h. \<not> ?P c \<and> c \<noteq> 64 \<and> c \<noteq> 58" using assms(1) host_chars_plain by blast
  from assms(2) consider "t = [] \<or> ?P (hd t)" |
    n r where "t = 58 # show_nat n @ r" "r = [] \<or> ?P (hd r)"
    unfolding address_tail_def by blast
  then show ?thesis
  proof cases
    case 1
    with h have "hd (split_on ?P (h @ t)) = h" by (intro split_on_hd_append) auto
    moreover have "split_on ((=) 64) h = [h]" "split_on ((=) 58) h = [h]"
      using h by (auto intro!: split_on_no_sep)
    ultimately show ?thesis by (simp add: host_part_def Let_def)
  next
    case 2
    have digits: "\<forall>c \<in> set (show_nat n). \<not> ?P c \<and> c \<noteq> 64"
      by (intro ballI, drule show_nat_digits) (auto simp: is_ascii_digit_def)
    have "hd (split_on ?P ((h @ 58 # show_nat n) @ r)) = h @ 58 # show_nat n"
      by (rule split_on_hd_append) (use h digits 2(2) in auto)
    moreover have "split_on ((=) 64) (h @ 58 # show_nat n) = [h @ 58 # show_nat n]"
      using h digits by (intro split_on_no_sep) auto
    moreover have "split_on ((=) 58) (h @ 58 # show_nat n) = h # split_on ((=) 58) (show_nat n)"
      using h by (intro split_on_append_sep) auto
    ultimately show ?thesis using 2(1) by (simp add: host_part_def Let_def)
  qed
qed

lemma valid_host_part:
  "is_valid_hostname h \<Longrightarrow> address_tail t \<Longrightarrow> host_part (h @ t) = h"
  "is_valid_hostname h \<Longrightarrow> address_tail t \<Longrightarrow> host_part (lit ''www.'' @ h @ t) = lit ''www.'' @ h"
proof -
  assume h: "is_valid_hostname h" "address_tail t"
  note chars = valid_hostname_chars[OF h(1)]
  show "host_part (h @ t) = h" by (rule host_part_host) (use chars h(2) in auto)
  have "\<forall>c \<in> set (lit ''www.'' @ h). is_ascii_alphanumeric c \<or> c = 45 \<or> c = 46"
    using chars by (auto simp: lit_def char_class_defs)
  from host_part_host[OF this h(2)] show "host_part (lit ''www.'' @ h @ t) = lit ''www.'' @ h" by simp
qed

lemma hostname_speech_chars:
  assumes "is_valid_hostname h" and "c \<in> set (hostname_for_speech h)"
  shows "is_ascii_alphanumeric c \<or> c = 32"
proof -
  let ?j = "join (lit '' dot '') (map (replace_char 45 (lit '' dash '')) (split_on ((=) 46) h))"
  have "set (hostname_for_speech h) \<subseteq> {32} \<union> set ?j"
    using set_join[of "lit '' ''" "split_whitespace ?j"] split_whitespace_words[of _ ?j]
    by (fastforce simp: hostname_for_speech_def collapse_whitespace_def lit_def)
  moreover have "set ?j \<subseteq> set (lit '' dot '') \<union> set (lit '' dash '') \<union> {c. is_ascii_alphanumeric c}"
  proof -
    have "x \<in> set (lit '' dash '') \<or> is_ascii_alphanumeric x"
      if "w \<in> set (split_on ((=) 46) h)" "x \<in> set (replace_char 45 (lit '' dash '') w)" for w x
      using that assms(1) set_replace_char[of 45 "lit '' dash ''" w]
      by (auto simp: is_valid_hostname_def is_valid_host_label_def list_all_iff)
    then show ?thesis
      using set_join[of "lit '' dot ''" "map (replace_char 45 (lit '' dash '')) (split_on ((=) 46) h)"]
      by fastforce
  qed
  ultimately show ?thesis using assms(2) by (auto simp: lit_def char_class_defs)
qed

lemma normalize_host_valid: "normalize_host_for_speech s = Some h \<Longrightarrow> is_valid_hostname h"
  by (auto simp: normalize_host_for_speech_def Let_def split: if_splits)

lemma extract_url_host_valid: "extract_url_host s = Some h \<Longrightarrow> is_valid_hostname h"
  by (auto simp: extract_url_host_def parse_host_from_url_def parse_host_from_bare_token_def Let_def
      dest: normalize_host_valid split: option.splits if_splits)

subsection \<open>Addresses\<close>

lemma prefix_inside:
  assumes "xs @ ys = p @ r" and "a \<in> set xs" and "a \<notin> set p"
  shows "set p \<subseteq> set xs"
  using assms by (auto simp: append_eq_append_conv2)

lemma valid_host_no_scheme:
  assumes "is_valid_hostname h" and "58 \<in> set p" and "46 \<notin> set p"
  shows "\<not> starts_with (to_ascii_lowercase (h @ t)) p"
proof
  assume "starts_with (to_ascii_lowercase (h @ t)) p"
  then obtain r where r: "map lower_char h @ map lower_char t = p @ r"
    by (auto simp: starts_with_iff to_ascii_lowercase_def)
  have "46 \<in> set (map lower_char h)"
    using assms(1) by (force simp: is_valid_hostname_def lower_char_def is_ascii_upper_def)
  from prefix_inside[OF r this assms(3)] assms(2) obtain c where c: "c \<in> set h" "lower_char c = 58" by auto
  then have "c = 58" by (auto simp: lower_char_def is_ascii_upper_def split: if_splits)
  with c valid_hostname_chars[OF assms(1)] host_chars_plain show False by blast
qed

definition plain_host :: "rstr \<Rightarrow> bool" where
  "plain_host h \<longleftrightarrow> is_valid_hostname h \<and> to_ascii_lowercase h = h \<and> \<not> starts_with h (lit ''www.'')"

lemma extract_with_scheme:
  assumes "plain_host h" and "address_tail t" and "scheme \<in> {lit ''http://'', lit ''https://'', lit ''HTTP://'', lit ''HTTPS://''}"
  shows "extract_url_host (scheme @ h @ t) = Some h"
    and "extract_url_host (scheme @ lit ''www.'' @ h @ t) = Some h"
proof -
  have "parse_host_from_url (scheme @ s) = normalize_host_for_speech (host_part s)" for s
    using assms(3) by (auto simp: parse_host_from_url_def strip_prefix_def lit_def)
  moreover have "extract_url_host (scheme @ s) = parse_host_from_url (scheme @ s)" for s
    using assms(3) by (auto simp: extract_url_host_def to_ascii_lowercase_def lit_def lower_char_def is_ascii_upper_def)
  moreover have "is_valid_hostname h" "to_ascii_lowercase h = h" "\<not> starts_with h (lit ''www.'')"
    using assms(1) by (simp_all add: plain_host_def)
  note this valid_host_part[OF this(1) assms(2)] normalize_valid_host[OF this(1,2)]
  ultimately show "extract_url_host (scheme @ h @ t) = Some h"
    and "extract_url_host (scheme @ lit ''www.'' @ h @ t) = Some h"
    by simp_all
qed

lemma extract_without_scheme:
  assumes "plain_host h" and "address_tail t"
  shows "extract_url_host (lit ''www.'' @ h @ t) = Some h"
    and "find_sub (h @ t) (lit ''://'') = None \<Longrightarrow> extract_url_host (h @ t) = Some h"
proof -
  have h: "is_valid_hostname h" "to_ascii_lowercase h = h" "\<not> starts_with h (lit ''www.'')"
    using assms(1) by (simp_all add: plain_host_def)
  note part = valid_host_part[OF h(1) assms(2)] and norm = normalize_valid_host[OF h(1,2)]
  have "parse_host_from_url (lit ''https://'' @ lit ''www.'' @ h @ t)
      = normalize_host_for_speech (host_part (lit ''www.'' @ h @ t))"
    by (auto simp: parse_host_from_url_def strip_prefix_def lit_def)
  with part norm show "extract_url_host (lit ''www.'' @ h @ t) = Some h"
    by (simp add: extract_url_host_def to_ascii_lowercase_def lit_def lower_char_def is_ascii_upper_def)
  have no: "\<not> starts_with (to_ascii_lowercase (h @ t)) (lit ''http://'')"
    "\<not> starts_with (to_ascii_lowercase (h @ t)) (lit ''https://'')"
    by (rule valid_host_no_scheme[OF h(1)]; simp add: lit_def)+
  show "extract_url_host (h @ t) = Some h" if bare: "find_sub (h @ t) (lit ''://'') = None"
  proof (cases "starts_with (to_ascii_lowercase (h @ t)) (lit ''www.'')")
    case False
    with no bare part norm h(3) show ?thesis
      by (simp add: extract_url_host_def parse_host_from_bare_token_def)
  next
    case True
    have "starts_with h (lit ''www.'')"
    proof -
      from True obtain r where r: "map lower_char h @ map lower_char t = lit ''www.'' @ r"
        by (auto simp: starts_with_iff to_ascii_lowercase_def)
      have lower: "map lower_char h = h" using h(2) by (simp add: to_ascii_lowercase_def)
      show ?thesis
      proof (cases "length (lit ''www.'') \<le> length h")
        case True
        with r lower show ?thesis
          by (metis append_eq_append_conv_if starts_with_iff append_take_drop_id length_map)
      next
        case False
        with r lower have "h @ map lower_char t = lit ''www.'' @ r" by simp
        then obtain u where u: "h @ u = lit ''www.'' \<or> h = lit ''www.'' @ u"
          by (auto simp: append_eq_append_conv2)
        with False have "h @ u = lit ''www.''" "u \<noteq> []" by auto
        moreover have "46 \<in> set h" using h(1) by (simp add: is_valid_hostname_def)
        ultimately show ?thesis
          by (auto simp: lit_def append_eq_Cons_conv)
      qed
    qed
    with h(3) show ?thesis by simp
  qed
qed

subsection \<open>Properties\<close>

text \<open>C16. Decoding the five basic HTML entities undoes escaping, for every text: a text that
  itself contains entities is not decoded twice.\<close>

theorem entities_round_trip: "decode_basic_html_entities (escape_html s) = s"
  by (rule decode_escape_html)

text \<open>The host of a link is recovered from every form of address the code knows: with a
  scheme in lower or upper case, with or without \<open>www.\<close>, or bare, and followed by nothing, a
  port, a path, a query or a fragment.\<close>

theorem url_host_recovered:
  assumes "plain_host h" and "address_tail t"
  shows "(\<forall>scheme \<in> {lit ''http://'', lit ''https://'', lit ''HTTP://'', lit ''HTTPS://''}.
      extract_url_host (scheme @ h @ t) = Some h \<and>
      extract_url_host (scheme @ lit ''www.'' @ h @ t) = Some h) \<and>
    extract_url_host (lit ''www.'' @ h @ t) = Some h \<and>
    (find_sub (h @ t) (lit ''://'') = None \<longrightarrow> extract_url_host (h @ t) = Some h)"
  using extract_with_scheme[OF assms] extract_without_scheme[OF assms] by blast

lemma plain_host_example: "plain_host (lit ''ex-1.com'')"
  by (simp add: plain_host_def is_valid_hostname_def is_valid_host_label_def lit_def
      to_ascii_lowercase_def char_class_defs)

lemma url_host_recovered_witness:
  "extract_url_host (lit ''https://ex-1.com/a?b'') = Some (lit ''ex-1.com'')"
  using url_host_recovered[OF plain_host_example, of "lit ''/a?b''"]
  by (simp add: address_tail_def lit_def)

text \<open>C32. Whatever is recognised as a link, the host that is spoken for it consists of letters,
  digits and spaces only: every dot and dash is spoken as a word.\<close>

theorem spoken_host_is_speakable:
  assumes "extract_url_host token = Some h" and "c \<in> set (hostname_for_speech h)"
  shows "is_ascii_alphanumeric c \<or> c = 32"
  using hostname_speech_chars[OF extract_url_host_valid[OF assms(1)] assms(2)] .

lemma spoken_host_is_speakable_witness:
  "hostname_for_speech (lit ''ex-1.com'') = lit ''ex dash 1 dot com'' \<and> is_ascii_alphanumeric 101"
proof -
  have "hostname_for_speech (lit ''ex-1.com'') = lit ''ex dash 1 dot com''"
    by (simp add: hostname_for_speech_def lit_def replace_char_def collapse_whitespace_def
        split_whitespace_def is_whitespace_def)
  moreover have "extract_url_host (lit ''www.ex-1.com'') = Some (lit ''ex-1.com'')"
    using extract_without_scheme(1)[OF plain_host_example, of "[]"]
    by (simp add: address_tail_def lit_def)
  ultimately show ?thesis
    using spoken_host_is_speakable[of "lit ''www.ex-1.com''" "lit ''ex-1.com''" 101] by (simp add: lit_def)
qed


subsection \<open>Whole messages\<close>

definition sender_for_speech :: "rstr option \<Rightarrow> rstr" where
  "sender_for_speech sender =
     (case sender of None \<Rightarrow> lit ''Someone'' | Some n \<Rightarrow> if trim n = [] then lit ''Someone'' else trim n)"

lemma analyze_plain:
  assumes "60 \<notin> set raw" and "62 \<notin> set raw" and "38 \<notin> set raw"
  shows "decode_basic_html_entities (strip_html_tags (replace_html_anchor_tags raw)) = raw"
  using assms by (simp add: replace_anchors_id strip_html_tags_id decode_entities_id)

lemma normalize_token_None: "normalize_text_token_for_tts w = (t, None) \<Longrightarrow> t = w"
  by (auto simp: normalize_text_token_for_tts_def Let_def split: prod.splits option.splits if_splits)

lemma map_normalize_no_links:
  "\<forall>w \<in> set ws. snd (normalize_text_token_for_tts w) = None \<Longrightarrow>
     map normalize_text_token_for_tts ws = map (\<lambda>w. (w, None)) ws"
  by (induction ws) (auto simp: prod_eq_iff intro: normalize_token_None)

lemma split_token_affixes_plain:
  assumes "w \<noteq> []" and "\<not> is_leading_punctuation (hd w)" and "\<not> is_trailing_punctuation (last w)"
  shows "split_token_affixes w = ([], w, [])"
proof -
  have "find_char (\<lambda>c. \<not> is_leading_punctuation c) w = Some 0"
    using assms by (cases w) auto
  moreover have "find_char (\<lambda>c. \<not> is_trailing_punctuation c) (rev w) = Some 0"
    using assms by (cases w rule: rev_cases) auto
  ultimately show ?thesis using assms(1) by (simp add: split_token_affixes_def)
qed

lemma split_whitespace_single:
  assumes "w \<noteq> []" and "\<forall>c \<in> set w. \<not> is_whitespace c"
  shows "split_whitespace w = [w]" and "split_whitespace (32 # w @ [32]) = [w]"
proof -
  show "split_whitespace w = [w]"
    using assms by (simp add: split_whitespace_def split_on_no_sep)
  have "is_whitespace 32" by (simp add: is_whitespace_def)
  then show "split_whitespace (32 # w @ [32]) = [w]"
    using assms by (simp add: split_whitespace_def split_on_cons_sep split_on_append_sep)
qed

text \<open>An address that can stand alone in a message or in the \<open>href\<close> of an anchor.\<close>

definition link_address :: "rstr \<Rightarrow> bool" where
  "link_address u \<longleftrightarrow>
     u \<noteq> [] \<and> \<not> is_leading_punctuation (hd u) \<and> \<not> is_trailing_punctuation (last u) \<and>
     (\<forall>c \<in> set u. \<not> is_whitespace c \<and> c \<noteq> 60 \<and> c \<noteq> 62 \<and> c \<noteq> 38 \<and> c \<noteq> 34)"

lemma analyze_link:
  assumes "link_address u" and "extract_url_host u = Some h"
    and "split_whitespace (decode_basic_html_entities (strip_html_tags (replace_html_anchor_tags raw))) = [u]"
  shows "text_message_phrase sender raw =
    sender_for_speech sender @ lit '' posted a link to '' @ hostname_for_speech h"
proof -
  have "split_token_affixes u = ([], u, [])"
    using assms(1) by (intro split_token_affixes_plain) (auto simp: link_address_def)
  then have "normalize_text_token_for_tts u = (hostname_for_speech h, Some (hostname_for_speech h))"
    using assms(1,2) by (simp add: normalize_text_token_for_tts_def link_address_def Let_def)
  with assms(3) show ?thesis
    by (simp add: text_message_phrase_def analyze_text_message_for_tts_def sender_for_speech_def
        map_filter_simps)
qed


lemma find_char_append:
  "\<forall>c \<in> set w. \<not> P c \<Longrightarrow> P d \<Longrightarrow> find_char P (w @ d # s) = Some (length w)"
  by (induction w) auto

lemma find_ci_append:
  assumes "n \<noteq> []" and "\<forall>c \<in> set w. lower_char c \<noteq> lower_char (hd n)"
  shows "find_ascii_case_insensitive (w @ n @ r) n = Some (length w)"
proof -
  let ?P = "\<lambda>i. eq_ignore_ascii_case (take (length n) (drop i (w @ n @ r))) n"
  let ?k = "length (w @ n @ r) - length n + 1"
  have "\<not> ?P j" if "j < length w" for j
  proof -
    from that have "drop j (w @ n @ r) = w ! j # drop (Suc j) w @ n @ r"
      by (metis Cons_nth_drop_Suc append_Cons drop_append less_imp_le_nat diff_is_0_eq' drop0)
    with that assms show ?thesis
      by (cases n) (auto simp: eq_ignore_ascii_case_def to_ascii_lowercase_def)
  qed
  moreover have "?P (length w)" by (simp add: eq_ignore_ascii_case_def)
  ultimately have "List.find ?P [0..<?k] = Some (length w)"
    by (auto simp: find_Some_iff simp del: upt_Suc intro!: exI[of _ "length w"])
  with assms(1) show ?thesis by (simp add: find_ascii_case_insensitive_def)
qed

definition html_link :: "rstr \<Rightarrow> rstr \<Rightarrow> rstr" where
  "html_link u inner = lit ''<a href='' @ [34] @ u @ [34, 62] @ inner @ lit ''</a>''"

lemma parse_html_link:
  assumes "34 \<notin> set u" and "38 \<notin> set u"
  shows "parse_anchor_href (lit ''<a href='' @ [34] @ u @ [34, 62]) = Some u"
proof -
  have "find_sub (to_ascii_lowercase (lit ''<a href='' @ [34] @ u @ [34, 62])) (lit ''href'') = Some 3"
    by (simp add: lit_def to_ascii_lowercase_def lower_char_def is_ascii_upper_def)
  moreover have "trim_start (drop (3 + 4) (lit ''<a href='' @ [34] @ u @ [34, 62])) = 61 # 34 # u @ [34, 62]"
    by (simp add: lit_def trim_start_def is_whitespace_def)
  moreover have "trim_start (34 # u @ [34, 62]) = 34 # u @ [34, 62]"
    by (simp add: trim_start_def is_whitespace_def)
  moreover have "find_char ((=) 34) (u @ [34, 62]) = Some (length u)"
    using assms(1) find_char_append[of u "(=) 34" 34 "[62]"] by auto
  ultimately show ?thesis by (simp add: parse_anchor_href_def decode_entities_id assms(2))
qed

lemma replace_html_link:
  assumes "link_address u" and "60 \<notin> set inner"
  shows "replace_html_anchor_tags (html_link u inner) = 32 # u @ [32]"
proof -
  have u: "34 \<notin> set u" "38 \<notin> set u" "62 \<notin> set u" using assms(1) by (auto simp: link_address_def)
  have lc: "\<forall>c \<in> set inner. lower_char c \<noteq> lower_char (hd (lit ''</a>''))"
    using assms(2) by (auto simp: lit_def lower_char_eq_60 lower_char_eq_60[of 60, simplified])
  have open_at: "find_ascii_case_insensitive (html_link u inner) (lit ''<a'') = Some 0"
    using find_ci_append[of "lit ''<a''" "[]" "lit '' href='' @ [34] @ u @ [34, 62] @ inner @ lit ''</a>''"]
    by (simp add: html_link_def lit_def)
  have open_end: "find_char ((=) 62) (html_link u inner) = Some (length u + 10)"
    using find_char_append[of "lit ''<a href='' @ [34] @ u @ [34]" "(=) 62" 62 "inner @ lit ''</a>''"] u(3)
    by (auto simp: html_link_def lit_def)
  have "html_link u inner = (lit ''<a href='' @ [34] @ u @ [34, 62]) @ inner @ lit ''</a>''"
    by (simp add: html_link_def)
  moreover have "length (lit ''<a href='' @ [34] @ u @ [34, 62]) = 11 + length u" by (simp add: lit_def)
  moreover have "take (length p) (p @ q) = p" "drop (length p) (p @ q) = q" for p q :: rstr by simp_all
  note this[of "lit ''<a href='' @ [34] @ u @ [34, 62]" "inner @ lit ''</a>''"]
  ultimately have open_tag: "take (11 + length u) (html_link u inner) = lit ''<a href='' @ [34] @ u @ [34, 62]"
    and inner: "drop (11 + length u) (html_link u inner) = inner @ lit ''</a>''" by simp_all
  have close: "find_ascii_case_insensitive (inner @ lit ''</a>'') (lit ''</a>'') = Some (length inner)"
    using find_ci_append[of "lit ''</a>''" inner "[]"] lc by simp
  moreover have "replace_html_anchor_tags [] = []" by (simp add: replace_html_anchor_tags.simps)
  moreover have "html_link u inner \<noteq> []" by (simp add: html_link_def)
  moreover have "drop (length inner + 4) (inner @ lit ''</a>'') = []" by (simp add: lit_def)
  ultimately show ?thesis
    by (subst replace_html_anchor_tags.simps) (simp add: Let_def open_at open_end open_tag inner close parse_html_link[OF u(1,2), simplified])
qed

text \<open>C17. A message that is nothing but one link, bare or as an HTML anchor whatever its visible
  text, is announced by the host of the link alone.\<close>

theorem link_message_names_host:
  assumes "link_address u" and "extract_url_host u = Some h" and "60 \<notin> set inner"
  shows "text_message_phrase sender u =
      sender_for_speech sender @ lit '' posted a link to '' @ hostname_for_speech h \<and>
    text_message_phrase sender (html_link u inner) =
      sender_for_speech sender @ lit '' posted a link to '' @ hostname_for_speech h"
proof (rule conjI)
  from assms(1) have u: "u \<noteq> []" "\<forall>c \<in> set u. \<not> is_whitespace c" "60 \<notin> set u" "62 \<notin> set u" "38 \<notin> set u"
    by (auto simp: link_address_def)
  show "text_message_phrase sender u =
      sender_for_speech sender @ lit '' posted a link to '' @ hostname_for_speech h"
    by (rule analyze_link[OF assms(1,2)]) (simp add: analyze_plain u split_whitespace_single)
  have "decode_basic_html_entities (strip_html_tags (32 # u @ [32])) = 32 # u @ [32]"
    using u by (simp add: strip_html_tags_id decode_entities_id)
  then show "text_message_phrase sender (html_link u inner) =
      sender_for_speech sender @ lit '' posted a link to '' @ hostname_for_speech h"
    by (intro analyze_link[OF assms(1,2)])
      (simp add: replace_html_link assms split_whitespace_single u)
qed

lemma link_message_names_host_witness:
  "text_message_phrase (Some (lit ''Bo'')) (html_link (lit ''www.ex-1.com/a'') (lit ''click''))
    = lit ''Bo posted a link to ex dash 1 dot com''"
proof -
  have "extract_url_host (lit ''www.ex-1.com/a'') = Some (lit ''ex-1.com'')"
    using extract_without_scheme(1)[OF plain_host_example, of "lit ''/a''"]
    by (simp add: address_tail_def lit_def)
  moreover have "link_address (lit ''www.ex-1.com/a'')"
    by (simp add: link_address_def lit_def is_leading_punctuation_def is_trailing_punctuation_def
        is_whitespace_def)
  ultimately show ?thesis
    using link_message_names_host[of "lit ''www.ex-1.com/a''" "lit ''ex-1.com''" "lit ''click''" "Some (lit ''Bo'')"]
    by (simp add: sender_for_speech_def hostname_for_speech_def lit_def replace_char_def
        collapse_whitespace_def split_whitespace_def trim_def trim_start_def trim_end_by_def
        is_whitespace_def)
qed

text \<open>C18. A message without markup, entities or links is spoken word for word, with its white space
  collapsed; one without a word is announced as a message only.\<close>

theorem plain_message_spoken_verbatim:
  assumes "60 \<notin> set raw" and "62 \<notin> set raw" and "38 \<notin> set raw"
    and "\<forall>w \<in> set (split_whitespace raw). snd (normalize_text_token_for_tts w) = None"
  shows "text_message_phrase sender raw = sender_for_speech sender @
    (if collapse_whitespace raw = [] then lit '' sent a message''
     else lit '' says: '' @ collapse_whitespace raw)"
proof -
  have idem: "collapse_whitespace (join (lit '' '') (split_whitespace raw)) = collapse_whitespace raw"
    using collapse_whitespace_idem by (simp add: collapse_whitespace_def)
  have "normalized_message (analyze_text_message_for_tts raw) = collapse_whitespace raw"
    and "link_hosts_for_speech (analyze_text_message_for_tts raw) = []"
    unfolding analyze_text_message_for_tts_def Let_def analyze_plain[OF assms(1-3)]
      map_normalize_no_links[OF assms(4)]
    by (simp_all add: comp_def idem map_filter_simps List.map_filter_def)
  then show ?thesis by (simp add: text_message_phrase_def sender_for_speech_def Let_def)
qed

lemma plain_message_spoken_verbatim_witness:
  "text_message_phrase None (lit ''hi  all'') = lit ''Someone says: hi all''"
proof -
  have "normalize_text_token_for_tts (lit ''hi'') = (lit ''hi'', None)"
    "normalize_text_token_for_tts (lit ''all'') = (lit ''all'', None)"
    by (simp_all add: lit_def normalize_text_token_for_tts_def split_token_affixes_def Let_def
        is_leading_punctuation_def is_trailing_punctuation_def extract_url_host_def
        to_ascii_lowercase_def parse_host_from_bare_token_def parse_host_from_url_def host_part_def
        normalize_host_for_speech_def trim_def trim_start_def trim_end_by_def trim_matches_def
        strip_prefix_def is_valid_hostname_def is_valid_host_label_def char_class_defs is_whitespace_def lower_char_def)
  then show ?thesis
    using plain_message_spoken_verbatim[of "lit ''hi  all''" None]
    by (simp add: lit_def split_whitespace_def is_whitespace_def sender_for_speech_def
        collapse_whitespace_def)
qed

text \<open>The scheme is compared in any case, but removed only in lower or upper case.\<close>

lemma mixed_case_scheme_is_no_link:
  "extract_url_host (lit ''Http://ex-1.com'') = None \<and>
   extract_url_host (lit ''http://ex-1.com'') = Some (lit ''ex-1.com'')"
  by (simp add: lit_def normalize_text_token_for_tts_def split_token_affixes_def Let_def
        is_leading_punctuation_def is_trailing_punctuation_def extract_url_host_def
        to_ascii_lowercase_def parse_host_from_bare_token_def parse_host_from_url_def host_part_def
        normalize_host_for_speech_def trim_def trim_start_def trim_end_by_def trim_matches_def
        strip_prefix_def is_valid_hostname_def is_valid_host_label_def char_class_defs is_whitespace_def lower_char_def)

text \<open>Any tag whose name starts with \<open>a\<close> is taken for an anchor.\<close>

lemma abbreviation_taken_for_anchor:
  "replace_html_anchor_tags (lit ''<abbr href=x>y</abbr> <a>z</a>'') = lit '' x ''"
  by (simp add: replace_html_anchor_tags.simps find_ascii_case_insensitive_def eq_ignore_ascii_case_def
      to_ascii_lowercase_def lower_char_def is_ascii_upper_def parse_anchor_href_def lit_def trim_start_def
      is_whitespace_def decode_entities_id upt_conv_Cons)

end
