(* ===== verification/Floats.thy ===== *)
theory Floats
  imports Complex_Main Prelude
begin

text \<open>
  Binary floating point as the audio code uses it: \<open>f32\<close> and \<open>f64\<close> values that are finite and
  normal, as rational numbers, with the result of an operation rounded to the nearest value of the
  type, ties to even.
\<close>

definition round_half_even :: "rat \<Rightarrow> int" where
  "round_half_even x =
     (let f = \<lfloor>x\<rfloor>; d = x - of_int f
      in if d < 1 / 2 then f else if d > 1 / 2 then f + 1 else if even f then f else f + 1)"

lemma round_half_even_int [simp]: "round_half_even (of_int n) = n"
  by (simp add: round_half_even_def)

lemma round_half_even_error: "\<bar>of_int (round_half_even x) - x\<bar> \<le> 1 / 2"
proof -
  define f where "f = (of_int \<lfloor>x\<rfloor> :: rat)"
  have "f \<le> x" "x < f + 1" unfolding f_def by linarith+
  moreover have "of_int (round_half_even x) = (if x - f < 1 / 2 then f else if 1 / 2 < x - f then f + 1
      else if even \<lfloor>x\<rfloor> then f else f + 1)"
    by (simp add: round_half_even_def Let_def f_def)
  ultimately show ?thesis by (auto simp: abs_le_iff)
qed

text \<open>Rounding to \<open>p + 1\<close> significant bits.\<close>

function round_bits :: "nat \<Rightarrow> rat \<Rightarrow> rat" where
  "round_bits p x =
     (if x \<le> 0 then 0
      else if x < 2 ^ p then round_bits p (2 * x) / 2
      else if x < 2 * 2 ^ p then of_int (round_half_even x)
      else 2 * round_bits p (x / 2))"
  by pat_completeness auto

lemma nat_floor_decreases: "2 \<le> (x :: rat) \<Longrightarrow> nat \<lfloor>x / 2\<rfloor> < nat \<lfloor>x\<rfloor>"
proof -
  assume x: "2 \<le> x"
  have "of_int \<lfloor>x / 2\<rfloor> \<le> x / 2" "x < of_int \<lfloor>x\<rfloor> + 1" by linarith+
  with x have "(of_int \<lfloor>x / 2\<rfloor> :: rat) < of_int \<lfloor>x\<rfloor>" by linarith
  moreover have "0 < \<lfloor>x\<rfloor>" using x by simp
  ultimately show ?thesis by linarith
qed

lemma nat_ceiling_decreases: "1 < (y :: rat) \<Longrightarrow> nat \<lceil>y / 2\<rceil> < nat \<lceil>y\<rceil>"
proof -
  assume y: "1 < y"
  then have k: "2 \<le> \<lceil>y\<rceil>" by linarith
  have "y \<le> of_int \<lceil>y\<rceil>" by linarith
  moreover from k have "(2 :: rat) \<le> of_int \<lceil>y\<rceil>" by linarith
  ultimately have "y / 2 \<le> of_int \<lceil>y\<rceil> - 1" by linarith
  then have "y / 2 \<le> of_int (\<lceil>y\<rceil> - 1)" by simp
  then have "\<lceil>y / 2\<rceil> \<le> \<lceil>y\<rceil> - 1" by (simp only: ceiling_le_iff)
  with k show ?thesis by linarith
qed

termination round_bits
proof (relation "measure (\<lambda>(p, x). if x < 2 ^ p then nat \<lceil>2 ^ p / x\<rceil>
    else if x < 2 * 2 ^ p then 0 else nat \<lfloor>x\<rfloor>)")
  fix p and x :: rat
  assume x: "\<not> x \<le> 0" "x < 2 ^ p"
  then have "1 < 2 ^ p / x" by (simp add: field_simps)
  from nat_ceiling_decreases[OF this] this x
  show "((p, 2 * x), p, x) \<in> measure (\<lambda>(p, x). if x < 2 ^ p then nat \<lceil>2 ^ p / x\<rceil>
      else if x < 2 * 2 ^ p then 0 else nat \<lfloor>x\<rfloor>)"
    by (auto simp: mult.commute)
next
  fix p and x :: rat
  assume x: "\<not> x \<le> 0" "\<not> x < 2 ^ p" "\<not> x < 2 * 2 ^ p"
  have "(1 :: rat) \<le> 2 ^ p" by simp
  with x(3) have "2 \<le> x" by linarith
  with x show "((p, x / 2), p, x) \<in> measure (\<lambda>(p, x). if x < 2 ^ p then nat \<lceil>2 ^ p / x\<rceil>
      else if x < 2 * 2 ^ p then 0 else nat \<lfloor>x\<rfloor>)"
    using nat_floor_decreases[of x] by auto
qed auto

declare round_bits.simps [simp del]

lemma round_bits_cases:
  "x \<le> 0 \<Longrightarrow> round_bits p x = 0"
  "0 < x \<Longrightarrow> x < 2 ^ p \<Longrightarrow> round_bits p x = round_bits p (2 * x) / 2"
  "2 ^ p \<le> x \<Longrightarrow> x < 2 * 2 ^ p \<Longrightarrow> round_bits p x = of_int (round_half_even x)"
  "2 * 2 ^ p \<le> x \<Longrightarrow> round_bits p x = 2 * round_bits p (x / 2)"
proof -
  have pos: "(0 :: rat) < 2 ^ p" by simp
  show "x \<le> 0 \<Longrightarrow> round_bits p x = 0" by (subst round_bits.simps) simp
  show "0 < x \<Longrightarrow> x < 2 ^ p \<Longrightarrow> round_bits p x = round_bits p (2 * x) / 2"
    by (subst round_bits.simps) simp
  show "2 ^ p \<le> x \<Longrightarrow> x < 2 * 2 ^ p \<Longrightarrow> round_bits p x = of_int (round_half_even x)"
    using pos by (subst round_bits.simps) auto
  show "round_bits p x = 2 * round_bits p (x / 2)" if "2 * 2 ^ p \<le> x"
  proof -
    from that pos have "\<not> x \<le> 0" "\<not> x < 2 ^ p" "\<not> x < 2 * 2 ^ p" by linarith+
    then show ?thesis by (subst round_bits.simps) simp
  qed
qed

text \<open>Rounding keeps integers of at most \<open>p + 1\<close> bits and is otherwise accurate to half a unit in the
  last place.\<close>

lemma round_bits_int: "0 \<le> n \<Longrightarrow> n \<le> 2 * 2 ^ p \<Longrightarrow> round_bits p (of_int n) = of_int n"
proof (induction p "of_int n :: rat" arbitrary: n rule: round_bits.induct)
  case (1 p)
  have pos: "(0 :: int) < 2 ^ p" by simp
  consider "n = 0" | "0 < n" "n < 2 ^ p" | "2 ^ p \<le> n" "n < 2 * 2 ^ p" | "n = 2 * 2 ^ p"
    using 1(3,4) by linarith
  then show ?case
  proof cases
    case 2
    then have lt: "(of_int n :: rat) < 2 ^ p" by (metis of_int_less_iff of_int_numeral of_int_power)
    with 2 1(1)[of "2 * n"] have "round_bits p (of_int (2 * n)) = of_int (2 * n)" by simp
    with 2 lt show ?thesis by (simp add: round_bits_cases(2))
  next
    case 3
    then have "(2 :: rat) ^ p \<le> of_int n" "(of_int n :: rat) < 2 * 2 ^ p"
      by (metis of_int_le_iff of_int_numeral of_int_power, metis of_int_less_iff of_int_mult of_int_numeral of_int_power)
    then show ?thesis by (simp add: round_bits_cases(3))
  next
    case 4
    have "round_bits p (of_int (2 ^ p)) = of_int (2 ^ p)"
      using round_half_even_int[of "2 ^ p"] by (subst round_bits_cases(3)) simp_all
    with 4 show ?thesis by (simp add: round_bits_cases(4))
  qed (simp add: round_bits_cases(1))
qed

lemma round_bits_error: "0 < x \<Longrightarrow> \<bar>round_bits p x - x\<bar> \<le> x / (2 * 2 ^ p)"
proof (induction p x rule: round_bits.induct)
  case (1 p x)
  consider "x < 2 ^ p" | "2 ^ p \<le> x" "x < 2 * 2 ^ p" | "2 * 2 ^ p \<le> x" by linarith
  then show ?case
  proof cases
    case 1
    then have "round_bits p x = round_bits p (2 * x) / 2" using "1.prems" by (simp add: round_bits_cases(2))
    moreover have "\<bar>round_bits p (2 * x) - 2 * x\<bar> \<le> 2 * x / (2 * 2 ^ p)" using 1 "1.IH"(1) "1.prems" by simp
    moreover have "2 * x / (2 * 2 ^ p) = 2 * (x / (2 * 2 ^ p))" by simp
    ultimately show ?thesis by linarith
  next
    case 2
    have "round_bits p x = of_int (round_half_even x)" using 2 by (simp add: round_bits_cases(3))
    moreover have "1 / 2 \<le> x / (2 * 2 ^ p)" using 2 by (simp add: field_simps)
    ultimately show ?thesis using round_half_even_error[of x] by linarith
  next
    case 3
    then have "round_bits p x = 2 * round_bits p (x / 2)" by (simp add: round_bits_cases(4))
    moreover have "\<bar>round_bits p (x / 2) - x / 2\<bar> \<le> x / 2 / (2 * 2 ^ p)" using 3 "1.IH"(2) "1.prems" by simp
    moreover have "x / 2 / (2 * 2 ^ p) = x / (2 * 2 ^ p) / 2" by simp
    ultimately show ?thesis by linarith
  qed
qed

definition f32_round :: "rat \<Rightarrow> rat" where
  "f32_round x = (if x < 0 then - round_bits 23 (- x) else round_bits 23 x)"

definition f64_round :: "rat \<Rightarrow> rat" where
  "f64_round x = (if x < 0 then - round_bits 52 (- x) else round_bits 52 x)"

lemma f32_round_int: "\<bar>n\<bar> \<le> 16777216 \<Longrightarrow> f32_round (of_int n) = of_int n"
  using round_bits_int[of n 23] round_bits_int[of "- n" 23] by (auto simp: f32_round_def)

lemma f32_round_error: "\<bar>f32_round x - x\<bar> \<le> \<bar>x\<bar> / 16777216"
proof -
  consider "x < 0" | "x = 0" | "0 < x" by linarith
  then show ?thesis
    by cases (use round_bits_error[of x 23] round_bits_error[of "- x" 23] in
        \<open>auto simp: f32_round_def round_bits_cases(1) abs_le_iff\<close>)
qed

lemma f32_round_error_pos: "0 < x \<Longrightarrow> \<bar>f32_round x - x\<bar> \<le> x / 16777216"
  using f32_round_error[of x] by simp

lemma f64_round_error: "\<bar>f64_round x - x\<bar> \<le> \<bar>x\<bar> / 9007199254740992"
proof -
  consider "x < 0" | "x = 0" | "0 < x" by linarith
  then show ?thesis
    by cases (use round_bits_error[of x 52] round_bits_error[of "- x" 52] in
        \<open>auto simp: f64_round_def round_bits_cases(1) abs_le_iff\<close>)
qed

lemma f64_round_int: "\<bar>n\<bar> \<le> 9007199254740992 \<Longrightarrow> f64_round (of_int n) = of_int n"
  using round_bits_int[of n 52] round_bits_int[of "- n" 52] by (auto simp: f64_round_def)

end
