(* ===== verification/AudioPort.thy ===== *)
theory AudioPort
  imports Prelude
begin

text \<open>
  \<^verbatim>\<open>src/sip/media_port.rs\<close>: the PCM ring buffers between pjsip's media thread and the audio tasks,
  the custom port with its frame callbacks, and the allocation and release of its memory.

  The rings are those of the \<^verbatim>\<open>ringbuf\<close> library, so their operations are a parameter
  (\<open>ring_api\<close>); \<open>ring_laws\<close> states what the library documents of them.  Both halves of a ring name
  the same entry of the store \<open>md_rings\<close>.  Reading a port that was freed is \<open>None\<close>.
\<close>

subsection \<open>Ring buffers\<close>

record 'r ring_api =
  rb_new :: "nat \<Rightarrow> 'r"
  rb_push_slice :: "'r \<Rightarrow> i16 list \<Rightarrow> nat \<times> 'r"
  rb_pop_slice :: "'r \<Rightarrow> nat \<Rightarrow> i16 list \<times> 'r"
  rb_occupied_len :: "'r \<Rightarrow> nat"

definition ring_laws :: "'r ring_api \<Rightarrow> ('r \<Rightarrow> i16 list) \<Rightarrow> ('r \<Rightarrow> nat) \<Rightarrow> bool" where
  "ring_laws R contents cap \<longleftrightarrow>
     (\<forall>n. contents (rb_new R n) = [] \<and> cap (rb_new R n) = n) \<and>
     (\<forall>r xs. let (n, r') = rb_push_slice R r xs in
        n = min (length xs) (cap r - length (contents r)) \<and>
        contents r' = contents r @ take n xs \<and> cap r' = cap r) \<and>
     (\<forall>r n. let (xs, r') = rb_pop_slice R r n in
        xs = take n (contents r) \<and> contents r' = drop n (contents r) \<and> cap r' = cap r) \<and>
     (\<forall>r. rb_occupied_len R r = length (contents r))"

lemma ring_new:
  "ring_laws R contents cap \<Longrightarrow> contents (rb_new R n) = [] \<and> cap (rb_new R n) = n"
  by (simp add: ring_laws_def)

lemma ring_push:
  "ring_laws R contents cap \<Longrightarrow> rb_push_slice R r xs = (n, r') \<Longrightarrow>
     n = min (length xs) (cap r - length (contents r)) \<and>
     contents r' = contents r @ take n xs \<and> cap r' = cap r"
  unfolding ring_laws_def Let_def case_prod_beta by (metis fst_conv snd_conv)

lemma ring_pop:
  "ring_laws R contents cap \<Longrightarrow> rb_pop_slice R r n = (xs, r') \<Longrightarrow>
     xs = take n (contents r) \<and> contents r' = drop n (contents r) \<and> cap r' = cap r"
  unfolding ring_laws_def Let_def case_prod_beta by (metis fst_conv snd_conv)

lemma ring_occupied: "ring_laws R contents cap \<Longrightarrow> rb_occupied_len R r = length (contents r)"
  by (simp add: ring_laws_def)

lemma ring_push_bounded:
  "ring_laws R contents cap \<Longrightarrow> rb_push_slice R r xs = (n, r') \<Longrightarrow> length (contents r) \<le> cap r \<Longrightarrow>
     length (contents r') \<le> cap r'"
  by (drule (1) ring_push) auto

text \<open>A ring that satisfies the laws: its capacity and the samples it holds.\<close>

definition list_ring :: "(nat \<times> i16 list) ring_api" where
  "list_ring = \<lparr>
     rb_new = (\<lambda>n. (n, [])),
     rb_push_slice = (\<lambda>(c, q) xs. (min (length xs) (c - length q), (c, q @ take (c - length q) xs))),
     rb_pop_slice = (\<lambda>(c, q) n. (take n q, (c, drop n q))),
     rb_occupied_len = (\<lambda>(c, q). length q)\<rparr>"

lemma list_ring_laws: "ring_laws list_ring snd fst"
  by (auto simp: ring_laws_def list_ring_def min_def)

subsection \<open>Telemetry\<close>

definition TELEMETRY_LOG_STEP_SAMPLES :: u64 where "TELEMETRY_LOG_STEP_SAMPLES = 48000"

text \<open>The new value of the counter, and whether a line is logged.\<close>

definition track_samples :: "u64 \<Rightarrow> u64 \<Rightarrow> u64 \<times> bool" where
  "track_samples counter delta =
     (if delta = 0 then (counter, False)
      else
        (let prev = counter; total = prev + delta
         in (total, total div TELEMETRY_LOG_STEP_SAMPLES \<noteq> prev div TELEMETRY_LOG_STEP_SAMPLES)))"

subsection \<open>Ports\<close>

type_synonym ring_id = nat

record port_user_data =
  sip_to_mumble :: ring_id
  mumble_to_sip :: ring_id

record port_obj =
  po_clock_rate :: u32
  po_channel_count :: u32
  po_bits_per_sample :: u32
  po_samples_per_frame :: u32
  po_pdata :: "port_user_data option"
  po_put_frame :: bool
  po_get_frame :: bool
  po_on_destroy :: bool

record 'r media =
  md_rings :: "'r list"
  md_ports :: "port \<Rightarrow> port_obj option"
  md_dropped :: u64
  md_underflow :: u64

definition create_audio_buffers :: "'r ring_api \<Rightarrow> nat \<Rightarrow> 'r media \<Rightarrow> (ring_id \<times> ring_id) \<times> 'r media" where
  "create_audio_buffers R capacity_samples s =
     (let n = length (md_rings s)
      in ((n, n + 1), s\<lparr>md_rings := md_rings s @ [rb_new R capacity_samples, rb_new R capacity_samples]\<rparr>))"

text \<open>\<open>p\<close> is the address the allocator returns.\<close>

definition create_custom_port ::
  "port \<Rightarrow> u32 \<Rightarrow> u32 \<Rightarrow> ring_id \<Rightarrow> ring_id \<Rightarrow> 'r media \<Rightarrow> port \<times> 'r media" where
  "create_custom_port p clock_rate samples_per_frame s2m m2s s =
     (p, s\<lparr>md_ports := (md_ports s)(p \<mapsto>
        \<lparr>po_clock_rate = clock_rate, po_channel_count = 1, po_bits_per_sample = 16,
         po_samples_per_frame = samples_per_frame,
         po_pdata = Some \<lparr>sip_to_mumble = s2m, mumble_to_sip = m2s\<rparr>,
         po_put_frame = True, po_get_frame = True, po_on_destroy = True\<rparr>)\<rparr>)"

definition port_on_destroy :: "port \<Rightarrow> 'r media \<Rightarrow> (pj_status \<times> 'r media) option" where
  "port_on_destroy p s =
     (case md_ports s p of
        None \<Rightarrow> None
      | Some obj \<Rightarrow> Some (0, s\<lparr>md_ports := (md_ports s)(p \<mapsto> obj\<lparr>po_pdata := None\<rparr>)\<rparr>))"

definition destroy_custom_port :: "port option \<Rightarrow> 'r media \<Rightarrow> 'r media option" where
  "destroy_custom_port port s =
     (case port of
        None \<Rightarrow> Some s
      | Some p \<Rightarrow>
          (case md_ports s p of
             None \<Rightarrow> None
           | Some obj \<Rightarrow>
               (let obj' = obj\<lparr>po_pdata := None, po_put_frame := False, po_get_frame := False,
                               po_on_destroy := False\<rparr>;
                    s' = s\<lparr>md_ports := (md_ports s)(p \<mapsto> obj')\<rparr>
                in Some (s'\<lparr>md_ports := (md_ports s')(p := None)\<rparr>))))"

subsection \<open>Frames\<close>

datatype frame_type = FRAME_TYPE_NONE | FRAME_TYPE_AUDIO | FRAME_TYPE_OTHER

text \<open>\<open>fr_buf\<close> is the memory at the buffer's address, as samples; \<open>fr_size\<close> counts bytes.\<close>

record frame =
  fr_type :: frame_type
  fr_buf :: "i16 list option"
  fr_size :: nat

definition port_put_frame ::
  "'r ring_api \<Rightarrow> port option \<Rightarrow> frame option \<Rightarrow> 'r media \<Rightarrow> (pj_status \<times> 'r media) option" where
  "port_put_frame R this_port frame s =
     (case (this_port, frame) of
        (Some p, Some f) \<Rightarrow>
          (if fr_type f \<noteq> FRAME_TYPE_AUDIO then Some (0, s)
           else case md_ports s p of
             None \<Rightarrow> None
           | Some obj \<Rightarrow>
               (case (po_pdata obj, fr_buf f) of
                  (Some ud, Some buf) \<Rightarrow>
                    (if fr_size f = 0 then Some (0, s)
                     else
                       (let samples_count = fr_size f div 2;
                            (written, r) = rb_push_slice R (md_rings s ! sip_to_mumble ud) (take samples_count buf);
                            s1 = s\<lparr>md_rings := (md_rings s)[sip_to_mumble ud := r]\<rparr>
                        in Some (0, if written < samples_count
                              then s1\<lparr>md_dropped := fst (track_samples (md_dropped s) (of_nat (samples_count - written)))\<rparr>
                              else s1)))
                | _ \<Rightarrow> Some (0, s)))
      | _ \<Rightarrow> Some (0, s))"

definition port_get_frame ::
  "'r ring_api \<Rightarrow> port option \<Rightarrow> frame option \<Rightarrow> 'r media \<Rightarrow> (pj_status \<times> frame option \<times> 'r media) option" where
  "port_get_frame R this_port frame s =
     (case (this_port, frame) of
        (Some p, Some f) \<Rightarrow>
          (case md_ports s p of
             None \<Rightarrow> None
           | Some obj \<Rightarrow>
               (case (po_pdata obj, fr_buf f) of
                  (Some ud, Some buf) \<Rightarrow>
                    (if fr_size f = 0 then Some (0, Some (f\<lparr>fr_type := FRAME_TYPE_NONE\<rparr>), s)
                     else
                       (let samples_count = fr_size f div 2;
                            (got, r) = rb_pop_slice R (md_rings s ! mumble_to_sip ud) samples_count;
                            read = length got;
                            s1 = s\<lparr>md_rings := (md_rings s)[mumble_to_sip ud := r]\<rparr>;
                            rest = drop samples_count buf
                        in if read = 0 then
                             Some (0,
                               Some (f\<lparr>fr_type := FRAME_TYPE_NONE, fr_buf := Some (replicate samples_count 0 @ rest)\<rparr>),
                               s1\<lparr>md_underflow := fst (track_samples (md_underflow s) (of_nat samples_count))\<rparr>)
                           else
                             Some (0,
                               Some (f\<lparr>fr_type := FRAME_TYPE_AUDIO,
                                 fr_buf := Some (got @ replicate (samples_count - read) 0 @ rest)\<rparr>),
                               if read < samples_count
                               then s1\<lparr>md_underflow := fst (track_samples (md_underflow s) (of_nat (samples_count - read)))\<rparr>
                               else s1)))
                | _ \<Rightarrow> Some (0, Some (f\<lparr>fr_type := FRAME_TYPE_NONE\<rparr>), s)))
      | _ \<Rightarrow> Some (0, frame, s))"

lemma fst_track_samples: "fst (track_samples c d) = c + d"
  by (simp add: track_samples_def Let_def)


subsection \<open>What the callbacks do\<close>

text \<open>A request for \<open>n\<close> samples, answered by a live port.\<close>

lemma get_frame_result:
  assumes "ring_laws R contents cap"
    and "md_ports s p = Some obj" and "po_pdata obj = Some ud" and "fr_buf f = Some buf"
    and "n = fr_size f div 2" and "0 < n" and "q = contents (md_rings s ! mumble_to_sip ud)"
  shows "\<exists>r. contents r = drop n q \<and> cap r = cap (md_rings s ! mumble_to_sip ud) \<and>
    port_get_frame R (Some p) (Some f) s = Some (0,
      Some (f\<lparr>fr_type := if q = [] then FRAME_TYPE_NONE else FRAME_TYPE_AUDIO,
              fr_buf := Some (take n q @ replicate (n - length q) 0 @ drop n buf)\<rparr>),
      s\<lparr>md_rings := (md_rings s)[mumble_to_sip ud := r],
        md_underflow := md_underflow s + of_nat (n - length q)\<rparr>)"
proof -
  obtain got r where pop: "rb_pop_slice R (md_rings s ! mumble_to_sip ud) n = (got, r)" by fastforce
  note law = ring_pop[OF assms(1) pop]
  have size: "fr_size f \<noteq> 0" using assms(5,6) by auto
  have got: "got = take n q" "got = [] \<longleftrightarrow> q = []" "n - length got = n - length q"
    using law assms(6,7) by auto
  have "port_get_frame R (Some p) (Some f) s = Some (0,
      Some (f\<lparr>fr_type := if got = [] then FRAME_TYPE_NONE else FRAME_TYPE_AUDIO,
              fr_buf := Some (got @ replicate (n - length got) 0 @ drop n buf)\<rparr>),
      s\<lparr>md_rings := (md_rings s)[mumble_to_sip ud := r],
        md_underflow := md_underflow s + of_nat (n - length got)\<rparr>)"
    using size pop
    by (simp add: port_get_frame_def assms(2-4) assms(5)[symmetric] Let_def fst_track_samples)
  with law show ?thesis unfolding got(2,3) by (auto simp: got(1) assms(7))
qed

text \<open>The frame a live port hands to pjsip always has exactly the length pjsip asked for: the
  oldest samples of the queue, then silence.  It is an audio frame exactly when the queue had a
  sample; the samples leave the queue, the missing ones are counted and nothing else changes.\<close>

theorem get_frame_plays_queue:
  assumes "ring_laws R contents cap"
    and "md_ports s p = Some obj" and "po_pdata obj = Some ud" and "fr_buf f = Some buf"
    and "mumble_to_sip ud < length (md_rings s)"
    and "n = fr_size f div 2" and "0 < n" and "n \<le> length buf"
    and "q = contents (md_rings s ! mumble_to_sip ud)"
  shows "\<exists>f' s'. port_get_frame R (Some p) (Some f) s = Some (0, Some f', s') \<and>
    fr_buf f' = Some (take n q @ replicate (n - length q) 0 @ drop n buf) \<and>
    fr_size f' = fr_size f \<and>
    fr_type f' = (if q = [] then FRAME_TYPE_NONE else FRAME_TYPE_AUDIO) \<and>
    contents (md_rings s' ! mumble_to_sip ud) = drop n q \<and>
    (\<forall>i. i \<noteq> mumble_to_sip ud \<longrightarrow> md_rings s' ! i = md_rings s ! i) \<and>
    md_underflow s' = md_underflow s + of_nat (n - length q) \<and>
    md_ports s' = md_ports s \<and> md_dropped s' = md_dropped s"
proof -
  from get_frame_result[OF assms(1-4) assms(6,7) assms(9)] obtain r where
    "contents r = drop n q" and call: "port_get_frame R (Some p) (Some f) s = Some (0,
      Some (f\<lparr>fr_type := if q = [] then FRAME_TYPE_NONE else FRAME_TYPE_AUDIO,
              fr_buf := Some (take n q @ replicate (n - length q) 0 @ drop n buf)\<rparr>),
      s\<lparr>md_rings := (md_rings s)[mumble_to_sip ud := r],
        md_underflow := md_underflow s + of_nat (n - length q)\<rparr>)" by blast
  with assms(5) show ?thesis by simp
qed

definition example_media :: "(nat \<times> i16 list) media" where
  "example_media =
     (let (ids, s) = create_audio_buffers list_ring 4
            \<lparr>md_rings = [], md_ports = (\<lambda>_. None), md_dropped = 0, md_underflow = 0\<rparr>
      in snd (create_custom_port 1 48000 480 (fst ids) (snd ids) s))"

lemma get_frame_plays_queue_witness:
  "\<exists>f' s'. port_get_frame list_ring (Some 1) (Some \<lparr>fr_type = FRAME_TYPE_OTHER, fr_buf = Some [7, 7], fr_size = 4\<rparr>)
      (example_media\<lparr>md_rings := [(4, []), (4, [5])]\<rparr>) = Some (0, Some f', s') \<and>
    fr_buf f' = Some [5, 0] \<and> fr_type f' = FRAME_TYPE_AUDIO"
  using get_frame_plays_queue[OF list_ring_laws, of "example_media\<lparr>md_rings := [(4, []), (4, [5])]\<rparr>" 1
      _ "\<lparr>sip_to_mumble = 0, mumble_to_sip = 1\<rparr>" "\<lparr>fr_type = FRAME_TYPE_OTHER, fr_buf = Some [7, 7], fr_size = 4\<rparr>"
      "[7, 7]" 2 "[5]"]
  by (auto simp: example_media_def create_audio_buffers_def create_custom_port_def list_ring_def)

text \<open>What a put frame appends to the queue towards Mumble: as many samples as fit, the rest is
  counted as dropped.\<close>

lemma put_frame_queues:
  assumes "ring_laws R contents cap"
    and "md_ports s p = Some obj" and "po_pdata obj = Some ud" and "fr_buf f = Some buf"
    and "fr_type f = FRAME_TYPE_AUDIO" and "sip_to_mumble ud < length (md_rings s)"
    and "fr_size f \<noteq> 0" and "xs = take (fr_size f div 2) buf" and "length xs = fr_size f div 2"
    and "r = md_rings s ! sip_to_mumble ud" and "k = min (length xs) (cap r - length (contents r))"
  shows "\<exists>s'. port_put_frame R (Some p) (Some f) s = Some (0, s') \<and>
    contents (md_rings s' ! sip_to_mumble ud) = contents r @ take k xs \<and>
    cap (md_rings s' ! sip_to_mumble ud) = cap r \<and>
    md_dropped s' = md_dropped s + of_nat (length xs - k) \<and> md_underflow s' = md_underflow s \<and>
    md_ports s' = md_ports s"
proof -
  obtain n r' where push: "rb_push_slice R r xs = (n, r')" by fastforce
  note law = ring_push[OF assms(1) push]
  let ?s = "s\<lparr>md_rings := (md_rings s)[sip_to_mumble ud := r'],
    md_dropped := md_dropped s + of_nat (length xs - n)\<rparr>"
  have "port_put_frame R (Some p) (Some f) s = Some (0, ?s)"
    using push assms(7) law
    by (simp add: port_put_frame_def assms(2-5) assms(9)[symmetric] assms(8)[folded assms(9), symmetric]
        assms(10)[symmetric] Let_def fst_track_samples)
  then show ?thesis using law assms(6,11) by simp
qed

text \<open>Once its user data is gone a port that pjsip still calls neither reads nor writes a ring.\<close>

lemma callbacks_after_on_destroy:
  assumes "port_on_destroy p s = Some (st, s')"
  shows "port_put_frame R (Some p) frame s' = Some (0, s')"
    and "\<exists>f. port_get_frame R (Some p) frame s' = Some (0, f, s')"
  using assms by (auto simp: port_on_destroy_def port_put_frame_def port_get_frame_def split: option.splits)

text \<open>Nulling the callbacks of a port right before its memory is freed leaves nothing that a late
  callback could find: after the destruction every use of the port is a use of freed memory.\<close>

lemma use_after_destroy:
  assumes "destroy_custom_port (Some p) s = Some s'"
  shows "port_get_frame R (Some p) (Some f) s' = None" and "port_on_destroy p s' = None"
    and "destroy_custom_port (Some p) s' = None"
  using assms by (auto simp: destroy_custom_port_def port_get_frame_def port_on_destroy_def Let_def
      split: option.splits)

end
