(* ===== verification/AudioBridge.thy ===== *)
theory AudioBridge
  imports Floats Session AudioPort HashMap Machines
begin

text \<open>
  \<^verbatim>\<open>src/audio/bridge.rs\<close>: the encoder task with its transmission gate, and the decoder task that
  keeps one Opus decoder per speaker and mixes the speakers and the sound effects into one frame
  per tick.  The Opus codec is a parameter; a decoder call returns the samples it wrote.
\<close>

subsection \<open>The transmission gate\<close>

definition frame_samples :: "u32 \<Rightarrow> nat" where
  "frame_samples sample_rate = unat sample_rate * unat FRAME_DURATION_MS div 1000"

definition MAX_OPUS_FRAME_DURATION_MS :: nat where "MAX_OPUS_FRAME_DURATION_MS = 120"

definition SILENCE_AVG_ABS_THRESHOLD :: rat where
  "SILENCE_AVG_ABS_THRESHOLD = f32_round (f32_round (1 / 1000) * 32767)"

definition SILENCE_HOLD_FRAMES_MAX :: u32 where "SILENCE_HOLD_FRAMES_MAX = 200 div FRAME_DURATION_MS"

definition avg_abs :: "i16 list \<Rightarrow> rat" where
  "avg_abs pcm = f32_round (foldl (\<lambda>acc s. f32_round (acc + of_int \<bar>sint s\<bar>)) 0 pcm / of_nat (length pcm))"

definition above_threshold :: "i16 list \<Rightarrow> bool" where
  "above_threshold pcm \<longleftrightarrow> SILENCE_AVG_ABS_THRESHOLD \<le> avg_abs pcm"

datatype transmit_state = Transmitting | Terminator | Silent

text \<open>The gate's decision, with the new \<open>was_transmitting\<close> and \<open>hold_frames\<close>.\<close>

definition transmit_gate :: "bool \<Rightarrow> bool \<Rightarrow> u32 \<Rightarrow> transmit_state \<times> bool \<times> u32" where
  "transmit_gate loud was_transmitting hold_frames =
     (if loud then (Transmitting, True, 0)
      else if was_transmitting \<and> hold_frames < SILENCE_HOLD_FRAMES_MAX
        then (Transmitting, was_transmitting, hold_frames + 1)
      else if was_transmitting then (Terminator, False, 0)
      else (Silent, was_transmitting, hold_frames))"

subsection \<open>The encoder task\<close>

datatype send_result = Sent | Full | Closed

record 'e encoder_state =
  en_encoder :: 'e
  en_seq_num :: u64
  en_dropped_frames :: u64
  en_was_transmitting :: bool
  en_hold_frames :: u32

text \<open>\<open>None\<close>: the encoder could not be created and the task has ended.\<close>

definition encoder_start ::
  "(u32 \<Rightarrow> unit + 'e) \<Rightarrow> ('e \<Rightarrow> i32 \<Rightarrow> 'e) \<Rightarrow> u32 \<Rightarrow> u32 \<Rightarrow> 'e encoder_state option" where
  "encoder_start new_encoder set_bitrate sample_rate opus_bitrate =
     (case new_encoder sample_rate of
        Inl _ \<Rightarrow> None
      | Inr e \<Rightarrow> Some \<lparr>en_encoder = set_bitrate e opus_bitrate, en_seq_num = 0, en_dropped_frames = 0,
                      en_was_transmitting = False, en_hold_frames = 0\<rparr>)"

text \<open>One tick of the task: the packet that was queued, if any, whether the task goes on, and the
  new ring and state.  \<open>sent\<close> is what the bounded channel answers, should the tick send.\<close>

definition encoder_tick ::
  "'r ring_api \<Rightarrow> ('e \<Rightarrow> i16 list \<Rightarrow> (unit + u8 list) \<times> 'e) \<Rightarrow> u32 \<Rightarrow> send_result \<Rightarrow>
     'r \<Rightarrow> 'e encoder_state \<Rightarrow> (u64 \<times> u8 list \<times> bool) option \<times> bool \<times> 'r \<times> 'e encoder_state" where
  "encoder_tick R encode sample_rate sent ring st =
     (if rb_occupied_len R ring < frame_samples sample_rate then (None, True, ring, st)
      else
        (let n = frame_samples sample_rate;
             (got, ring') = rb_pop_slice R ring n;
             pcm_buf = got @ replicate (n - length got) 0;
             (transmit_state, was, hold) =
               transmit_gate (above_threshold pcm_buf) (en_was_transmitting st) (en_hold_frames st);
             st1 = st\<lparr>en_was_transmitting := was, en_hold_frames := hold\<rparr>
         in if transmit_state = Silent then (None, True, ring', st1)
            else
              (let (frame_to_encode, end_of_transmission) =
                     (if transmit_state = Transmitting then (pcm_buf, False)
                      else (replicate n 0, True));
                   (encoded, e) = encode (en_encoder st1) frame_to_encode;
                   st2 = st1\<lparr>en_encoder := e\<rparr>
               in case encoded of
                    Inl _ \<Rightarrow> (None, True, ring', st2)
                  | Inr opus_data \<Rightarrow>
                      (case sent of
                         Sent \<Rightarrow> (Some (en_seq_num st2, opus_data, end_of_transmission), True, ring',
                           st2\<lparr>en_seq_num := en_seq_num st2 + 1\<rparr>)
                       | Full \<Rightarrow> (None, True, ring',
                           st2\<lparr>en_dropped_frames := en_dropped_frames st2 + 1, en_seq_num := en_seq_num st2 + 1\<rparr>)
                       | Closed \<Rightarrow> (None, False, ring', st2)))))"

subsection \<open>What the gate lets through\<close>

text \<open>The average of a frame of at most 512 samples is computed without loss up to the division.\<close>

lemma i16_abs_le: "\<bar>sint (s :: i16)\<bar> \<le> 32768"
  using sint_range_size[of s] by (simp add: word_size abs_le_iff)

lemma sum_abs_exact:
  "0 \<le> k \<Longrightarrow> k + 32768 * int (length pcm) \<le> 16777216 \<Longrightarrow>
     foldl (\<lambda>acc s. f32_round (acc + of_int \<bar>sint s\<bar>)) (of_int k) pcm
       = of_int (k + (\<Sum>s\<leftarrow>pcm. \<bar>sint (s :: i16)\<bar>))"
proof (induction pcm arbitrary: k)
  case (Cons s pcm)
  have "f32_round (of_int k + of_int \<bar>sint s\<bar>) = of_int (k + \<bar>sint s\<bar>)"
    using f32_round_int[of "k + \<bar>sint s\<bar>"] Cons.prems i16_abs_le[of s] by simp
  with Cons.IH[of "k + \<bar>sint s\<bar>"] Cons.prems i16_abs_le[of s] show ?case
    by (simp del: of_int_add of_int_abs add: add.assoc)
qed simp

lemma threshold_bounds: "327669 / 10000 < SILENCE_AVG_ABS_THRESHOLD" "SILENCE_AVG_ABS_THRESHOLD < 32768 / 1000"
proof -
  have a: "\<bar>f32_round (1 / 1000) - 1 / 1000\<bar> \<le> 1 / 1000 / 16777216" by (rule f32_round_error_pos) simp
  then have "0 < f32_round (1 / 1000) * 32767" by linarith
  from f32_round_error_pos[OF this] a
  show "327669 / 10000 < SILENCE_AVG_ABS_THRESHOLD" "SILENCE_AVG_ABS_THRESHOLD < 32768 / 1000"
    unfolding SILENCE_AVG_ABS_THRESHOLD_def by linarith+
qed

text \<open>C22. At the default sample rate the gate opens exactly when the absolute sample values of the
  10 ms frame add up to at least 15729: the single precision arithmetic of the code decides every
  frame as exact arithmetic would.\<close>

theorem gate_threshold_exact:
  assumes "length pcm = frame_samples 48000"
  shows "above_threshold pcm \<longleftrightarrow> 15729 \<le> (\<Sum>s\<leftarrow>pcm. \<bar>sint s\<bar>)"
proof -
  let ?S = "\<Sum>s\<leftarrow>pcm. \<bar>sint s\<bar>"
  have len: "length pcm = 480" using assms by (simp add: frame_samples_def FRAME_DURATION_MS_def)
  have nonneg: "0 \<le> ?S" by (rule sum_list_nonneg) auto
  have avg: "avg_abs pcm = f32_round (of_int ?S / 480)"
    using sum_abs_exact[of 0 pcm] len by (simp add: avg_abs_def)
  show ?thesis
  proof (cases "?S = 0")
    case True
    then show ?thesis
      using threshold_bounds by (simp add: above_threshold_def avg f32_round_def round_bits_cases(1))
  next
    case False
    with nonneg have "0 < (of_int ?S / 480 :: rat)" by simp
    note err = f32_round_error_pos[OF this]
    show ?thesis
    proof (cases "15729 \<le> ?S")
      case True
      then have "(15729 :: rat) \<le> of_int ?S" by linarith
      with err threshold_bounds True show ?thesis unfolding above_threshold_def avg by linarith
    next
      case False
      then have "(of_int ?S :: rat) \<le> 15728" by linarith
      with err threshold_bounds False show ?thesis unfolding above_threshold_def avg by linarith
    qed
  qed
qed

lemma gate_threshold_exact_witness:
  "\<not> above_threshold (replicate 480 32) \<and> above_threshold (33 # replicate 479 (- 33))"
  using gate_threshold_exact[of "replicate 480 32"] gate_threshold_exact[of "33 # replicate 479 (- 33)"]
  by (simp_all add: frame_samples_def FRAME_DURATION_MS_def sum_list_replicate)


primrec gate_run :: "bool list \<Rightarrow> bool \<Rightarrow> u32 \<Rightarrow> transmit_state list" where
  "gate_run [] was_transmitting hold_frames = []"
| "gate_run (loud # bs) was_transmitting hold_frames =
     (case transmit_gate loud was_transmitting hold_frames of
        (t, was, hold) \<Rightarrow> t # gate_run bs was hold)"

text \<open>The reference: a frame is transmitted if it is loud or one of the last twenty before it was;
  the next one is the terminator; every other frame is silent.\<close>

definition quiet_for :: "bool list \<Rightarrow> nat" where
  "quiet_for bs = length (takeWhile Not (rev bs))"

definition gate_reference :: "bool list \<Rightarrow> transmit_state" where
  "gate_reference bs =
     (if True \<notin> set bs then Silent
      else if quiet_for bs \<le> 20 then Transmitting
      else if quiet_for bs = 21 then Terminator
      else Silent)"

lemma quiet_for_snoc: "quiet_for (bs @ [b]) = (if b then 0 else Suc (quiet_for bs))"
  by (simp add: quiet_for_def)

text \<open>The state of the gate after a list of frames.\<close>

definition gate_state :: "bool list \<Rightarrow> bool \<times> u32" where
  "gate_state bs =
     (if True \<in> set bs \<and> quiet_for bs \<le> 20 then (True, of_nat (quiet_for bs)) else (False, 0))"

lemma of_nat_less_20: "k \<le> 20 \<Longrightarrow> (of_nat k :: u32) < 20 \<longleftrightarrow> k < 20"
  by (simp add: word_less_nat_alt unsigned_of_nat take_bit_nat_eq_self)

lemma transmit_gate_state:
  "transmit_gate b (fst (gate_state bs)) (snd (gate_state bs)) =
     (gate_reference (bs @ [b]), gate_state (bs @ [b]))"
  by (cases "quiet_for bs = 20")
    (auto simp: transmit_gate_def gate_state_def gate_reference_def quiet_for_snoc of_nat_less_20
      SILENCE_HOLD_FRAMES_MAX_def FRAME_DURATION_MS_def)

lemma gate_run_reference:
  "i < length bs \<Longrightarrow>
     gate_run bs (fst (gate_state done)) (snd (gate_state done)) ! i = gate_reference (done @ take (Suc i) bs)"
proof (induction bs arbitrary: i "done")
  case (Cons b bs)
  show ?case
  proof (cases i)
    case (Suc j)
    with Cons.IH[of j "done @ [b]"] Cons.prems show ?thesis
      by (simp add: transmit_gate_state split_beta)
  qed (simp add: transmit_gate_state split_beta)
qed simp

text \<open>C21. The transmission gate is equivalent to its reference over every sequence of loud and quiet
  frames: it stays open for exactly twenty quiet frames after the last loud one, then sends exactly
  one terminator, and is silent until the next loud frame.\<close>

theorem gate_holds_and_terminates:
  assumes "i < length bs"
  shows "gate_run bs False 0 ! i = gate_reference (take (Suc i) bs)"
  using gate_run_reference[OF assms, of "[]"] by (simp add: gate_state_def)

lemma gate_holds_and_terminates_witness:
  "gate_run (True # replicate 22 False) False 0 ! 21 = Terminator"
proof -
  have "gate_reference (take (Suc 21) (True # replicate 22 False)) = Terminator" by code_simp
  then show ?thesis using gate_holds_and_terminates[of 21 "True # replicate 22 False"] by simp
qed

subsection \<open>What the encoder sends\<close>

text \<open>A run of the task: before each tick pjsip has put some samples into the ring.\<close>

fun encoder_run ::
  "'r ring_api \<Rightarrow> ('e \<Rightarrow> i16 list \<Rightarrow> (unit + u8 list) \<times> 'e) \<Rightarrow> u32 \<Rightarrow> (i16 list \<times> send_result) list \<Rightarrow>
     'r \<Rightarrow> 'e encoder_state \<Rightarrow> (u64 \<times> u8 list \<times> bool) list \<times> 'r \<times> 'e encoder_state" where
  "encoder_run R encode sample_rate [] ring st = ([], ring, st)"
| "encoder_run R encode sample_rate ((pcm, sent) # inputs) ring st =
     (let (n, ring1) = rb_push_slice R ring pcm;
          (packet, running, ring2, st2) = encoder_tick R encode sample_rate sent ring1 st;
          now = (case packet of None \<Rightarrow> [] | Some p \<Rightarrow> [p])
      in if running
         then (let (later, ring3, st3) = encoder_run R encode sample_rate inputs ring2 st2
               in (now @ later, ring3, st3))
         else (now, ring2, st2))"

lemma encoder_tick_numbers:
  assumes "encoder_tick R encode sample_rate sent ring st = (packet, running, ring', st')"
  shows "(packet = None \<and> en_seq_num st' = en_seq_num st \<and> en_dropped_frames st' = en_dropped_frames st) \<or>
    (packet = None \<and> en_seq_num st' = en_seq_num st + 1 \<and> en_dropped_frames st' = en_dropped_frames st + 1) \<or>
    (\<exists>d e. packet = Some (en_seq_num st, d, e) \<and> running \<and> en_seq_num st' = en_seq_num st + 1 \<and>
      en_dropped_frames st' = en_dropped_frames st)"
  using assms by (auto simp: encoder_tick_def Let_def split: if_splits prod.splits sum.splits send_result.splits)

lemma encoder_run_numbers:
  assumes "encoder_run R encode sample_rate inputs ring st = (packets, ring', st')"
    and "unat (en_seq_num st) + length inputs < 2 ^ 64"
    and "unat (en_dropped_frames st) + length inputs < 2 ^ 64"
  shows "sorted_wrt (<) (map (unat \<circ> fst) packets) \<and>
    (\<forall>p \<in> set packets. unat (en_seq_num st) \<le> unat (fst p) \<and> unat (fst p) < unat (en_seq_num st')) \<and>
    unat (en_seq_num st') = unat (en_seq_num st) + length packets +
      (unat (en_dropped_frames st') - unat (en_dropped_frames st)) \<and>
    unat (en_dropped_frames st) \<le> unat (en_dropped_frames st')"
  using assms
proof (induction inputs arbitrary: ring st packets ring' st')
  case (Cons input inputs)
  obtain pcm sent where input: "input = (pcm, sent)" by fastforce
  obtain n ring1 where push: "rb_push_slice R ring pcm = (n, ring1)" by fastforce
  obtain packet running ring2 st2 where
    tick: "encoder_tick R encode sample_rate sent ring1 st = (packet, running, ring2, st2)"
    by (metis prod_cases4)
  obtain later ring3 st3 where rest: "encoder_run R encode sample_rate inputs ring2 st2 = (later, ring3, st3)"
    by (metis prod_cases3)
  have inc: "unat (x + 1) = Suc (unat x)" if "unat x + length (input # inputs) < 2 ^ 64" for x :: u64
    using that unat_plus_one[of x "- 1"] by (simp add: word_less_nat_alt unsigned_minus_1_eq_mask mask_eq_exp_minus_1)
  note incs = inc[OF Cons.prems(2)] inc[OF Cons.prems(3)]
  note step = encoder_tick_numbers[OF tick]
  show ?case
  proof (cases running)
    case True
    have "unat (en_seq_num st2) + length inputs < 2 ^ 64" "unat (en_dropped_frames st2) + length inputs < 2 ^ 64"
      using step incs Cons.prems(2,3) by auto
    note ih = Cons.IH[OF rest this]
    from True Cons.prems(1) input push tick rest
    have "packets = (case packet of None \<Rightarrow> [] | Some p \<Rightarrow> [p]) @ later" "st' = st3"
      by (simp_all add: Let_def)
    with ih step incs show ?thesis by fastforce
  next
    case False
    with Cons.prems(1) input push tick have "packets = (case packet of None \<Rightarrow> [] | Some p \<Rightarrow> [p])" "st' = st2"
      by (simp_all add: Let_def)
    with step incs False show ?thesis by auto
  qed
qed simp

text \<open>In every run of the encoder the packets that reach the voice queue carry strictly increasing
  sequence numbers, and the numbers that are missing are exactly the frames counted as dropped.\<close>

theorem voice_packets_numbered:
  assumes "encoder_start new_encoder set_bitrate sample_rate bitrate = Some st"
    and "encoder_run R encode sample_rate inputs ring st = (packets, ring', st')"
    and "length inputs < 2 ^ 64"
  shows "sorted_wrt (<) (map (unat \<circ> fst) packets) \<and>
    (\<forall>p \<in> set packets. fst p < en_seq_num st') \<and>
    unat (en_seq_num st') = length packets + unat (en_dropped_frames st')"
proof -
  from assms(1) have "unat (en_seq_num st) = 0" "unat (en_dropped_frames st) = 0"
    by (auto simp: encoder_start_def split: sum.splits)
  with encoder_run_numbers[OF assms(2)] assms(3) show ?thesis
    by (auto simp: word_less_nat_alt)
qed


definition echo_encoder :: "u8 \<Rightarrow> i16 list \<Rightarrow> (unit + u8 list) \<times> u8" where
  "echo_encoder e pcm = (Inr [e], e + 1)"

lemma voice_packets_numbered_witness:
  "\<exists>ring' st'. encoder_run list_ring echo_encoder 100 [([1000], Sent), ([1000], Full), ([1000], Sent)] (9, [])
      \<lparr>en_encoder = 0, en_seq_num = 0, en_dropped_frames = 0, en_was_transmitting = False, en_hold_frames = 0\<rparr>
    = ([(0, [0], False), (2, [2], False)], ring', st') \<and> unat (en_seq_num st') = 2 + 1"
proof -
  have "f32_round 1000 = 1000" using f32_round_int[of 1000] by simp
  then have loud: "above_threshold [1000]"
    using threshold_bounds by (simp add: above_threshold_def avg_abs_def)
  have start: "encoder_start (\<lambda>_. Inr 0) (\<lambda>e _. e) 100 0 = Some
      \<lparr>en_encoder = 0 :: u8, en_seq_num = 0, en_dropped_frames = 0, en_was_transmitting = False, en_hold_frames = 0\<rparr>"
    by (simp add: encoder_start_def)
  obtain ring' st' where run: "encoder_run list_ring echo_encoder 100 [([1000], Sent), ([1000], Full), ([1000], Sent)] (9, [])
      \<lparr>en_encoder = 0, en_seq_num = 0, en_dropped_frames = 0, en_was_transmitting = False, en_hold_frames = 0\<rparr>
    = ([(0, [0], False), (2, [2], False)], ring', st')" and "en_dropped_frames st' = 1"
    using loud by (simp add: encoder_tick_def list_ring_def frame_samples_def FRAME_DURATION_MS_def
        transmit_gate_def echo_encoder_def)
  with voice_packets_numbered[OF start run] show ?thesis by auto
qed

text \<open>When the voice queue is full at the end of a transmission the terminator is lost for good: the
  gate is silent afterwards and sends no other.\<close>

lemma terminator_can_be_lost:
  assumes "encode e (replicate (frame_samples sample_rate) 0) = (Inr d, e')"
    and "ring_laws R contents cap" and "frame_samples sample_rate \<le> length (contents ring)"
    and "\<not> above_threshold (take (frame_samples sample_rate) (contents ring))"
  shows "\<exists>ring' st'. encoder_tick R encode sample_rate Full ring
      \<lparr>en_encoder = e, en_seq_num = k, en_dropped_frames = n, en_was_transmitting = True,
       en_hold_frames = SILENCE_HOLD_FRAMES_MAX\<rparr> = (None, True, ring', st') \<and>
    \<not> en_was_transmitting st' \<and> (\<forall>ring''. encoder_tick R encode sample_rate sent ring'' st' \<noteq>
      (Some (j, d', True), go, r, s))"
proof -
  obtain got ring' where pop: "rb_pop_slice R ring (frame_samples sample_rate) = (got, ring')" by fastforce
  from ring_pop[OF assms(2) pop] assms show ?thesis
    by (simp add: encoder_tick_def pop ring_occupied[OF assms(2)] transmit_gate_def Let_def)
      (auto simp: Let_def split: prod.splits sum.splits send_result.splits if_splits)
qed

subsection \<open>The mixing decoder\<close>

text \<open>Instants are nanoseconds.\<close>

definition SPEAKER_IDLE_TIMEOUT :: nat where "SPEAKER_IDLE_TIMEOUT = 5 * 10 ^ 9"

record 'd speaker =
  sp_decoder :: 'd
  sp_pending_packets :: "u8 list list"
  sp_pending_pcm :: "i16 list"
  sp_last_packet_at :: nat
  sp_dropped_packets :: u64

record 'd mixer =
  mx_speakers :: "(u32, 'd speaker) hashmap"
  mx_sound_queue :: "i16 list"
  mx_sound_closed :: bool
  mx_dropped_samples :: u64
  mx_next_drop_log :: u64

definition mixer_start :: "u32 \<Rightarrow> 'd mixer" where
  "mixer_start sample_rate = \<lparr>mx_speakers = [], mx_sound_queue = [], mx_sound_closed = False,
     mx_dropped_samples = 0, mx_next_drop_log = ucast sample_rate\<rparr>"

definition max_decode_samples :: "u32 \<Rightarrow> nat" where
  "max_decode_samples sample_rate =
     max (unat sample_rate * MAX_OPUS_FRAME_DURATION_MS div 1000) (frame_samples sample_rate)"

definition max_packets_per_speaker :: "nat \<Rightarrow> nat" where
  "max_packets_per_speaker jitter = max (jitter * 2) 4"

text \<open>Decoding a speaker's packets until a frame is there, the packets run out or one is bad.\<close>

fun fill_pcm ::
  "('d \<Rightarrow> u8 list \<Rightarrow> (unit + i16 list) \<times> 'd) \<Rightarrow> nat \<Rightarrow> 'd \<Rightarrow> u8 list list \<Rightarrow> i16 list \<Rightarrow>
     'd \<times> u8 list list \<times> i16 list" where
  "fill_pcm decode n d [] pcm = (d, [], pcm)"
| "fill_pcm decode n d (opus_data # packets) pcm =
     (if n \<le> length pcm then (d, opus_data # packets, pcm)
      else case decode d opus_data of
        (Inr decoded, d') \<Rightarrow> fill_pcm decode n d' packets (pcm @ decoded)
      | (Inl _, d') \<Rightarrow> (d', packets, pcm))"

text \<open>The speaker after a tick, the samples it gives to the mix if it is active, and whether it is
  stale.\<close>

definition speaker_tick ::
  "('d \<Rightarrow> u8 list \<Rightarrow> (unit + i16 list) \<times> 'd) \<Rightarrow> nat \<Rightarrow> nat \<Rightarrow> 'd speaker \<Rightarrow> 'd speaker \<times> i16 list option \<times> bool" where
  "speaker_tick decode n now sp =
     (case fill_pcm decode n (sp_decoder sp) (sp_pending_packets sp) (sp_pending_pcm sp) of
        (d, packets, pcm) \<Rightarrow>
          (sp\<lparr>sp_decoder := d, sp_pending_packets := packets, sp_pending_pcm := drop n pcm\<rparr>,
           if pcm = [] then None else Some (take n pcm),
           pcm = [] \<and> packets = [] \<and> SPEAKER_IDLE_TIMEOUT < now - sp_last_packet_at sp))"

fun mix_add :: "i32 list \<Rightarrow> i16 list \<Rightarrow> i32 list" where
  "mix_add (a # accum) (s # samples) = (a + scast s) # mix_add accum samples"
| "mix_add accum _ = accum"

definition clamp_i16 :: "i32 \<Rightarrow> i16" where
  "clamp_i16 x = (if x <s - 32768 then - 32768 else if 32767 <s x then 32767 else scast x)"

text \<open>One tick: the frame that is pushed to the ring, if there is a source, and the new state.\<close>

definition mixer_tick ::
  "'r ring_api \<Rightarrow> ('d \<Rightarrow> u8 list \<Rightarrow> (unit + i16 list) \<times> 'd) \<Rightarrow> u32 \<Rightarrow> nat \<Rightarrow>
     'd mixer \<Rightarrow> 'r \<Rightarrow> i16 list option \<times> 'd mixer \<times> 'r" where
  "mixer_tick R decode sample_rate now m ring =
     (let n = frame_samples sample_rate;
          ticked = map (\<lambda>(k, sp). (k, speaker_tick decode n now sp)) (mx_speakers m);
          speakers = map (\<lambda>(k, sp, _). (k, sp)) (filter (\<lambda>(k, sp, out, stale). \<not> stale) ticked);
          outs = List.map_filter (\<lambda>(k, sp, out, stale). out) ticked;
          accum = foldl mix_add (replicate n 0) outs;
          has_sound = (mx_sound_queue m \<noteq> []);
          accum' = mix_add accum (take n (mx_sound_queue m));
          m1 = m\<lparr>mx_speakers := speakers, mx_sound_queue := drop n (mx_sound_queue m)\<rparr>
      in if length outs + (if has_sound then 1 else 0) = 0 then (None, m1, ring)
         else
           (let mixed_frame = map clamp_i16 accum';
                (written, ring') = rb_push_slice R ring mixed_frame;
                dropped = mx_dropped_samples m1 + of_nat (n - written)
            in (Some mixed_frame,
                if written < n
                then m1\<lparr>mx_dropped_samples := dropped,
                        mx_next_drop_log := if mx_next_drop_log m1 \<le> dropped
                          then mx_next_drop_log m1 + ucast sample_rate else mx_next_drop_log m1\<rparr>
                else m1,
                ring')))"

definition mixer_packet ::
  "(u32 \<Rightarrow> unit + 'd) \<Rightarrow> u32 \<Rightarrow> nat \<Rightarrow> nat \<Rightarrow> u32 \<Rightarrow> u8 list \<Rightarrow> 'd mixer \<Rightarrow> 'd mixer" where
  "mixer_packet new_decoder sample_rate jitter now session_id opus_data m =
     (let entry =
          (case hm_get (mx_speakers m) session_id of
             Some sp \<Rightarrow> Some sp
           | None \<Rightarrow> (case new_decoder sample_rate of
               Inl _ \<Rightarrow> None
             | Inr d \<Rightarrow> Some \<lparr>sp_decoder = d, sp_pending_packets = [], sp_pending_pcm = [],
                             sp_last_packet_at = now, sp_dropped_packets = 0\<rparr>))
      in case entry of
           None \<Rightarrow> m
         | Some sp \<Rightarrow>
             (let sp1 = (if max_packets_per_speaker jitter \<le> length (sp_pending_packets sp)
                         then sp\<lparr>sp_pending_packets := tl (sp_pending_packets sp),
                                 sp_dropped_packets := sp_dropped_packets sp + 1\<rparr>
                         else sp);
                  sp2 = sp1\<lparr>sp_pending_packets := sp_pending_packets sp1 @ [opus_data],
                            sp_last_packet_at := now\<rparr>
              in m\<lparr>mx_speakers := hm_insert session_id sp2 (mx_speakers m)\<rparr>))"

definition mixer_sound :: "i16 list option \<Rightarrow> 'd mixer \<Rightarrow> 'd mixer" where
  "mixer_sound maybe_sound m =
     (if mx_sound_closed m then m
      else case maybe_sound of
        Some pcm \<Rightarrow> m\<lparr>mx_sound_queue := mx_sound_queue m @ pcm\<rparr>
      | None \<Rightarrow> m\<lparr>mx_sound_closed := True\<rparr>)"




datatype mixer_event = Tick nat | Packet nat u32 "u8 list" | Sound "i16 list option"

fun mixer_step ::
  "'r ring_api \<Rightarrow> ('d \<Rightarrow> u8 list \<Rightarrow> (unit + i16 list) \<times> 'd) \<Rightarrow> (u32 \<Rightarrow> unit + 'd) \<Rightarrow> u32 \<Rightarrow> nat \<Rightarrow>
     mixer_event \<Rightarrow> 'd mixer \<times> 'r \<Rightarrow> 'd mixer \<times> 'r" where
  "mixer_step R decode new_decoder sample_rate jitter (Tick now) (m, ring) =
     snd (mixer_tick R decode sample_rate now m ring)"
| "mixer_step R decode new_decoder sample_rate jitter (Packet now session_id opus_data) (m, ring) =
     (mixer_packet new_decoder sample_rate jitter now session_id opus_data m, ring)"
| "mixer_step R decode new_decoder sample_rate jitter (Sound maybe_sound) (m, ring) =
     (mixer_sound maybe_sound m, ring)"

definition mixer_run where
  "mixer_run R decode new_decoder sample_rate jitter events ring =
     fold (mixer_step R decode new_decoder sample_rate jitter) events (mixer_start sample_rate, ring)"

subsection \<open>Bounds of the mixer\<close>

definition speaker_ok :: "u32 \<Rightarrow> nat \<Rightarrow> 'd speaker \<Rightarrow> bool" where
  "speaker_ok sample_rate jitter sp \<longleftrightarrow>
     length (sp_pending_packets sp) \<le> max_packets_per_speaker jitter \<and>
     length (sp_pending_pcm sp) \<le> max_decode_samples sample_rate"

definition mixer_ok :: "u32 \<Rightarrow> nat \<Rightarrow> 'd mixer \<Rightarrow> bool" where
  "mixer_ok sample_rate jitter m \<longleftrightarrow>
     hm_wf (mx_speakers m) \<and> (\<forall>(k, sp) \<in> set (mx_speakers m). speaker_ok sample_rate jitter sp)"

text \<open>What Opus documents: a call writes at most as many samples as the buffer it is given holds.\<close>

definition decoder_bounded :: "('d \<Rightarrow> u8 list \<Rightarrow> (unit + i16 list) \<times> 'd) \<Rightarrow> nat \<Rightarrow> bool" where
  "decoder_bounded decode big \<longleftrightarrow> (\<forall>d b xs d'. decode d b = (Inr xs, d') \<longrightarrow> length xs \<le> big)"

lemma fill_pcm_bounds:
  "decoder_bounded decode big \<Longrightarrow> fill_pcm decode n d packets pcm = (d', packets', pcm') \<Longrightarrow>
     length packets' \<le> length packets \<and> length pcm' \<le> max (length pcm) (n + big)"
proof (induction decode n d packets pcm rule: fill_pcm.induct)
  case (2 decode n d b packets pcm)
  show ?case
  proof (cases "n \<le> length pcm")
    case False
    obtain r e where dec: "decode d b = (r, e)" by fastforce
    show ?thesis
    proof (cases r)
      case (Inr xs)
      with 2 False dec have "length xs \<le> big" by (auto simp: decoder_bounded_def)
      with 2 False dec Inr show ?thesis by fastforce
    qed (use 2 False dec in auto)
  qed (use 2 in auto)
qed simp

lemma speaker_tick_ok:
  assumes "decoder_bounded decode (max_decode_samples sample_rate)" and "speaker_ok sample_rate jitter sp"
  shows "speaker_ok sample_rate jitter (fst (speaker_tick decode (frame_samples sample_rate) now sp))"
proof -
  obtain d packets pcm where fill: "fill_pcm decode (frame_samples sample_rate) (sp_decoder sp)
      (sp_pending_packets sp) (sp_pending_pcm sp) = (d, packets, pcm)"
    by (metis prod_cases3)
  with fill_pcm_bounds[OF assms(1) fill] assms(2) show ?thesis
    by (auto simp: speaker_ok_def speaker_tick_def)
qed

text \<open>The speakers after a tick: all of them advanced, the stale ones removed.\<close>

definition stale :: "('d \<Rightarrow> u8 list \<Rightarrow> (unit + i16 list) \<times> 'd) \<Rightarrow> nat \<Rightarrow> nat \<Rightarrow> 'd speaker \<Rightarrow> bool" where
  "stale decode n now sp = snd (snd (speaker_tick decode n now sp))"

lemma mixer_tick_speakers:
  "mx_speakers (fst (snd (mixer_tick R decode sample_rate now m ring))) =
     map (\<lambda>(k, sp). (k, fst (speaker_tick decode (frame_samples sample_rate) now sp)))
       (filter (\<lambda>x. \<not> stale decode (frame_samples sample_rate) now (snd x)) (mx_speakers m))"
proof -
  have "map (\<lambda>(k, sp, _). (k, sp)) (filter (\<lambda>(k, sp, out, st). \<not> st) (map (\<lambda>(k, sp). (k, f sp)) xs)) =
      map (\<lambda>(k, sp). (k, fst (f sp))) (filter (\<lambda>x. \<not> snd (snd (f (snd x)))) xs)"
    for f :: "'d speaker \<Rightarrow> 'd speaker \<times> i16 list option \<times> bool" and xs :: "(u32 \<times> 'd speaker) list"
    by (induction xs) (auto split: prod.splits)
  note this[of "speaker_tick decode (frame_samples sample_rate) now" "mx_speakers m"]
  moreover have "mx_speakers (fst (snd (mixer_tick R decode sample_rate now m ring))) =
      map (\<lambda>(k, sp, _). (k, sp)) (filter (\<lambda>(k, sp, out, st). \<not> st)
        (map (\<lambda>(k, sp). (k, speaker_tick decode (frame_samples sample_rate) now sp)) (mx_speakers m)))"
    unfolding mixer_tick_def by (auto simp: Let_def split: prod.splits)
  ultimately show ?thesis by (simp add: stale_def)
qed

lemma mixer_tick_ok:
  assumes "decoder_bounded decode (max_decode_samples sample_rate)" and "mixer_ok sample_rate jitter m"
  shows "mixer_ok sample_rate jitter (fst (snd (mixer_tick R decode sample_rate now m ring)))"
proof -
  have "hm_wf (mx_speakers (fst (snd (mixer_tick R decode sample_rate now m ring))))"
    using assms(2) unfolding mixer_tick_speakers hm_wf_map_snd
    by (intro hm_wf_filter) (simp add: mixer_ok_def)
  with assms(2) speaker_tick_ok[OF assms(1)] show ?thesis
    by (fastforce simp: mixer_ok_def mixer_tick_speakers)
qed

lemma set_hm_insert: "x \<in> set (hm_insert k v m) \<Longrightarrow> x = (k, v) \<or> x \<in> set m"
  by (induction m) (auto split: if_splits)

lemma mixer_packet_ok:
  assumes "mixer_ok sample_rate jitter m"
  shows "mixer_ok sample_rate jitter (mixer_packet new_decoder sample_rate jitter now k b m)"
proof -
  have put: "mixer_ok sample_rate jitter (m\<lparr>mx_speakers := hm_insert k sp (mx_speakers m)\<rparr>)"
    if "speaker_ok sample_rate jitter sp" for sp
    using that assms by (auto simp: mixer_ok_def dest: set_hm_insert)
  have old: "speaker_ok sample_rate jitter sp" if "hm_get (mx_speakers m) k = Some sp" for sp
    using that assms by (auto simp: mixer_ok_def dest: map_of_SomeD)
  show ?thesis
    using assms old unfolding mixer_packet_def Let_def
    by (auto split: option.splits sum.splits intro!: put)
      (auto simp: speaker_ok_def max_packets_per_speaker_def)
qed

lemma mixer_sound_ok: "mixer_ok sample_rate jitter (mixer_sound x m) = mixer_ok sample_rate jitter m"
  by (simp add: mixer_sound_def mixer_ok_def split: option.splits)

lemma mixer_step_ok:
  assumes "decoder_bounded decode (max_decode_samples sample_rate)" and "mixer_ok sample_rate jitter (fst s)"
  shows "mixer_ok sample_rate jitter (fst (mixer_step R decode new_decoder sample_rate jitter e s))"
  using assms(2)
  by (cases s; cases e) (auto simp: mixer_sound_ok intro: mixer_tick_ok[OF assms(1)] mixer_packet_ok)

interpretation mixing: invariant_machine "mixer_step R decode new_decoder sample_rate jitter"
  "\<lambda>s. decoder_bounded decode (max_decode_samples sample_rate) \<longrightarrow> mixer_ok sample_rate jitter (fst s)"
  for R decode new_decoder sample_rate jitter
  by unfold_locales (simp add: mixer_step_ok)

text \<open>C20. Whatever packets, ticks and sounds arrive in whatever order, the mixer keeps one decoder per
  session, at most \<open>max(2 * jitter, 4)\<close> packets waiting per speaker, and at most one maximal Opus
  packet of samples decoded ahead.\<close>

theorem mixer_bounded:
  assumes "decoder_bounded decode (max_decode_samples sample_rate)"
    and "mixer_run R decode new_decoder sample_rate jitter events ring = (m, ring')"
  shows "distinct (map fst (mx_speakers m)) \<and>
    (\<forall>(k, sp) \<in> set (mx_speakers m).
       length (sp_pending_packets sp) \<le> max (jitter * 2) 4 \<and>
       length (sp_pending_pcm sp) \<le> max_decode_samples sample_rate)"
proof -
  have "mixer_ok sample_rate jitter (mixer_start sample_rate)" by (simp add: mixer_start_def mixer_ok_def)
  with mixing.run_keeps[of decode sample_rate jitter "(mixer_start sample_rate, ring)" R new_decoder events] assms
  have "mixer_ok sample_rate jitter m" by (simp add: mixer_run_def)
  then show ?thesis
    by (simp add: mixer_ok_def hm_wf_def speaker_ok_def max_packets_per_speaker_def)
qed

definition echo_decoder :: "unit \<Rightarrow> u8 list \<Rightarrow> (unit + i16 list) \<times> unit" where
  "echo_decoder d b = (if length b \<le> 12 then Inr (map ucast b) else Inl (), ())"

lemma echo_decoder_bounded: "decoder_bounded echo_decoder (max_decode_samples 100)"
  by (auto simp: decoder_bounded_def echo_decoder_def max_decode_samples_def
      MAX_OPUS_FRAME_DURATION_MS_def split: if_splits)

lemmas mixer_eval = mixer_run_def mixer_start_def mixer_packet_def max_packets_per_speaker_def
  mixer_tick_def speaker_tick_def frame_samples_def FRAME_DURATION_MS_def list_ring_def
  echo_decoder_def SPEAKER_IDLE_TIMEOUT_def map_filter_simps

lemma mixer_bounded_witness:
  "\<exists>m ring'. mixer_run list_ring echo_decoder (\<lambda>_. Inr ()) 100 1
      [Packet 0 7 [0], Packet 1 7 [1], Packet 2 7 [2], Packet 3 7 [3], Packet 4 7 [4], Tick 9] (4, []) = (m, ring') \<and>
    map sp_pending_packets (map snd (mx_speakers m)) = [[[2], [3], [4]]] \<and>
    (\<forall>(k, sp) \<in> set (mx_speakers m). length (sp_pending_packets sp) \<le> 4)"
proof -
  obtain m ring' where run: "mixer_run list_ring echo_decoder (\<lambda>_. Inr ()) 100 1
      [Packet 0 7 [0], Packet 1 7 [1], Packet 2 7 [2], Packet 3 7 [3], Packet 4 7 [4], Tick 9] (4, []) = (m, ring')"
    and "map sp_pending_packets (map snd (mx_speakers m)) = [[[2], [3], [4]]]"
    by (simp add: mixer_eval Let_def)
  with mixer_bounded[OF echo_decoder_bounded run] show ?thesis by fastforce
qed

subsection \<open>The mix\<close>

definition sample_at :: "nat \<Rightarrow> i16 list \<Rightarrow> int" where
  "sample_at i xs = (if i < length xs then sint (xs ! i) else 0)"

lemma sample_at_le: "\<bar>sample_at i xs\<bar> \<le> 32768"
  using i16_abs_le by (simp add: sample_at_def)

lemma sint_add_i32:
  fixes a b :: i32
  assumes "- (2 ^ 31) \<le> sint a + sint b" and "sint a + sint b < 2 ^ 31"
  shows "sint (a + b) = sint a + sint b"
proof -
  have "sint (a + b) = signed_take_bit 31 (sint a + sint b)"
    by transfer (simp add: signed_take_bit_add)
  with assms show ?thesis by (simp add: signed_take_bit_int_eq_self)
qed

lemma sint_scast_i16: "sint (scast (x :: i16) :: i32) = sint x"
  using i16_abs_le[of x] by transfer (simp add: signed_take_bit_int_eq_self_iff)

lemma length_mix_add [simp]: "length (mix_add accum xs) = length accum"
  by (induction accum xs rule: mix_add.induct) auto

lemma sint_mix_add:
  assumes "i < length accum" and "\<bar>sint (accum ! i)\<bar> \<le> k * 32768" and "k < 65535"
  shows "sint (mix_add accum xs ! i) = sint (accum ! i) + sample_at i xs"
proof -
  have "mix_add accum xs ! i = (if i < length xs then accum ! i + scast (xs ! i) else accum ! i)"
    using assms(1)
  proof (induction accum xs arbitrary: i rule: mix_add.induct)
    case (1 a accum s samples)
    then show ?case by (cases i) auto
  qed auto
  moreover have "\<bar>sint (accum ! i) + sample_at i xs\<bar> \<le> (k + 1) * 32768"
    using abs_triangle_ineq[of "sint (accum ! i)" "sample_at i xs"] sample_at_le[of i xs] assms(2)
    by (simp add: algebra_simps)
  moreover have "(k + 1) * 32768 \<le> 65535 * 32768" using assms(3) by simp
  ultimately show ?thesis
    using sint_add_i32[of "accum ! i" "scast (xs ! i)"] by (auto simp: sint_scast_i16 sample_at_def)
qed

lemma sint_mix:
  "i < length accum \<Longrightarrow> \<bar>sint (accum ! i)\<bar> \<le> k * 32768 \<Longrightarrow> k + int (length outs) < 65536 \<Longrightarrow>
     sint (foldl mix_add accum outs ! i) = sint (accum ! i) + (\<Sum>out\<leftarrow>outs. sample_at i out) \<and>
     \<bar>sint (foldl mix_add accum outs ! i)\<bar> \<le> (k + int (length outs)) * 32768"
proof (induction outs arbitrary: accum k)
  case (Cons out outs)
  have step: "sint (mix_add accum out ! i) = sint (accum ! i) + sample_at i out"
    using Cons.prems by (intro sint_mix_add[of _ _ k]) auto
  then have "\<bar>sint (mix_add accum out ! i)\<bar> \<le> (k + 1) * 32768"
    using abs_triangle_ineq[of "sint (accum ! i)" "sample_at i out"] sample_at_le[of i out] Cons.prems(2)
    by (simp add: algebra_simps)
  note ih = Cons.IH[of "mix_add accum out" "k + 1", OF _ this]
  have "k + 1 + int (length outs) < 65536" "i < length (mix_add accum out)" using Cons.prems by simp_all
  note ih = ih[OF this(2,1)]
  from conjunct1[OF ih] conjunct2[OF ih]
  have "sint (foldl mix_add (mix_add accum out) outs ! i) =
      sint (accum ! i) + (sample_at i out + (\<Sum>out\<leftarrow>outs. sample_at i out))"
    "\<bar>sint (foldl mix_add (mix_add accum out) outs ! i)\<bar> \<le> (k + int (length (out # outs))) * 32768"
    by (simp_all only: step length_Cons of_nat_Suc add.assoc add.commute[of 1])
  then show ?case by (simp only: foldl_Cons list.map sum_list.Cons)
qed simp

lemma sint_clamp_i16: "sint (clamp_i16 x) = max (- 32768) (min 32767 (sint x))"
proof -
  have small: "sint (scast x :: i16) = sint x" if "- 32768 \<le> sint x" "sint x \<le> 32767"
  proof -
    have "sint (scast x :: i16) = signed_take_bit 15 (sint x)"
      by transfer (simp add: signed_take_bit_signed_take_bit)
    with that show ?thesis by (simp add: signed_take_bit_int_eq_self)
  qed
  have "sint (- 32768 :: i32) = - 32768" "sint (32767 :: i32) = 32767"
    "sint (- 32768 :: i16) = - 32768" "sint (32767 :: i16) = 32767" by simp_all
  then show ?thesis
    using small by (auto simp: clamp_i16_def word_sless_alt)
qed

text \<open>What the speakers and the sound queue give to the tick.\<close>

definition speaker_frame ::
  "('d \<Rightarrow> u8 list \<Rightarrow> (unit + i16 list) \<times> 'd) \<Rightarrow> nat \<Rightarrow> 'd speaker \<Rightarrow> i16 list" where
  "speaker_frame decode n sp =
     (case fill_pcm decode n (sp_decoder sp) (sp_pending_packets sp) (sp_pending_pcm sp) of
        (d, packets, pcm) \<Rightarrow> take n pcm)"

definition mix_reference ::
  "('d \<Rightarrow> u8 list \<Rightarrow> (unit + i16 list) \<times> 'd) \<Rightarrow> nat \<Rightarrow> 'd mixer \<Rightarrow> nat \<Rightarrow> int" where
  "mix_reference decode n m i =
     (\<Sum>(k, sp)\<leftarrow>mx_speakers m. sample_at i (speaker_frame decode n sp)) + sample_at i (take n (mx_sound_queue m))"

lemma sum_active:
  "(\<Sum>out\<leftarrow>List.map_filter (\<lambda>(k, sp, out, stale). out)
      (map (\<lambda>(k, sp). (k, speaker_tick decode n now sp)) xs). sample_at i out)
    = (\<Sum>(k, sp)\<leftarrow>xs. sample_at i (speaker_frame decode n sp))"
  by (induction xs)
    (auto simp: map_filter_simps speaker_tick_def speaker_frame_def sample_at_def split: prod.splits)

lemma map_filter_length: "length (List.map_filter f xs) \<le> length xs"
  by (induction xs) (auto simp: map_filter_simps split: option.splits)

text \<open>C19. The frame the mixer pushes is, sample by sample, the exact sum of every speaker's next samples
  and of the queued sound effect, saturated to 16 bits: no sum of fewer than 65535 speakers wraps, and
  the order in which the speakers are visited does not matter.\<close>

theorem mixed_frame_is_clamped_sum:
  assumes "mixer_tick R decode sample_rate now m ring = (Some frame, m', ring')"
    and "length (mx_speakers m) < 65535"
  shows "length frame = frame_samples sample_rate \<and>
    (\<forall>i < frame_samples sample_rate. sint (frame ! i) =
      max (- 32768) (min 32767 (mix_reference decode (frame_samples sample_rate) m i)))"
proof -
  let ?n = "frame_samples sample_rate"
  define outs where "outs = List.map_filter (\<lambda>(k, sp, out, stale). out)
    (map (\<lambda>(k, sp). (k, speaker_tick decode ?n now sp)) (mx_speakers m))"
  define accum where "accum = foldl mix_add (replicate ?n 0) outs"
  have "length outs \<le> length (mx_speakers m)"
    unfolding outs_def using map_filter_length[of "\<lambda>(k, sp, out, stale). out"
        "map (\<lambda>(k, sp). (k, speaker_tick decode ?n now sp)) (mx_speakers m)"]
    by (simp only: length_map)
  with assms(2) have few: "int (length outs) < 65535" by linarith
  have frame: "frame = map clamp_i16 (mix_add accum (take ?n (mx_sound_queue m)))"
    using assms(1) unfolding mixer_tick_def accum_def outs_def
    by (auto simp: Let_def split: if_splits prod.splits)
  have len: "length accum = ?n"
    unfolding accum_def by (induction outs rule: rev_induct) auto
  have "sint (mix_add accum (take ?n (mx_sound_queue m)) ! i) = mix_reference decode ?n m i" if "i < ?n" for i
  proof -
    have "i < length (replicate ?n (0 :: i32))" "\<bar>sint (replicate ?n (0 :: i32) ! i)\<bar> \<le> 0 * 32768"
      "0 + int (length outs) < 65536" using that few by simp_all
    note mix = sint_mix[OF this, folded accum_def]
    from conjunct1[OF mix] that have sum: "sint (accum ! i) = (\<Sum>out\<leftarrow>outs. sample_at i out)" by simp
    from conjunct2[OF mix] have le: "\<bar>sint (accum ! i)\<bar> \<le> int (length outs) * 32768" by simp
    have "sint (mix_add accum (take ?n (mx_sound_queue m)) ! i) =
        sint (accum ! i) + sample_at i (take ?n (mx_sound_queue m))"
      by (rule sint_mix_add[OF _ le]) (use few that len in auto)
    with sum show ?thesis by (simp add: mix_reference_def outs_def sum_active)
  qed
  then show ?thesis by (simp add: frame len sint_clamp_i16)
qed


definition loud_speaker :: "i16 \<Rightarrow> unit speaker" where
  "loud_speaker s = \<lparr>sp_decoder = (), sp_pending_packets = [], sp_pending_pcm = [s],
     sp_last_packet_at = 0, sp_dropped_packets = 0\<rparr>"

lemma mixed_frame_is_clamped_sum_witness:
  "\<exists>frame m' ring'. mixer_tick list_ring echo_decoder 100 0
      ((mixer_start 100)\<lparr>mx_speakers := [(1, loud_speaker 30000), (2, loud_speaker 20000)]\<rparr>) (4, [])
    = (Some frame, m', ring') \<and> sint (frame ! 0) = 32767"
proof -
  let ?m = "(mixer_start 100)\<lparr>mx_speakers := [(1, loud_speaker 30000), (2, loud_speaker 20000)]\<rparr>"
  obtain frame m' ring' where tick: "mixer_tick list_ring echo_decoder 100 0 ?m (4, []) = (Some frame, m', ring')"
    by (simp add: mixer_eval Let_def loud_speaker_def)
  have "mix_reference echo_decoder (frame_samples 100) ?m 0 = 50000"
    by (simp add: mix_reference_def speaker_frame_def loud_speaker_def sample_at_def mixer_eval)
  with tick mixed_frame_is_clamped_sum[OF tick] show ?thesis by (simp add: mixer_eval loud_speaker_def)
qed

text \<open>A speaker leaves the mixer exactly when everything it sent has been played and it has been
  silent for more than five seconds.\<close>

lemma speaker_removed_when_idle:
  assumes "hm_wf (mx_speakers m)" and "hm_get (mx_speakers m) k = Some sp"
    and "m' = fst (snd (mixer_tick R decode sample_rate now m ring))"
  shows "hm_get (mx_speakers m') k = None \<longleftrightarrow> stale decode (frame_samples sample_rate) now sp"
    and "now \<le> sp_last_packet_at sp + SPEAKER_IDLE_TIMEOUT \<Longrightarrow> hm_get (mx_speakers m') k \<noteq> None"
proof -
  let ?n = "frame_samples sample_rate"
  have mem: "(k, sp') \<in> set (mx_speakers m) \<longleftrightarrow> sp' = sp" for sp'
    using hm_in_set_iff[OF assms(1)] assms(2) by auto
  have "k \<in> hm_keys (filter (\<lambda>x. \<not> stale decode ?n now (snd x)) (mx_speakers m)) \<longleftrightarrow>
      (\<exists>v. (k, v) \<in> set (mx_speakers m) \<and> \<not> stale decode ?n now v)"
    by (force simp: hm_keys_def)
  with mem show iff: "hm_get (mx_speakers m') k = None \<longleftrightarrow> stale decode ?n now sp"
    unfolding assms(3) mixer_tick_speakers hm_get_None_iff hm_keys_map_snd by simp
  show "hm_get (mx_speakers m') k \<noteq> None" if "now \<le> sp_last_packet_at sp + SPEAKER_IDLE_TIMEOUT"
    unfolding iff using that by (auto simp: stale_def speaker_tick_def split: prod.splits)
qed

end
