(* ===== verification/SessionEvents.thy ===== *)
theory SessionEvents
  imports Session MumbleControl TtsText AudioBridge
begin

text \<open>
  The tasks a call runs while it is connected (\<^verbatim>\<open>src/session.rs\<close>, in \<^verbatim>\<open>on_incoming_call\<close>): the Mumble
  event loop, the debounced channel announcements, the spoken text messages and the voice forwarder.
  A task is a function of what its receives yield; synthesis is a parameter.
\<close>

subsection \<open>The Mumble event loop\<close>

record event_loop =
  el_user_channels :: "(u32, u32) hashmap"
  el_our_channel :: u32
  el_channel_names :: "(u32, rstr) hashmap"
  el_dropped_decoder_frames :: u64

definition event_loop_start :: "u32 \<Rightarrow> (u32, rstr) hashmap \<Rightarrow> event_loop" where
  "event_loop_start initial_channel names =
     \<lparr>el_user_channels = [], el_our_channel = initial_channel, el_channel_names = names,
      el_dropped_decoder_frames = 0\<rparr>"

datatype effect =
    FeedDecoder u32 "u8 list"
  | PlaySound sound_event
  | Announce u32 "rstr option"
  | SpeakText "rstr option" rstr

text \<open>What the loop sees besides the event: a channel set by DTMF since the last event, the answer of
  the decoder queue, and whether the text worker still receives.\<close>

record surroundings =
  su_watch :: "u32 option"
  su_decoder :: send_result
  su_text_open :: bool

definition user_changed_channel ::
  "u32 \<Rightarrow> bool \<Rightarrow> u32 \<Rightarrow> u32 \<Rightarrow> event_loop \<Rightarrow> effect list \<times> event_loop" where
  "user_changed_channel our_session tts session_id channel_id st =
     (let old_channel = hm_get (el_user_channels st) session_id;
          st1 = st\<lparr>el_user_channels := hm_insert session_id channel_id (el_user_channels st)\<rparr>
      in if session_id = our_session then
           (if tts \<and> old_channel \<noteq> Some channel_id
            then [Announce channel_id (hm_get (el_channel_names st) channel_id)] else [],
            st1\<lparr>el_our_channel := channel_id\<rparr>)
         else if channel_id = el_our_channel st then ([PlaySound UserJoinedChannel], st1)
         else if old_channel = Some (el_our_channel st) then ([PlaySound UserLeftChannel], st1)
         else ([], st1))"

definition user_disconnected :: "u32 \<Rightarrow> event_loop \<Rightarrow> effect list \<times> event_loop" where
  "user_disconnected session_id st =
     (if hm_get (el_user_channels st) session_id = Some (el_our_channel st)
      then [PlaySound UserLeftChannel] else [],
      st\<lparr>el_user_channels := hm_remove session_id (el_user_channels st)\<rparr>)"

text \<open>One event: the effects, whether the loop goes on, and the new state.\<close>

definition event_step ::
  "u32 \<Rightarrow> bool \<Rightarrow> surroundings \<Rightarrow> mumble_event \<Rightarrow> event_loop \<Rightarrow> effect list \<times> bool \<times> event_loop" where
  "event_step our_session tts su ev st0 =
     (let st = (case su_watch su of None \<Rightarrow> st0 | Some ch \<Rightarrow> st0\<lparr>el_our_channel := ch\<rparr>)
      in case ev of
           EvAudioReceived session_id opus_data seq_num \<Rightarrow>
             (case su_decoder su of
                Sent \<Rightarrow> ([FeedDecoder session_id opus_data], True, st)
              | Full \<Rightarrow> ([], True, st\<lparr>el_dropped_decoder_frames := el_dropped_decoder_frames st + 1\<rparr>)
              | Closed \<Rightarrow> ([], False, st))
         | EvUserChangedChannel session_id channel_id \<Rightarrow>
             (let (effects, st') = user_changed_channel our_session tts session_id channel_id st
              in (effects, True, st'))
         | EvUserDisconnected session_id \<Rightarrow>
             (let (effects, st') = user_disconnected session_id st in (effects, True, st'))
         | EvTextMessageReceived sender_name message \<Rightarrow>
             (if tts \<and> su_text_open su then [SpeakText sender_name message]
              else [PlaySound sound_event.TextMessage], True, st)
         | EvChannelState channel_id name \<Rightarrow>
             ([], True, st\<lparr>el_channel_names := hm_insert channel_id name (el_channel_names st)\<rparr>)
         | EvDisconnected \<Rightarrow> ([], False, st)
         | EvConnected _ \<Rightarrow> ([], True, st))"

fun event_run ::
  "u32 \<Rightarrow> bool \<Rightarrow> (surroundings \<times> mumble_event) list \<Rightarrow> event_loop \<Rightarrow> effect list \<times> event_loop" where
  "event_run our_session tts [] st = ([], st)"
| "event_run our_session tts ((su, ev) # evs) st =
     (case event_step our_session tts su ev st of
        (effects, running, st') \<Rightarrow>
          if running then (let (later, st'') = event_run our_session tts evs st' in (effects @ later, st''))
          else (effects, st'))"

text \<open>The announcement or chime when the call is connected.\<close>

definition connect_effect :: "bool \<Rightarrow> bool \<Rightarrow> u32 \<Rightarrow> rstr option \<Rightarrow> effect" where
  "connect_effect tts announce_on_connect initial_channel name =
     (if tts \<and> announce_on_connect then Announce initial_channel name else PlaySound SelfJoinedChannel)"

subsection \<open>Channel announcements\<close>

text \<open>\<open>Got\<close>: an announcement arrived before the debounce time was over; \<open>Quiet\<close>: the time was over;
  \<open>AllGone\<close>: the queue is closed.  A synthesis answers per phrase.\<close>

datatype received = Got "u32 \<times> rstr option" | Quiet | AllGone

record announcer =
  an_last :: "u32 option"
  an_latest :: "(u32 \<times> rstr option) option"
  an_running :: bool

definition announcer_start :: announcer where
  "announcer_start = \<lparr>an_last = None, an_latest = None, an_running = True\<rparr>"

type_synonym synth = "(rstr \<Rightarrow> unit + i16 list) option"

text \<open>The phrases asked of the service and the sounds played for one announcement.\<close>

definition announce_now ::
  "bool \<Rightarrow> synth \<Rightarrow> u32 \<times> rstr option \<Rightarrow> announcer \<Rightarrow> (u32 \<times> i16 list option) list \<times> announcer" where
  "announce_now tts runtime latest st =
     (case latest of (channel_id, channel_name) \<Rightarrow>
        if an_last st = Some channel_id then ([], st\<lparr>an_latest := None\<rparr>)
        else
          ([(channel_id,
             if tts then
               (case runtime of
                  None \<Rightarrow> None
                | Some f \<Rightarrow> (case f (channel_announcement_phrase channel_name channel_id) of
                    Inl _ \<Rightarrow> None
                  | Inr pcm \<Rightarrow> Some pcm))
             else None)],
           st\<lparr>an_last := Some channel_id, an_latest := None\<rparr>))"

definition announce_step ::
  "bool \<Rightarrow> synth \<Rightarrow> bool \<Rightarrow> received \<Rightarrow> announcer \<Rightarrow> (u32 \<times> i16 list option) list \<times> announcer" where
  "announce_step tts runtime debounce r st =
     (if \<not> an_running st then ([], st)
      else case an_latest st of
        None \<Rightarrow>
          (case r of
             Got item \<Rightarrow>
               if debounce then ([], st\<lparr>an_latest := Some item\<rparr>) else announce_now tts runtime item st
           | Quiet \<Rightarrow> ([], st)
           | AllGone \<Rightarrow> ([], st\<lparr>an_running := False\<rparr>))
      | Some latest \<Rightarrow>
          (case r of
             Got item \<Rightarrow> ([], st\<lparr>an_latest := Some item\<rparr>)
           | Quiet \<Rightarrow> announce_now tts runtime latest st
           | AllGone \<Rightarrow>
               (let (out, st') = announce_now tts runtime latest st in (out, st'\<lparr>an_running := False\<rparr>))))"

fun announce_run ::
  "bool \<Rightarrow> synth \<Rightarrow> bool \<Rightarrow> received list \<Rightarrow> announcer \<Rightarrow> (u32 \<times> i16 list option) list" where
  "announce_run tts runtime debounce [] st = []"
| "announce_run tts runtime debounce (r # rs) st =
     (let (out, st') = announce_step tts runtime debounce r st
      in out @ announce_run tts runtime debounce rs st')"

subsection \<open>Spoken text messages\<close>

datatype sound = Pcm "i16 list" | Effect sound_event

definition text_tts_step :: "synth \<Rightarrow> rstr option \<times> rstr \<Rightarrow> sound" where
  "text_tts_step runtime msg =
     (let phrase = text_message_phrase (fst msg) (snd msg)
      in case runtime of
           None \<Rightarrow> Effect sound_event.TextMessage
         | Some f \<Rightarrow> (case f phrase of Inr pcm \<Rightarrow> Pcm pcm | Inl _ \<Rightarrow> Effect sound_event.TextMessage))"

subsection \<open>The voice forwarder\<close>

text \<open>The packets of the voice queue in order, with whether the connection still took each one.\<close>

fun voice_forward ::
  "((u64 \<times> u8 list \<times> bool) \<times> bool) list \<Rightarrow> serverbound list \<Rightarrow> serverbound list" where
  "voice_forward [] queue = queue"
| "voice_forward (((seq_num, opus_data, end_of_transmission), queue_open) # rest) queue =
     (case send_voice queue_open seq_num opus_data end_of_transmission queue of
        Inl _ \<Rightarrow> queue
      | Inr queue' \<Rightarrow> voice_forward rest queue')"


subsection \<open>Announcements are debounced\<close>

text \<open>The reference: the last announcement of every burst, a burst ending with a quiet period or with
  the queue.\<close>

fun burst_finals :: "received list \<Rightarrow> (u32 \<times> rstr option) option \<Rightarrow> (u32 \<times> rstr option) list" where
  "burst_finals [] latest = []"
| "burst_finals (Got item # rs) latest = burst_finals rs (Some item)"
| "burst_finals (Quiet # rs) latest =
     (case latest of None \<Rightarrow> burst_finals rs None | Some item \<Rightarrow> item # burst_finals rs None)"
| "burst_finals (AllGone # rs) latest = (case latest of None \<Rightarrow> [] | Some item \<Rightarrow> [item])"

lemma announce_run_stopped: "\<not> an_running st \<Longrightarrow> announce_run tts runtime debounce rs st = []"
  by (induction rs) (simp_all add: announce_step_def)

lemma announce_now_out:
  "fst (announce_now tts runtime item st) = [] \<and> an_last st = Some (fst item) \<or>
   (\<exists>pcm. fst (announce_now tts runtime item st) = [(fst item, pcm)]) \<and> an_last st \<noteq> Some (fst item)"
  "snd (announce_now tts runtime item st) = st\<lparr>an_last := Some (fst item), an_latest := None\<rparr>"
  by (cases item; cases st; simp add: announce_now_def)+

lemma announce_run_reference:
  "an_running st \<Longrightarrow>
     (case an_last st of None \<Rightarrow> [] | Some l \<Rightarrow> [l]) @ map fst (announce_run tts runtime True rs st) =
       remdups_adj ((case an_last st of None \<Rightarrow> [] | Some l \<Rightarrow> [l]) @ map fst (burst_finals rs (an_latest st)))"
proof (induction rs arbitrary: st)
  case Nil
  then show ?case by (cases "an_last st") simp_all
next
  case (Cons r rs)
  have now: "(case an_last st of None \<Rightarrow> [] | Some l \<Rightarrow> [l]) @
      map fst (fst (announce_now tts runtime item st)) @ map fst later = remdups_adj
      ((case an_last st of None \<Rightarrow> [] | Some l \<Rightarrow> [l]) @ fst item # cs)"
    if "fst item # map fst later = remdups_adj (fst item # cs)" for item cs and later :: "(u32 \<times> i16 list option) list"
    using that announce_now_out(1)[of tts runtime item st] by (cases "an_last st") auto
  show ?case
  proof (cases "an_latest st")
    case None
    show ?thesis
    proof (cases r)
      case (Got item)
      with None Cons.prems Cons.IH[of "st\<lparr>an_latest := Some item\<rparr>"] show ?thesis
        by (simp add: announce_step_def)
    next
      case Quiet
      with None Cons.prems Cons.IH[of st] show ?thesis by (simp add: announce_step_def)
    next
      case AllGone
      with None Cons.prems show ?thesis
        by (cases "an_last st") (simp_all add: announce_step_def announce_run_stopped)
    qed
  next
    case (Some item)
    show ?thesis
    proof (cases r)
      case (Got item')
      with Some Cons.prems Cons.IH[of "st\<lparr>an_latest := Some item'\<rparr>"] show ?thesis
        by (simp add: announce_step_def)
    next
      case Quiet
      let ?st = "st\<lparr>an_last := Some (fst item), an_latest := None\<rparr>"
      from Cons.IH[of ?st] Cons.prems
      have "fst item # map fst (announce_run tts runtime True rs ?st) =
          remdups_adj (fst item # map fst (burst_finals rs None))" by simp
      from now[OF this] Some Quiet Cons.prems announce_now_out(2)[of tts runtime item st]
      show ?thesis by (simp add: announce_step_def split_beta)
    next
      case AllGone
      from now[of item "[]" "[]"] Some AllGone Cons.prems
      show ?thesis by (simp add: announce_step_def split_beta announce_run_stopped)
    qed
  qed
qed

text \<open>C27. However many channel changes arrive, the caller hears about the last of every burst only, and
  never about the same channel twice in a row: with a debounce time the announced channels are the
  final channels of the bursts with adjacent repetitions removed.\<close>

theorem announcements_debounced:
  "map fst (announce_run tts runtime True rs announcer_start) =
     remdups_adj (map fst (burst_finals rs None))"
  using announce_run_reference[of announcer_start tts runtime rs] by (simp add: announcer_start_def)

text \<open>Without a synthesis runtime nothing is ever played, although the announcement has replaced the
  chime that is played without speech.\<close>

lemma announce_now_silent: "x \<in> set (fst (announce_now tts None item st)) \<Longrightarrow> snd x = None"
  by (cases item) (auto simp: announce_now_def split: if_splits)

lemma no_runtime_no_connect_sound:
  "connect_effect True True ch name = Announce ch name"
  "\<forall>x \<in> set (announce_run True None debounce rs st). snd x = None"
proof -
  have "x \<in> set (fst (announce_step True None debounce r st)) \<Longrightarrow> snd x = None" for x r st
    by (auto simp: announce_step_def split_beta dest: announce_now_silent split: if_splits option.splits received.splits)
  then show "\<forall>x \<in> set (announce_run True None debounce rs st). snd x = None"
    by (induction rs arbitrary: st) (auto simp: split_beta)
qed (simp add: connect_effect_def)

subsection \<open>Own moves\<close>

text \<open>The channels the server confirms for the caller, and those that are announced.\<close>

definition own_channel :: "u32 \<Rightarrow> surroundings \<times> mumble_event \<Rightarrow> u32 option" where
  "own_channel our_session x =
     (case snd x of EvUserChangedChannel s ch \<Rightarrow> if s = our_session then Some ch else None | _ \<Rightarrow> None)"

definition announced_channel :: "effect \<Rightarrow> u32 option" where
  "announced_channel e = (case e of Announce ch name \<Rightarrow> Some ch | _ \<Rightarrow> None)"

definition keeps_running :: "u32 \<Rightarrow> surroundings \<times> mumble_event \<Rightarrow> bool" where
  "keeps_running our_session x \<longleftrightarrow>
     snd x \<noteq> EvDisconnected \<and> snd x \<noteq> EvUserDisconnected our_session \<and> su_decoder (fst x) \<noteq> Closed"

lemma event_step_own:
  assumes "keeps_running our_session (su, ev)"
  obtains effects st' where "event_step our_session True su ev st = (effects, True, st')"
    and "own_channel our_session (su, ev) = None \<Longrightarrow> List.map_filter announced_channel effects = [] \<and>
      hm_get (el_user_channels st') our_session = hm_get (el_user_channels st) our_session"
    and "\<And>ch. own_channel our_session (su, ev) = Some ch \<Longrightarrow>
      List.map_filter announced_channel effects =
        (if hm_get (el_user_channels st) our_session = Some ch then [] else [ch]) \<and>
      hm_get (el_user_channels st') our_session = Some ch"
proof -
  have "\<exists>effects st'. event_step our_session True su ev st = (effects, True, st') \<and>
    (own_channel our_session (su, ev) = None \<longrightarrow> List.map_filter announced_channel effects = [] \<and>
      hm_get (el_user_channels st') our_session = hm_get (el_user_channels st) our_session) \<and>
    (\<forall>ch. own_channel our_session (su, ev) = Some ch \<longrightarrow>
      List.map_filter announced_channel effects =
        (if hm_get (el_user_channels st) our_session = Some ch then [] else [ch]) \<and>
      hm_get (el_user_channels st') our_session = Some ch)"
    using assms
    by (cases ev) (auto simp: event_step_def keeps_running_def own_channel_def user_changed_channel_def
        user_disconnected_def announced_channel_def Let_def map_filter_simps
        split: send_result.splits option.splits)
  then obtain effects st' where "event_step our_session True su ev st = (effects, True, st')"
    and "own_channel our_session (su, ev) = None \<longrightarrow> List.map_filter announced_channel effects = [] \<and>
      hm_get (el_user_channels st') our_session = hm_get (el_user_channels st) our_session"
    and "\<forall>ch. own_channel our_session (su, ev) = Some ch \<longrightarrow>
      List.map_filter announced_channel effects =
        (if hm_get (el_user_channels st) our_session = Some ch then [] else [ch]) \<and>
      hm_get (el_user_channels st') our_session = Some ch" by (elim exE conjE)
  with that[of effects st'] show ?thesis by simp
qed

lemma map_filter_append: "List.map_filter f (xs @ ys) = List.map_filter f xs @ List.map_filter f ys"
  by (simp add: List.map_filter_def)

lemma own_moves_reference:
  "list_all (keeps_running our_session) xs \<Longrightarrow>
     (case hm_get (el_user_channels st) our_session of None \<Rightarrow> [] | Some l \<Rightarrow> [l]) @
       List.map_filter announced_channel (fst (event_run our_session True xs st)) =
     remdups_adj ((case hm_get (el_user_channels st) our_session of None \<Rightarrow> [] | Some l \<Rightarrow> [l]) @
       List.map_filter (own_channel our_session) xs)"
proof (induction xs arbitrary: st)
  case Nil
  then show ?case by (simp add: map_filter_simps split: option.split)
next
  case (Cons x xs)
  obtain su ev where x: "x = (su, ev)" by fastforce
  from Cons.prems x have "keeps_running our_session (su, ev)" by simp
  from event_step_own[OF this, of st] obtain effects st' where
    step: "event_step our_session True su ev st = (effects, True, st')"
    and other: "own_channel our_session (su, ev) = None \<Longrightarrow> List.map_filter announced_channel effects = [] \<and>
      hm_get (el_user_channels st') our_session = hm_get (el_user_channels st) our_session"
    and own: "\<And>ch. own_channel our_session (su, ev) = Some ch \<Longrightarrow>
      List.map_filter announced_channel effects =
        (if hm_get (el_user_channels st) our_session = Some ch then [] else [ch]) \<and>
      hm_get (el_user_channels st') our_session = Some ch" by metis
  have run: "fst (event_run our_session True (x # xs) st) = effects @ fst (event_run our_session True xs st')"
    by (simp add: x step split_beta)
  have ih: "(case hm_get (el_user_channels st') our_session of None \<Rightarrow> [] | Some l \<Rightarrow> [l]) @
      List.map_filter announced_channel (fst (event_run our_session True xs st')) =
    remdups_adj ((case hm_get (el_user_channels st') our_session of None \<Rightarrow> [] | Some l \<Rightarrow> [l]) @
      List.map_filter (own_channel our_session) xs)"
    using Cons by simp
  show ?case
  proof (cases "own_channel our_session (su, ev)")
    case None
    with other[OF None] ih show ?thesis by (simp add: run[unfolded x] map_filter_append map_filter_simps x del: event_run.simps)
  next
    case (Some ch)
    with own[OF Some] ih show ?thesis
      by (cases "hm_get (el_user_channels st) our_session")
        (simp_all add: run[unfolded x] map_filter_append map_filter_simps x del: event_run.simps)
  qed
qed

text \<open>C28. With speech enabled, each move of the caller that the server confirms is announced exactly
  once, in order and whatever else happens: DTMF updates of the local channel neither suppress nor
  repeat an announcement.\<close>

theorem own_moves_announced:
  assumes "list_all (keeps_running our_session) xs"
  shows "List.map_filter announced_channel
      (fst (event_run our_session True xs (event_loop_start initial_channel names))) =
    remdups_adj (List.map_filter (own_channel our_session) xs)"
  using own_moves_reference[OF assms, of "event_loop_start initial_channel names"]
  by (simp add: event_loop_start_def)

definition calm :: surroundings where
  "calm = \<lparr>su_watch = None, su_decoder = Sent, su_text_open = True\<rparr>"

lemma own_moves_announced_witness:
  "List.map_filter announced_channel (fst (event_run 9 True
      [(calm\<lparr>su_watch := Some 4\<rparr>, EvUserChangedChannel 9 4), (calm, EvUserChangedChannel 9 4),
       (calm, EvUserChangedChannel 9 2)] (event_loop_start 0 []))) = [4, 2]"
  using own_moves_announced[of 9 "[(calm\<lparr>su_watch := Some 4\<rparr>, EvUserChangedChannel 9 4),
      (calm, EvUserChangedChannel 9 4), (calm, EvUserChangedChannel 9 2)]" 0 "[]"]
  by (simp add: keeps_running_def calm_def own_channel_def map_filter_simps)


subsection \<open>Chimes\<close>

text \<open>The other users the loop knows to be in the caller's channel.\<close>

definition others_here :: "u32 \<Rightarrow> event_loop \<Rightarrow> u32 set" where
  "others_here our_session st =
     {u. u \<noteq> our_session \<and> hm_get (el_user_channels st) u = Some (el_our_channel st)}"

definition chimes :: "sound_event \<Rightarrow> effect list \<Rightarrow> int" where
  "chimes which effects = int (length (filter (\<lambda>e. e = PlaySound which) effects))"

text \<open>The caller stays, and every change that is reported of another user is one.\<close>

fun real_changes :: "u32 \<Rightarrow> (surroundings \<times> mumble_event) list \<Rightarrow> (u32, u32) hashmap \<Rightarrow> bool" where
  "real_changes our_session [] m \<longleftrightarrow> True"
| "real_changes our_session ((su, ev) # xs) m \<longleftrightarrow>
     su_watch su = None \<and>
     (case ev of
        EvUserChangedChannel u ch \<Rightarrow>
          u \<noteq> our_session \<and> hm_get m u \<noteq> Some ch \<and> real_changes our_session xs (hm_insert u ch m)
      | EvUserDisconnected u \<Rightarrow> u \<noteq> our_session \<and> real_changes our_session xs (hm_remove u m)
      | _ \<Rightarrow> real_changes our_session xs m)"

lemma finite_others_here: "finite (others_here our_session st)"
  by (rule finite_subset[OF _ finite_hm_keys[of "el_user_channels st"]])
    (auto simp: others_here_def dest: hm_get_SomeD)

lemma chimes_simps [simp]:
  "chimes which [] = 0" "chimes which (a @ b) = chimes which a + chimes which b"
  "chimes which [PlaySound played] = (if played = which then 1 else 0)"
  by (simp_all add: chimes_def)

lemma others_here_move:
  assumes "u \<noteq> our_session" and "hm_get (el_user_channels st) u \<noteq> Some ch"
    and "user_changed_channel our_session tts u ch st = (effects, st')"
  shows "int (card (others_here our_session st')) =
      int (card (others_here our_session st)) + chimes UserJoinedChannel effects - chimes UserLeftChannel effects"
    and "el_user_channels st' = hm_insert u ch (el_user_channels st)"
proof -
  have st': "st' = st\<lparr>el_user_channels := hm_insert u ch (el_user_channels st)\<rparr>"
    using assms by (auto simp: user_changed_channel_def Let_def split: if_splits)
  then show "el_user_channels st' = hm_insert u ch (el_user_channels st)" by simp
  consider (join) "ch = el_our_channel st" | (leave) "ch \<noteq> el_our_channel st" "hm_get (el_user_channels st) u = Some (el_our_channel st)" |
    (other) "ch \<noteq> el_our_channel st" "hm_get (el_user_channels st) u \<noteq> Some (el_our_channel st)" by blast
  then show "int (card (others_here our_session st')) =
      int (card (others_here our_session st)) + chimes UserJoinedChannel effects - chimes UserLeftChannel effects"
  proof cases
    case join
    with assms(1,2) st' have "others_here our_session st' = insert u (others_here our_session st)"
      "u \<notin> others_here our_session st" by (auto simp: others_here_def)
    moreover have "effects = [PlaySound UserJoinedChannel]"
      using join assms by (simp add: user_changed_channel_def Let_def)
    ultimately show ?thesis by (simp add: finite_others_here)
  next
    case leave
    with assms(1,2) st' have "others_here our_session st' = others_here our_session st - {u}"
      "u \<in> others_here our_session st" by (auto simp: others_here_def)
    moreover from this have "Suc (card (others_here our_session st')) = card (others_here our_session st)"
      using card_Suc_Diff1[OF finite_others_here, of u our_session st] by simp
    moreover have "effects = [PlaySound UserLeftChannel]"
      using leave assms by (simp add: user_changed_channel_def Let_def)
    ultimately show ?thesis by simp
  next
    case other
    with assms(1,2) st' have "others_here our_session st' = others_here our_session st"
      by (auto simp: others_here_def)
    moreover have "effects = []"
      using other assms by (simp add: user_changed_channel_def Let_def)
    ultimately show ?thesis by simp
  qed
qed

lemma others_here_disconnect:
  assumes "u \<noteq> our_session" and "user_disconnected u st = (effects, st')"
  shows "int (card (others_here our_session st')) =
      int (card (others_here our_session st)) + chimes UserJoinedChannel effects - chimes UserLeftChannel effects"
proof (cases "hm_get (el_user_channels st) u = Some (el_our_channel st)")
  case True
  with assms have "others_here our_session st' = others_here our_session st - {u}" "u \<in> others_here our_session st"
    by (auto simp: others_here_def user_disconnected_def split: if_splits)
  moreover from this have "Suc (card (others_here our_session st')) = card (others_here our_session st)"
    using card_Suc_Diff1[OF finite_others_here, of u our_session st] by simp
  moreover have "effects = [PlaySound UserLeftChannel]" using True assms by (simp add: user_disconnected_def)
  ultimately show ?thesis by simp
next
  case False
  with assms have "others_here our_session st' = others_here our_session st"
    by (auto simp: others_here_def user_disconnected_def split: if_splits)
  moreover have "effects = []" using False assms by (simp add: user_disconnected_def)
  ultimately show ?thesis by simp
qed

lemma others_here_step:
  assumes "real_changes our_session ((su, ev) # xs) (el_user_channels st)"
    and "event_step our_session tts su ev st = (effects, running, st')"
  shows "int (card (others_here our_session st')) =
      int (card (others_here our_session st)) + chimes UserJoinedChannel effects - chimes UserLeftChannel effects"
    and "real_changes our_session xs (el_user_channels st')"
proof -
  have watch: "su_watch su = None" using assms(1) by simp
  show "int (card (others_here our_session st')) =
      int (card (others_here our_session st)) + chimes UserJoinedChannel effects - chimes UserLeftChannel effects"
  proof (cases ev)
    case (EvUserChangedChannel u ch)
    with assms watch show ?thesis
      by (auto simp: event_step_def split_beta intro: others_here_move(1)[of u our_session st ch tts] prod_eqI)
  next
    case (EvUserDisconnected u)
    with assms watch show ?thesis
      by (auto simp: event_step_def split_beta intro: others_here_disconnect[of u] prod_eqI)
  qed (use assms watch in \<open>auto simp: event_step_def others_here_def chimes_def split: send_result.splits if_splits\<close>)
  show "real_changes our_session xs (el_user_channels st')"
  proof (cases ev)
    case (EvUserChangedChannel u ch)
    with assms watch show ?thesis
      by (auto simp: event_step_def split_beta user_changed_channel_def Let_def split: if_splits)
  qed (use assms watch in \<open>auto simp: event_step_def user_disconnected_def split: send_result.splits if_splits\<close>)
qed

text \<open>C29. While the caller stays in a channel, the join and leave chimes account exactly for the other
  users the loop knows to be there: their number changes by the joins minus the leaves played.\<close>

theorem chimes_match_occupancy:
  assumes "real_changes our_session xs (el_user_channels st)"
    and "event_run our_session tts xs st = (effects, st')"
  shows "int (card (others_here our_session st')) =
    int (card (others_here our_session st)) + chimes UserJoinedChannel effects - chimes UserLeftChannel effects"
  using assms
proof (induction xs arbitrary: st effects st')
  case (Cons x xs)
  obtain su ev where x: "x = (su, ev)" by fastforce
  obtain now running st1 where step: "event_step our_session tts su ev st = (now, running, st1)"
    by (metis prod_cases3)
  obtain later st2 where rest: "event_run our_session tts xs st1 = (later, st2)" by fastforce
  note one = others_here_step[OF Cons.prems(1)[unfolded x] step]
  show ?case
  proof (cases running)
    case True
    with Cons.prems(2) x step rest have "effects = now @ later" "st' = st2" by simp_all
    with one(1) Cons.IH[OF one(2) rest] show ?thesis by simp
  next
    case False
    with Cons.prems(2) x step have "effects = now" "st' = st1" by simp_all
    with one(1) show ?thesis by simp
  qed
qed simp

lemma chimes_match_occupancy_witness:
  "chimes UserJoinedChannel (fst (event_run 9 True
      [(calm, EvUserChangedChannel 5 3), (calm, EvUserChangedChannel 6 3), (calm, EvUserDisconnected 5)]
      (event_loop_start 3 []))) = 2 \<and>
   card (others_here 9 (snd (event_run 9 True
      [(calm, EvUserChangedChannel 5 3), (calm, EvUserChangedChannel 6 3), (calm, EvUserDisconnected 5)]
      (event_loop_start 3 [])))) = 1"
  using chimes_match_occupancy[of 9 "[(calm, EvUserChangedChannel 5 3), (calm, EvUserChangedChannel 6 3),
      (calm, EvUserDisconnected 5)]" "event_loop_start 3 []" True]
  by (simp add: event_step_def calm_def event_loop_start_def user_changed_channel_def user_disconnected_def
      chimes_def others_here_def)


subsection \<open>A call and its connection\<close>

definition user_in :: "u32 \<Rightarrow> u32 \<Rightarrow> packet" where
  "user_in u ch = UserState \<lparr>us_session = Some u, us_name = Some (lit ''Al''), us_channel_id = Some ch\<rparr>"

definition named_channel :: "u32 \<Rightarrow> rstr \<Rightarrow> packet" where
  "named_channel ch n = ChannelState \<lparr>chs_channel_id = Some ch, chs_name = Some n\<rparr>"

text \<open>A user who is in the channel when the caller connects is announced by the server before
  \<open>ServerSync\<close>; the handshake keeps the name only, so the event loop does not know the channel and
  the user leaves without a chime.  A user who comes later is heard coming and going.\<close>

lemma present_user_leaves_silently:
  "\<exists>cl sent. connect 16 16 example_mumble_config True True True (\<lambda>_. True)
      [Inr (user_in 5 0), Inr (ServerSync (Some 9)), Inr (UserRemove (Some 5))] = Inr (cl, sent) \<and>
    fst (event_run (cl_session_id cl) False (map (Pair calm) (recv_loop (cl_stream cl) (cl_user_names cl)))
      (event_loop_start (cl_channel_id cl) (cl_channel_names cl))) = []"
  "\<exists>cl sent. connect 16 16 example_mumble_config True True True (\<lambda>_. True)
      [Inr (ServerSync (Some 9)), Inr (user_in 5 0), Inr (UserRemove (Some 5))] = Inr (cl, sent) \<and>
    fst (event_run (cl_session_id cl) False (map (Pair calm) (recv_loop (cl_stream cl) (cl_user_names cl)))
      (event_loop_start (cl_channel_id cl) (cl_channel_names cl))) =
      [PlaySound UserJoinedChannel, PlaySound UserLeftChannel]"
  by (simp_all add: connect_def handshake_start_def user_in_def handle_packet_def event_step_def calm_def
      event_loop_start_def user_changed_channel_def user_disconnected_def)

text \<open>Whether the last channel still exists is judged by its id only: a channel that was deleted is
  joined again as long as a channel with a higher id is left.\<close>

lemma deleted_channel_is_rejoined:
  "\<exists>cl sent. connect 16 16 example_mumble_config True True True (\<lambda>_. True)
      [Inr (named_channel 0 (lit ''Root'')), Inr (named_channel 7 (lit ''Den'')), Inr (ServerSync (Some 9))]
        = Inr (cl, sent) \<and>
    hm_get (cl_channel_names cl) 3 = None \<and>
    rejoin_channel (Some 3) (cl_channel_id cl) (cl_max_channel_id cl) True = 3"
  by (simp add: connect_def handshake_start_def named_channel_def handshake_channel_def rejoin_channel_def
      example_mumble_config_def)

end
