(* ===== verification/SessionSafety.thy ===== *)
theory SessionSafety
  imports Session Machines
begin

text \<open>
  What holds in every reachable state of the session manager, whatever the interleaving of
  setups, the main loop, pjsip's callbacks and the deferred-cleanup threads.  Ports and pools
  are resources: \<open>owned\<close> collects, with multiplicity, every place that is still responsible for
  one together with everything already destroyed or released.
\<close>

subsection \<open>Parts of the state a step leaves alone\<close>

lemmas manager_op_defs = cancel_pending_setup_def abort_tasks_def
  spawn_tasks_def hangup_def reap_completed_writes_def persist_last_channel_def

text \<open>The fields of \<open>sys\<close> beyond \<open>sip_state\<close>, as one value.\<close>

abbreviation manager_part ::
  "sys \<Rightarrow> (call_id, call_session) hashmap \<times> (call_id, u64 \<times> nat) hashmap \<times> u64 \<times> pending_write list \<times>
     nat list \<times> setup_task list \<times> main_pc \<times> media_thread list \<times> (call_id \<times> nat) list \<times>
     handle list \<times> handle list" where
  "manager_part s \<equiv> (sessions s, pending_setups s, next_setup_generation s, pending_writes s, cancelled s,
     setups s, main_loop s, media_threads s, hangups s, spawned s, aborted s)"

lemma clean_step_manager: "manager_part (snd (clean_step fb st call p pc s)) = manager_part s"
  by (auto simp: clean_step_def registry_ops split: clean_pc.splits option.splits prod.splits)

lemma media_step_manager: "manager_part (snd (media_step out call pc s)) = manager_part s"
  by (auto simp: media_step_def registry_ops
      split: callback_pc.splits attach_outcome.splits option.splits prod.splits)

lemma unregister_media_ready_manager: "manager_part (unregister_media_ready call s) = manager_part s"
  by (auto simp: registry_ops Let_def split: option.splits)

lemma register_media_ready_manager: "manager_part (snd (register_media_ready call s)) = manager_part s"
  by (auto simp: registry_ops Let_def split: option.splits)

lemma conf_op_manager: "manager_part (on_conf_op_completed info s) = manager_part s"
  by (auto simp: on_conf_op_completed_def registry_ops split: option.splits prod.splits)

lemma run_deferred_manager: "manager_part (run_deferred k s) = manager_part s"
  by (auto simp: registry_ops split: option.splits)

lemmas manager_frames = clean_step_manager media_step_manager unregister_media_ready_manager
  register_media_ready_manager conf_op_manager run_deferred_manager

lemmas manager_frames_simp [simp] = manager_frames[unfolded prod.inject]

subsection \<open>Ports and pools as resources\<close>

datatype resource = Port port | Pool pool

definition pool_res :: "pool option \<Rightarrow> resource multiset" where
  "pool_res pl = (case pl of None \<Rightarrow> {#} | Some q \<Rightarrow> {#Pool q#})"

definition cleanup_res :: "cleanup \<Rightarrow> resource multiset" where
  "cleanup_res c = {#Port (cl_port c)#} + pool_res (cl_pool c)"

definition active_res :: "active_media option \<Rightarrow> resource multiset" where
  "active_res am = (case am of None \<Rightarrow> {#} | Some m \<Rightarrow> {#Pool (am_pool m)#})"

fun clean_res :: "port \<Rightarrow> clean_pc \<Rightarrow> resource multiset" where
  "clean_res p ClPending = {#Port p#}"
| "clean_res p (ClActive b) = {#Port p#}"
| "clean_res p (ClDecide b am) = {#Port p#} + active_res am"
| "clean_res p (ClRemove c) = {#}"
| "clean_res p (ClFallback c) = {#}"
| "clean_res p ClEnd = {#}"

fun callback_res :: "callback_pc \<Rightarrow> resource multiset" where
  "callback_res (CbPublish am) = {#Pool (am_pool am)#}"
| "callback_res _ = {#}"

fun setup_res :: "setup_pc \<Rightarrow> resource multiset" where
  "setup_res SCheck = {#}"
| "setup_res SLookup = {#}"
| "setup_res (SRegisterPort p) = {#Port p#}"
| "setup_res (SRegisterReady p) = {#Port p#}"
| "setup_res (SGeneration p ch) = {#Port p#}"
| "setup_res (SInsert p ch g) = {#Port p#}"
| "setup_res (SAnswer p ch g) = {#Port p#}"
| "setup_res (SWaitMedia p ch g) = {#Port p#}"
| "setup_res (SIntro p g) = {#Port p#}"
| "setup_res (SConnect p g) = {#Port p#}"
| "setup_res (SSpawn p g c) = {#Port p#}"
| "setup_res (SRemovePending p g cs) = {#Port (cs_port cs)#}"
| "setup_res (SCheckCancel p b cs) = {#Port (cs_port cs)#}"
| "setup_res (SInsertSession cs) = {#Port (cs_port cs)#}"
| "setup_res (SAbort r p g) = {#Port p#}"
| "setup_res (SCleanup r p pc) = clean_res p pc"
| "setup_res (SAfterAbort r) = {#}"
| "setup_res (SLate p pc) = clean_res p pc"
| "setup_res SDone = {#}"

fun main_res :: "main_pc \<Rightarrow> resource multiset" where
  "main_res MIdle = {#}"
| "main_res (MCancel c) = {#}"
| "main_res (MPersist c cs) = {#Port (cs_port cs)#}"
| "main_res (MClean c cs pc) = clean_res (cs_port cs) pc"

definition sip_owned :: "'a sip_state_scheme \<Rightarrow> resource multiset" where
  "sip_owned s =
     hm_values (\<lambda>am. {#Pool (am_pool am)#}) (active_media s) + hm_values cleanup_res (pending_cleanup s) +
     list_values cleanup_res (deferred s) + mset (map Port (destroyed s)) + mset (map Pool (released s))"

definition owned :: "sys \<Rightarrow> resource multiset" where
  "owned s =
     list_values (\<lambda>t. setup_res (st_pc t)) (setups s) +
     hm_values (\<lambda>cs. {#Port (cs_port cs)#}) (sessions s) + main_res (main_loop s) +
     list_values (\<lambda>m. callback_res (mt_pc m)) (media_threads s) + sip_owned s"

definition allocated :: "'a sip_state_scheme \<Rightarrow> resource multiset" where
  "allocated s = mset (map Port [0..<next_port s]) + mset (map Pool [0..<next_pool s])"

definition owned_inv :: "sys \<Rightarrow> bool" where
  "owned_inv s \<longleftrightarrow> owned s \<subseteq># allocated s"

text \<open>A part of the program that held \<open>a\<close> goes from \<open>s\<close> to \<open>s'\<close> and holds \<open>b\<close> after, with no
  resource but new allocations coming from elsewhere.\<close>

definition flow ::
  "resource multiset \<Rightarrow> 'a sip_state_scheme \<Rightarrow> resource multiset \<Rightarrow> 'a sip_state_scheme \<Rightarrow> bool" where
  "flow a s b s' \<longleftrightarrow> (\<exists>N. allocated s' = allocated s + N \<and> b + sip_owned s' \<subseteq># a + sip_owned s + N)"

lemma flowI:
  "allocated s' = allocated s \<Longrightarrow> b + sip_owned s' \<subseteq># a + sip_owned s \<Longrightarrow> flow a s b s'"
  by (auto simp: flow_def intro: exI[of _ "{#}"])

lemma take_active_media_flow:
  "take_active_media call s = (am, s') \<Longrightarrow> flow a s (a + active_res am) s'"
  using hm_values_take[of "active_media s" call _ "\<lambda>am. {#Pool (am_pool am)#}"]
  by (intro flowI) (auto simp: take_active_media_def allocated_def sip_owned_def active_res_def ac_simps
      split: option.splits)

lemma take_pending_cleanup_flow:
  "take_pending_cleanup conf s = (c, s') \<Longrightarrow>
     flow a s (a + (case c of None \<Rightarrow> {#} | Some c \<Rightarrow> cleanup_res c)) s'"
  using hm_values_take[of "pending_cleanup s" conf _ cleanup_res]
  by (intro flowI) (auto simp: take_pending_cleanup_def allocated_def sip_owned_def ac_simps
      split: option.splits)

lemma register_pending_cleanup_flow:
  "flow ({#Port p#} + pool_res pl) s {#} (register_pending_cleanup conf p pl s)"
  using hm_values_insert[of cleanup_res conf "\<lparr>cl_port = p, cl_pool = pl\<rparr>" "pending_cleanup s"]
  by (intro flowI) (auto simp: register_pending_cleanup_def allocated_def sip_owned_def cleanup_res_def
      ac_simps)

lemma destroy_port_flow: "flow {#Port p#} s {#} (destroy_port p s)"
  by (intro flowI) (auto simp: destroy_port_def allocated_def sip_owned_def ac_simps)

lemma run_cleanup_flow: "flow (cleanup_res c) s {#} (run_cleanup c s)"
  by (intro flowI) (auto simp: run_cleanup_def release_pool_def destroy_port_def allocated_def
      sip_owned_def cleanup_res_def pool_res_def ac_simps split: option.splits)

lemma spawn_deferred_flow: "flow (cleanup_res c) s {#} (spawn_deferred c s)"
  by (intro flowI) (auto simp: spawn_deferred_def allocated_def sip_owned_def ac_simps)

lemma flow_refl: "sip_owned s' = sip_owned s \<Longrightarrow> allocated s' = allocated s \<Longrightarrow> flow a s a s'"
  by (intro flowI) auto

lemma flow_less: "flow a s b s' \<Longrightarrow> c \<subseteq># b \<Longrightarrow> flow a s c s'"
  by (auto simp: flow_def) (meson subset_mset.add_right_mono subset_mset.order_trans)

lemma flow_new:
  "allocated s' = allocated s + N \<Longrightarrow> b + sip_owned s' \<subseteq># a + sip_owned s + N \<Longrightarrow> flow a s b s'"
  by (auto simp: flow_def)

lemma flow_trans:
  assumes "flow a s b s1" and "flow b s1 c s'"
  shows "flow a s c s'"
proof -
  from assms(1) obtain N where N: "allocated s1 = allocated s + N" "b + sip_owned s1 \<subseteq># a + sip_owned s + N"
    by (auto simp: flow_def)
  from assms(2) obtain M where M: "allocated s' = allocated s1 + M" "c + sip_owned s' \<subseteq># b + sip_owned s1 + M"
    by (auto simp: flow_def)
  have "b + sip_owned s1 + M \<subseteq># a + sip_owned s + N + M" using N(2) by simp
  with M(2) have "c + sip_owned s' \<subseteq># a + sip_owned s + (N + M)"
    by (metis subset_mset.order_trans add.assoc)
  with N(1) M(1) show ?thesis by (auto simp: flow_def ac_simps)
qed

lemma flow_more: "flow a s b s' \<Longrightarrow> flow (a + c) s b s'"
  by (rule flow_trans[of _ s a s]) (auto intro: flowI)

lemma spawn_port_flow: "flow {#Port p#} s {#} (spawn_deferred \<lparr>cl_port = p, cl_pool = None\<rparr> s)"
  using spawn_deferred_flow[of "\<lparr>cl_port = p, cl_pool = None\<rparr>" s] by (simp add: cleanup_res_def pool_res_def)

lemma clean_step_flow:
  "flow (clean_res p pc) s (clean_res p (fst (clean_step fb st call p pc s))) (snd (clean_step fb st call p pc s))"
proof (cases pc)
  case ClPending
  then show ?thesis
    by (auto simp: clean_step_def unregister_pending_port_def sip_owned_def allocated_def intro: flow_refl)
next
  case (ClActive b)
  obtain am s1 where t: "take_active_media call s = (am, s1)" by fastforce
  with ClActive take_active_media_flow[OF t, of "{#Port p#}"] show ?thesis by (simp add: clean_step_def)
next
  case (ClDecide b am)
  show ?thesis
  proof (cases b)
    case True
    with ClDecide flow_more[OF destroy_port_flow[of p s], of "active_res am"] show ?thesis
      by (simp add: clean_step_def)
  next
    case False
    show ?thesis
    proof (cases am)
      case None
      with False ClDecide spawn_port_flow[of p s] flow_more[OF flow_refl[of s s "{#}"], of "{#Port p#}"]
      show ?thesis by (simp add: clean_step_def active_res_def)
    next
      case (Some m)
      with False ClDecide register_pending_cleanup_flow[of p "Some (am_pool m)" s "am_conf_port_id m"]
      show ?thesis by (simp add: clean_step_def active_res_def pool_res_def)
    qed
  qed
next
  case (ClRemove conf)
  then show ?thesis by (auto simp: clean_step_def intro: flow_refl)
next
  case (ClFallback conf)
  obtain c s1 where t: "take_pending_cleanup conf s = (c, s1)" by fastforce
  show ?thesis
  proof (cases c)
    case None
    with t ClFallback take_pending_cleanup_flow[OF t, of "{#}"] show ?thesis by (simp add: clean_step_def)
  next
    case (Some d)
    with t ClFallback flow_trans[OF _ spawn_deferred_flow[of d s1]] take_pending_cleanup_flow[OF t, of "{#}"]
    show ?thesis by (simp add: clean_step_def)
  qed
next
  case ClEnd
  then show ?thesis by (auto simp: clean_step_def intro: flow_refl)
qed

lemma media_step_flow:
  "flow (callback_res pc) s (callback_res (fst (media_step out call pc s))) (snd (media_step out call pc s))"
proof (cases pc)
  case (CbHeld p)
  show ?thesis
  proof (cases out)
    case AddFailed
    show ?thesis
      by (rule flow_new[where N = "{#Pool (next_pool s)#}"])
        (simp_all add: CbHeld AddFailed media_step_def release_pool_def allocated_def sip_owned_def)
  next
    case (Added conf)
    show ?thesis
      by (rule flow_new[where N = "{#Pool (next_pool s)#}"])
        (simp_all add: CbHeld Added media_step_def allocated_def sip_owned_def)
  qed (simp_all add: CbHeld media_step_def flow_refl)
next
  case (CbPublish am)
  then show ?thesis
    using hm_values_insert[of "\<lambda>am. {#Pool (am_pool am)#}" call am "active_media s"]
    by (intro flowI) (auto simp: media_step_def allocated_def sip_owned_def ac_simps)
qed (auto simp: media_step_def registry_ops sip_owned_def allocated_def intro: flow_refl split: option.splits)

subsection \<open>Every step conserves resources\<close>

definition parts :: "sys \<Rightarrow> resource multiset" where
  "parts s =
     list_values (\<lambda>t. setup_res (st_pc t)) (setups s) +
     hm_values (\<lambda>cs. {#Port (cs_port cs)#}) (sessions s) + main_res (main_loop s) +
     list_values (\<lambda>m. callback_res (mt_pc m)) (media_threads s)"

lemma mset_swap:
  fixes L :: "'a multiset"
  assumes "L' + a = L + b"
  shows "L' + S + M + T + a = L + S + M + T + b"
proof -
  have "L' + S + M + T + a = (L' + a) + (S + M + T)" by (simp add: ac_simps)
  also have "\<dots> = L + S + M + T + b" unfolding assms by (simp add: ac_simps)
  finally show ?thesis .
qed

lemma mset_move:
  fixes L :: "'a multiset"
  assumes "L' + p = L" and "H' \<subseteq># p + H"
  shows "L' + H' + M + T \<subseteq># L + H + M + T"
proof -
  have "L' + H' + (M + T) \<subseteq># L' + (p + H) + (M + T)"
    using assms(2) by simp
  also have "\<dots> = L + H + M + T" unfolding assms(1)[symmetric] by (simp add: ac_simps)
  finally show ?thesis by (simp add: ac_simps)
qed

lemma owned_parts: "owned s = parts s + sip_owned s"
  by (simp add: owned_def parts_def)

lemma owned_inv_flow:
  assumes "owned_inv s" and "flow a s b s'" and "parts s' + a \<subseteq># parts s + b"
  shows "owned_inv s'"
proof -
  obtain N where N: "allocated s' = allocated s + N" "b + sip_owned s' \<subseteq># a + sip_owned s + N"
    using assms(2) by (auto simp: flow_def)
  have "parts s' + a + sip_owned s' \<subseteq># parts s + b + sip_owned s'" using assms(3) by simp
  also have "\<dots> \<subseteq># parts s + (a + sip_owned s + N)"
    using N(2) by (simp add: ac_simps)
  finally have "owned s' + a \<subseteq># (owned s + N) + a" by (simp add: owned_parts ac_simps)
  then have "owned s' \<subseteq># owned s + N" by simp
  also have "\<dots> \<subseteq># allocated s + N" using assms(1) by (simp add: owned_inv_def)
  finally show ?thesis by (simp add: owned_inv_def N(1))
qed

lemma owned_inv_flow_eq:
  assumes "owned_inv s" and "flow a s b s'" and "parts s' + a = parts s + b"
  shows "owned_inv s'"
  by (rule owned_inv_flow[OF assms(1,2)]) (rule subset_mset.eq_refl[OF assms(3)])

lemma owned_inv_setup:
  assumes "owned_inv s" and "i < length (setups s)"
    and "flow (setup_res (st_pc (setups s ! i))) s (setup_res (st_pc t')) s'"
    and "setups s' = (setups s)[i := t']" and "sessions s' = sessions s"
    and "main_loop s' = main_loop s" and "media_threads s' = media_threads s"
  shows "owned_inv s'"
proof -
  let ?f = "\<lambda>t. setup_res (st_pc t)"
  have "list_values ?f (setups s') + ?f (setups s ! i) = list_values ?f (setups s) + ?f t'"
    unfolding assms(4) by (rule list_values_update[OF assms(2)])
  from mset_swap[OF this] have "parts s' + ?f (setups s ! i) = parts s + ?f t'"
    unfolding parts_def assms(5,6,7) .
  with assms(1,3) show ?thesis by (rule owned_inv_flow_eq)
qed

text \<open>The shape of the sessions a setup is about to store.\<close>

fun setup_shape :: "nat \<Rightarrow> setup_pc \<Rightarrow> bool" where
  "setup_shape i (SRemovePending p g cs) = (cs_port cs = p \<and> cs_handles cs = session_handles i)"
| "setup_shape i (SCheckCancel p b cs) = (cs_port cs = p \<and> cs_handles cs = session_handles i)"
| "setup_shape i (SInsertSession cs) = (cs_handles cs = session_handles i)"
| "setup_shape i _ = True"

definition shape_inv :: "sys \<Rightarrow> bool" where
  "shape_inv s \<longleftrightarrow> (\<forall>i < length (setups s). setup_shape i (st_pc (setups s ! i)))"

lemma goto_simps [simp]:
  "st_pc (goto pc t) = pc" "st_call (goto pc t) = st_call t" "st_last_channel (goto pc t) = st_last_channel t"
  "st_caller_number (goto pc t) = st_caller_number t" "st_mumble_server (goto pc t) = st_mumble_server t"
  by (simp_all add: goto_def)

lemma remove_pending_setup_simps [simp]:
  "sessions (snd (remove_pending_setup call gen s)) = sessions s"
  "setups (snd (remove_pending_setup call gen s)) = setups s"
  "main_loop (snd (remove_pending_setup call gen s)) = main_loop s"
  "media_threads (snd (remove_pending_setup call gen s)) = media_threads s"
  "cancelled (snd (remove_pending_setup call gen s)) = cancelled s"
  "next_setup_generation (snd (remove_pending_setup call gen s)) = next_setup_generation s"
  "sip_owned (snd (remove_pending_setup call gen s)) = sip_owned s"
  "allocated (snd (remove_pending_setup call gen s)) = allocated s"
  by (auto simp: remove_pending_setup_def sip_owned_def allocated_def split: option.splits)

lemma setup_action_frame:
  "setup_action cfg i ans t s = (t', s') \<Longrightarrow>
     setups s' = setups s \<and> main_loop s' = main_loop s \<and> media_threads s' = media_threads s \<and>
     cancelled s' = cancelled s \<and> st_call t' = st_call t"
  by (cases "st_pc t"; cases ans)
    (auto simp: setup_action_def finish_action_def Let_def case_prod_beta manager_op_defs
      register_pending_port_def spawn_deferred_def create_port_def split: if_splits)

lemma setup_action_shape:
  "setup_shape i (st_pc t) \<Longrightarrow> setup_action cfg i ans t s = (t', s') \<Longrightarrow> setup_shape i (st_pc t')"
  by (cases "st_pc t"; cases ans)
    (auto simp: setup_action_def finish_action_def Let_def case_prod_beta new_session_def split: if_splits)

lemma flow_manager [simp]:
  "flow a s b (s'\<lparr>pending_setups := x\<rparr>) = flow a s b s'" "flow a s b (abort_tasks hs s') = flow a s b s'"
  "flow a s b (spawn_tasks hs s') = flow a s b s'" "flow a s b (hangup c n s') = flow a s b s'"
  "flow a s b (s'\<lparr>next_setup_generation := g\<rparr>) = flow a s b s'"
  "flow a s b (s'\<lparr>sessions := ss\<rparr>) = flow a s b s'"
  by (simp_all add: flow_def sip_owned_def allocated_def manager_op_defs)

lemma flow_self [simp]: "flow a s a s"
  by (rule flow_refl) simp_all

lemma create_port_flow: "flow {#} s {#Port (next_port s)#} (snd (create_port s))"
  by (rule flow_new[where N = "{#Port (next_port s)#}"])
    (simp_all add: create_port_def allocated_def sip_owned_def)

lemma registry_flow [simp]:
  "flow a s a (register_pending_port call p s)" "flow a s a (snd (register_media_ready call s))"
  "flow a s a (unregister_media_ready call s)"
  by (rule flow_refl; simp add: registry_ops Let_def sip_owned_def allocated_def split: option.splits)+

lemma remove_pending_setup_flow [simp]: "flow a s a (snd (remove_pending_setup call gen s))"
  by (rule flow_refl) simp_all

lemma abandon_flow:
  "flow a s {#Port p#} s1 \<Longrightarrow> flow a s {#} (spawn_deferred \<lparr>cl_port = p, cl_pool = None\<rparr> s1)"
  by (rule flow_trans[OF _ spawn_port_flow])

lemma clean_step_flow_drop: "pc = ClEnd \<Longrightarrow> flow (clean_res p pc) s {#} s"
  by simp

lemma setup_action_flow:
  assumes "setup_shape i (st_pc t)" and "setup_action cfg i ans t s = (t', s')"
    and "\<forall>cs. st_pc t \<noteq> SInsertSession cs"
  shows "flow (setup_res (st_pc t)) s (setup_res (st_pc t')) s' \<and> sessions s' = sessions s"
proof (cases "st_pc t")
  case SCheck
  with assms(2) show ?thesis
    by (auto simp: setup_action_def finish_action_def Let_def hangup_def[abs_def] flow_refl sip_owned_def allocated_def split: if_splits)
next
  case SLookup
  with assms(2) create_port_flow[of s] show ?thesis
    by (cases ans) (auto simp: setup_action_def finish_action_def Let_def case_prod_beta,
        simp_all add: create_port_def spawn_tasks_def)
next
  case (SCleanup r p pc)
  with assms(2) clean_step_flow[of p pc s True "status_of ans" "st_call t"] show ?thesis
    by (auto simp: setup_action_def finish_action_def Let_def case_prod_beta split: if_splits)
next
  case (SLate p pc)
  with assms(2) clean_step_flow[of p pc s False "status_of ans" "st_call t"] show ?thesis
    by (auto simp: setup_action_def finish_action_def Let_def case_prod_beta split: if_splits)
next
  case (SAbort r p gen)
  with assms(2) show ?thesis
    by (auto simp: setup_action_def finish_action_def Let_def case_prod_beta split: if_splits intro!: abandon_flow)
      (auto simp: spawn_deferred_def abort_tasks_def)
next
  case (SCheckCancel p b cs)
  with assms show ?thesis
    by (auto simp: setup_action_def finish_action_def Let_def split: if_splits intro!: abandon_flow)
      (auto simp: spawn_deferred_def abort_tasks_def)
qed (use assms in \<open>cases ans; auto simp: setup_action_def finish_action_def Let_def case_prod_beta register_pending_port_def
    new_session_def spawn_tasks_def hangup_def flow_refl sip_owned_def allocated_def split: if_splits\<close>)+

lemma setup_step_parts:
  assumes "setup_action cfg i ans (setups s ! i) s = (t', s1)"
  shows "setup_step cfg i ans s = s1\<lparr>setups := (setups s)[i := t']\<rparr>"
  using setup_action_frame[OF assms] by (simp add: setup_step_def assms)

lemma flow_setups [simp]: "flow a s b (s'\<lparr>setups := x\<rparr>) = flow a s b s'"
  by (simp add: flow_def sip_owned_def allocated_def)

lemma setup_step_owned:
  assumes "owned_inv s" and "shape_inv s" and i: "i < length (setups s)"
  shows "owned_inv (setup_step cfg i ans s)"
proof -
  let ?t = "setups s ! i"
  obtain t' s1 where act: "setup_action cfg i ans ?t s = (t', s1)" by fastforce
  note frame = setup_action_frame[OF act] and step = setup_step_parts[OF act]
  show ?thesis
  proof (cases "\<exists>cs. st_pc ?t = SInsertSession cs")
    case True
    then obtain cs where cs: "st_pc ?t = SInsertSession cs" by blast
    with act have t': "t' = goto SDone ?t" "s1 = s\<lparr>sessions := hm_insert (st_call ?t) cs (sessions s)\<rparr>"
      by (simp_all add: setup_action_def finish_action_def Let_def)
    have "flow {#} s {#} (setup_step cfg i ans s)" unfolding step t' by simp
    with assms(1) show ?thesis
    proof (rule owned_inv_flow)
      have "list_values (\<lambda>t. setup_res (st_pc t)) ((setups s)[i := t']) + {#Port (cs_port cs)#}
          = list_values (\<lambda>t. setup_res (st_pc t)) (setups s)"
        using list_values_update[OF i, of "\<lambda>t. setup_res (st_pc t)" t'] cs t' by simp
      moreover have "hm_values (\<lambda>cs. {#Port (cs_port cs)#}) (hm_insert (st_call ?t) cs (sessions s))
          \<subseteq># {#Port (cs_port cs)#} + hm_values (\<lambda>cs. {#Port (cs_port cs)#}) (sessions s)"
        by (rule hm_values_insert)
      ultimately have "list_values (\<lambda>t. setup_res (st_pc t)) ((setups s)[i := t']) +
          hm_values (\<lambda>cs. {#Port (cs_port cs)#}) (hm_insert (st_call ?t) cs (sessions s)) + M + T
        \<subseteq># list_values (\<lambda>t. setup_res (st_pc t)) (setups s) +
          hm_values (\<lambda>cs. {#Port (cs_port cs)#}) (sessions s) + M + T" for M T
        by (rule mset_move)
      then show "parts (setup_step cfg i ans s) + {#} \<subseteq># parts s + {#}"
        unfolding step t' parts_def by simp
    qed
  next
    case False
    with setup_action_flow[OF _ act] assms(2) i
    have "flow (setup_res (st_pc ?t)) s (setup_res (st_pc t')) s1" "sessions s1 = sessions s"
      by (auto simp: shape_inv_def)
    with frame show ?thesis
      by (intro owned_inv_setup[OF assms(1) i, of t']) (simp_all add: step)
  qed
qed

lemma setup_step_shape:
  assumes "shape_inv s" and "i < length (setups s)"
  shows "shape_inv (setup_step cfg i ans s)"
proof -
  obtain t' s1 where act: "setup_action cfg i ans (setups s ! i) s = (t', s1)" by fastforce
  have "setup_shape i (st_pc t')"
    by (rule setup_action_shape[OF _ act]) (use assms in \<open>simp add: shape_inv_def\<close>)
  with assms(1) show ?thesis
    using all_nth_update[of "setups s" "\<lambda>j t. setup_shape j (st_pc t)" i t']
    by (simp add: setup_step_parts[OF act] shape_inv_def)
qed

lemma main_step_owned:
  assumes "owned_inv s"
  shows "owned_inv (main_step status s)"
proof (cases "main_loop s")
  case MIdle
  with assms show ?thesis by (simp add: main_step_def)
next
  case (MCancel call)
  with assms show ?thesis
    by (intro owned_inv_flow[OF assms, of "{#}" "{#}"] flow_refl)
      (auto simp: main_step_def cancel_pending_setup_def parts_def sip_owned_def allocated_def split: option.splits)
next
  case (MPersist call cs)
  with assms show ?thesis
    by (intro owned_inv_flow[OF assms, of "{#}" "{#}"] flow_refl)
      (auto simp: main_step_def manager_op_defs parts_def sip_owned_def allocated_def split: option.splits)
next
  case (MClean call cs pc)
  show ?thesis
  proof (cases "pc = ClEnd")
    case True
    with MClean show ?thesis
      by (intro owned_inv_flow[OF assms, of "{#}" "{#}"] flow_refl)
        (auto simp: main_step_def parts_def sip_owned_def allocated_def)
  next
    case False
    let ?c = "clean_step False status call (cs_port cs) pc s"
    have "flow (clean_res (cs_port cs) pc) s (clean_res (cs_port cs) (fst ?c)) (main_step status s)"
      using clean_step_flow[of "cs_port cs" pc s False status call] MClean False
      by (cases pc) (simp_all add: main_step_def case_prod_beta flow_def sip_owned_def allocated_def abort_tasks_def)
    moreover have "main_loop (main_step status s) = MClean call cs (fst ?c)"
      "setups (main_step status s) = setups s" "sessions (main_step status s) = sessions s"
      "media_threads (main_step status s) = media_threads s"
      using MClean False
      by (cases pc; simp add: main_step_def case_prod_beta abort_tasks_def)+
    ultimately have "flow (clean_res (cs_port cs) pc) s (clean_res (cs_port cs) (fst ?c)) (main_step status s)"
      and "parts (main_step status s) + clean_res (cs_port cs) pc = parts s + clean_res (cs_port cs) (fst ?c)"
      using MClean by (simp_all only: parts_def main_res.simps add.commute add.left_commute add.assoc)
    with assms show ?thesis by (rule owned_inv_flow_eq)
  qed
qed

lemma callback_step_owned:
  assumes "owned_inv s" and "j < length (media_threads s)"
  shows "owned_inv (callback_step j out s)"
proof -
  let ?m = "media_threads s ! j" let ?c = "media_step out (mt_call ?m) (mt_pc ?m) s"
  have "flow (callback_res (mt_pc ?m)) s (callback_res (fst ?c)) (callback_step j out s)"
    using media_step_flow[of "mt_pc ?m" s out "mt_call ?m"]
    by (simp add: callback_step_def Let_def case_prod_beta flow_def sip_owned_def allocated_def)
  with assms(1) show ?thesis
    by (rule owned_inv_flow)
      (use list_values_update[OF assms(2), of "\<lambda>m. callback_res (mt_pc m)" "?m\<lparr>mt_pc := fst ?c\<rparr>"] in
        \<open>simp add: parts_def callback_step_def Let_def case_prod_beta\<close>)
qed

lemma on_conf_op_completed_flow: "flow a s a (on_conf_op_completed info s)"
proof -
  have take: "flow a s a s1" if "take_pending_cleanup conf s = (None, s1)" for conf s1
    using take_pending_cleanup_flow[OF that, of a] by simp
  have found: "flow a s (a + cleanup_res c) s1" if "take_pending_cleanup conf s = (Some c, s1)" for conf s1 c
    using take_pending_cleanup_flow[OF that, of a] by simp
  have run: "flow (a + cleanup_res c) s1 a (run_cleanup c s1)" for c and s1 :: "'a sip_state_scheme"
    using run_cleanup_flow[of c s1] by (auto simp: flow_def ac_simps)
  show ?thesis
    by (auto simp: on_conf_op_completed_def split: option.splits prod.splits
        intro: take flow_less[OF found] flow_trans[OF found run])
qed

lemma run_deferred_flow: "flow a s a (run_deferred k s)"
proof (cases "k < length (deferred s)")
  case True
  let ?c = "deferred s ! k"
  let ?s1 = "s\<lparr>deferred := take k (deferred s) @ drop (Suc k) (deferred s)\<rparr>"
  have "sip_owned s = cleanup_res ?c + sip_owned ?s1"
    unfolding sip_owned_def using list_values_take_nth[OF True, of cleanup_res, symmetric]
    by (simp add: ac_simps)
  then have "flow a s (a + cleanup_res ?c) ?s1"
    by (intro flowI) (simp_all add: allocated_def ac_simps)
  moreover have "flow (a + cleanup_res ?c) ?s1 a (run_cleanup ?c ?s1)"
    using run_cleanup_flow[of ?c ?s1] by (auto simp: flow_def ac_simps)
  ultimately show ?thesis using True by (simp add: run_deferred_def flow_trans)
qed (simp add: run_deferred_def)

lemma owned_inv_frame:
  assumes "owned_inv s" and "flow {#} s {#} s'" and "setups s' = setups s" and "sessions s' = sessions s"
    and "main_loop s' = main_loop s" and "media_threads s' = media_threads s"
  shows "owned_inv s'"
  by (rule owned_inv_flow_eq[OF assms(1,2)]) (simp add: parts_def assms(3-6))

lemma dtmf_same:
  "\<exists>m. on_dtmf_digit call digit ok s = s\<lparr>sessions := m\<rparr> \<and>
     hm_values (\<lambda>cs. {#Port (cs_port cs)#}) m = hm_values (\<lambda>cs. {#Port (cs_port cs)#}) (sessions s)"
proof (cases "hm_get (sessions s) call")
  case None
  then show ?thesis by (intro exI[of _ "sessions s"]) (simp add: on_dtmf_digit_def)
next
  case (Some cs)
  let ?f = "\<lambda>cs. {#Port (cs_port cs)#}"
  have same: "hm_values ?f (hm_insert call cs' (sessions s)) = hm_values ?f (sessions s)"
    if "cs_port cs' = cs_port cs" for cs'
    using hm_values_same[OF Some, of ?f cs'] that by simp
  show ?thesis
  proof (cases "digit = 49 \<or> digit = 42 \<or> digit = 35")
    case True
    then obtain cs' where "on_dtmf_digit call digit ok s = s\<lparr>sessions := hm_insert call cs' (sessions s)\<rparr>"
      "cs_port cs' = cs_port cs"
      using Some by (auto simp: on_dtmf_digit_def navigate_def Let_def)
    with same show ?thesis by blast
  next
    case False
    with Some show ?thesis by (intro exI[of _ "sessions s"]) (simp add: on_dtmf_digit_def)
  qed
qed

lemma on_call_disconnected_owned:
  assumes "owned_inv s" and "main_loop s = MIdle"
  shows "owned_inv (on_call_disconnected call s)"
proof (cases "hm_get (sessions s) call")
  case None
  show ?thesis
    by (rule owned_inv_flow_eq[OF assms(1), of "{#}" "{#}"])
      (simp_all add: on_call_disconnected_def None parts_def assms(2) flow_refl sip_owned_def allocated_def)
next
  case (Some cs)
  let ?f = "\<lambda>cs. {#Port (cs_port cs)#}"
  have "hm_values ?f (hm_remove call (sessions s)) + {#Port (cs_port cs)#} \<subseteq># hm_values ?f (sessions s)"
    using hm_values_take[OF Some, of ?f] by simp
  then show ?thesis
    by (intro owned_inv_flow[OF assms(1), of "{#}" "{#}"])
      (simp_all add: on_call_disconnected_def Some parts_def assms(2) flow_refl sip_owned_def allocated_def)
qed

lemma sys_step_owned:
  assumes "owned_inv s" and "shape_inv s"
  shows "owned_inv (sys_step cfg e s)"
proof (cases e)
  case (EvIncoming call server number)
  with assms(1) show ?thesis
    by (intro owned_inv_flow_eq[OF assms(1), of "{#}" "{#}"])
      (simp_all add: parts_def flow_refl sip_owned_def allocated_def)
next
  case (EvDtmf call digit ok)
  obtain m where m: "on_dtmf_digit call digit ok s = s\<lparr>sessions := m\<rparr>"
    "hm_values (\<lambda>cs. {#Port (cs_port cs)#}) m = hm_values (\<lambda>cs. {#Port (cs_port cs)#}) (sessions s)"
    using dtmf_same by blast
  show ?thesis
    using EvDtmf assms(1) m
    by (auto simp: parts_def intro!: owned_inv_flow_eq[OF assms(1), of "{#}" "{#}"])
next
  case (EvMedia call)
  then show ?thesis
    by (intro owned_inv_flow_eq[OF assms(1), of "{#}" "{#}"])
      (simp_all add: parts_def flow_refl sip_owned_def allocated_def)
next
  case (EvConfOp op conf status)
  let ?s1 = "if op = RemovePort \<and> status = 0 then s\<lparr>conference := hm_remove conf (conference s)\<rparr> else s"
  have "flow {#} s {#} ?s1" by (auto intro!: flow_refl simp: sip_owned_def allocated_def)
  from flow_trans[OF this on_conf_op_completed_flow]
  show ?thesis
    using EvConfOp by (intro owned_inv_frame[OF assms(1)]) simp_all
next
  case (EvWriteDone k)
  with assms(1) show ?thesis
    by (intro owned_inv_frame[OF assms(1)]) (simp_all add: flow_refl sip_owned_def allocated_def)
next
  case (EvCallState call st)
  with assms(1) show ?thesis by (simp add: on_call_disconnected_owned)
next
  case (EvSetup i ans)
  with assms show ?thesis by (simp add: setup_step_owned)
next
  case (EvMain st)
  with assms show ?thesis by (simp add: main_step_owned)
next
  case (EvCallback j out)
  with assms show ?thesis by (simp add: callback_step_owned)
next
  case (EvDeferred k)
  with run_deferred_flow show ?thesis by (intro owned_inv_frame[OF assms(1)]) simp_all
qed

lemma main_step_frame:
  "setups (main_step status s) = setups s" "media_threads (main_step status s) = media_threads s"
  "sessions (main_step status s) = sessions s" "pending_setups (main_step status s) = pending_setups s"
  "next_setup_generation (main_step status s) = next_setup_generation s"
proof -
  have "setups (main_step status s) = setups s \<and> media_threads (main_step status s) = media_threads s \<and>
    sessions (main_step status s) = sessions s \<and> pending_setups (main_step status s) = pending_setups s \<and>
    next_setup_generation (main_step status s) = next_setup_generation s"
  proof (cases "main_loop s")
    case (MClean call cs pc)
    then show ?thesis by (cases pc) (simp_all add: main_step_def case_prod_beta abort_tasks_def)
  qed (simp_all add: main_step_def manager_op_defs split: option.split)
  then show "setups (main_step status s) = setups s" "media_threads (main_step status s) = media_threads s"
    "sessions (main_step status s) = sessions s" "pending_setups (main_step status s) = pending_setups s"
    "next_setup_generation (main_step status s) = next_setup_generation s"
    by blast+
qed

lemma setups_other:
  "setups (sys_step cfg e s) = setups s \<or>
   (\<exists>call server number. e = EvIncoming call server number \<and> setups (sys_step cfg e s) = setups s @
      [\<lparr>st_call = call, st_mumble_server = server, st_caller_number = number, st_last_channel = None,
        st_play_intro = False, st_sounds = [], st_pc = SCheck\<rparr>]) \<or>
   (\<exists>i ans. e = EvSetup i ans \<and> i < length (setups s) \<and> sys_step cfg e s = setup_step cfg i ans s)"
proof (cases e)
  case (EvCallState call st)
  then show ?thesis by (simp add: on_call_disconnected_def split: option.split)
next
  case (EvDtmf call digit ok)
  then show ?thesis by (simp add: on_dtmf_digit_def Let_def split: option.split)
next
  case (EvMain st)
  then show ?thesis by (simp add: main_step_frame)
next
  case (EvCallback j out)
  then show ?thesis by (simp add: callback_step_def Let_def case_prod_beta)
qed simp_all

lemma sys_step_shape:
  assumes "shape_inv s"
  shows "shape_inv (sys_step cfg e s)"
  using setups_other[of cfg e s]
proof (elim disjE exE conjE)
  fix call server number
  assume "setups (sys_step cfg e s) = setups s @ [\<lparr>st_call = call, st_mumble_server = server,
    st_caller_number = number, st_last_channel = None, st_play_intro = False, st_sounds = [], st_pc = SCheck\<rparr>]"
  with assms show ?thesis by (simp add: shape_inv_def nth_append)
qed (use assms in \<open>auto simp: shape_inv_def setup_step_shape[unfolded shape_inv_def]\<close>)

interpretation shaped: invariant_machine "sys_step cfg" shape_inv for cfg
  by unfold_locales (rule sys_step_shape)

interpretation owning: relative_invariant "sys_step cfg" shape_inv owned_inv for cfg
  by unfold_locales (simp add: sys_step_owned)

lemma reachable_owned: "reachable cfg s \<Longrightarrow> owned_inv s \<and> shape_inv s"
proof -
  have "shape_inv initial_sys \<and> owned_inv initial_sys"
    by (simp add: owned_inv_def owned_def shape_inv_def initial_sys_def sip_owned_def)
  then show "reachable cfg s \<Longrightarrow> owned_inv s \<and> shape_inv s"
    by (auto simp: reachable_iff_run sys_run_def owning.run_rel shaped.run_keeps)
qed

subsection \<open>Properties\<close>

lemma allocated_count: "count (allocated s) r \<le> 1"
proof -
  have "distinct (map Port [0..<next_port s] @ map Pool [0..<next_pool s])"
    by (auto simp: distinct_map inj_on_def)
  then have "count (mset (map Port [0..<next_port s] @ map Pool [0..<next_pool s])) r \<le> 1"
    by (simp only: distinct_count_atmost_1) simp
  then show ?thesis by (simp add: allocated_def)
qed

lemma owned_count: "owned_inv s \<Longrightarrow> count (owned s) r \<le> 1"
  using allocated_count[of s r] mset_subset_eq_count[of "owned s" "allocated s" r]
  by (simp add: owned_inv_def)

lemma owned_disjoint:
  assumes "owned_inv s" and "owned s = A + B" and "r \<in># A"
  shows "r \<notin># B"
proof
  assume "r \<in># B"
  then have "0 < count A r" "0 < count B r" using assms(3) by (simp_all add: count_greater_zero_iff)
  with owned_count[OF assms(1), of r] show False by (simp add: assms(2))
qed

lemma owned_distinct_freed:
  assumes "owned_inv s"
  shows "distinct (destroyed s) \<and> distinct (released s)"
proof -
  have "mset (map Port (destroyed s)) + mset (map Pool (released s)) \<subseteq># owned s"
    by (simp add: owned_def sip_owned_def)
  then have "count (mset (map Port (destroyed s) @ map Pool (released s))) r \<le> 1" for r
    using owned_count[OF assms, of r] mset_subset_eq_count
    by (metis (no_types, lifting) le_trans mset_append)
  then have "distinct (map Port (destroyed s) @ map Pool (released s))"
    unfolding distinct_count_atmost_1 by (metis One_nat_def count_eq_zero_iff le_Suc_eq le_zero_eq set_mset_mset)
  then show ?thesis by (auto simp: distinct_map)
qed

text \<open>C1. In every reachable state, whatever the interleaving of setups, disconnects, media
  callbacks, conference completions and deferred cleanups, and even when call ids are recycled,
  no media port has been destroyed twice and no pool released twice, and a port that a session,
  a pending cleanup or a deferred cleanup will still destroy has not been destroyed yet.\<close>

theorem ports_destroyed_once:
  assumes "reachable cfg s"
  shows "distinct (destroyed s) \<and> distinct (released s) \<and>
    (\<forall>call cs. hm_get (sessions s) call = Some cs \<longrightarrow> cs_port cs \<notin> set (destroyed s)) \<and>
    (\<forall>conf c. hm_get (pending_cleanup s) conf = Some c \<longrightarrow> cl_port c \<notin> set (destroyed s)) \<and>
    (\<forall>c \<in> set (deferred s). cl_port c \<notin> set (destroyed s))"
proof -
  have inv: "owned_inv s" using assms reachable_owned by blast
  let ?ss = "hm_values (\<lambda>cs. {#Port (cs_port cs)#}) (sessions s)"
  let ?pc = "hm_values cleanup_res (pending_cleanup s)" and ?df = "list_values cleanup_res (deferred s)"
  obtain R where R: "owned s = (?ss + ?pc + ?df) + (mset (map Port (destroyed s)) + R)"
    by (rule that) (simp add: owned_def sip_owned_def ac_simps)
  have gone: "p \<notin> set (destroyed s)" if "Port p \<in># ?ss + ?pc + ?df" for p
    using owned_disjoint[OF inv R that] by auto
  have "cs_port cs \<notin> set (destroyed s)" if "hm_get (sessions s) call = Some cs" for call cs
    using hm_values_member[OF that, of "\<lambda>cs. {#Port (cs_port cs)#}"] by (intro gone) (auto simp: mset_subset_eqD)
  moreover have "cl_port c \<notin> set (destroyed s)" if "hm_get (pending_cleanup s) conf = Some c" for conf c
    using hm_values_member[OF that, of cleanup_res] by (intro gone) (auto simp: cleanup_res_def mset_subset_eqD)
  moreover have "cl_port c \<notin> set (destroyed s)" if "c \<in> set (deferred s)" for c
    using list_values_member[OF that, of cleanup_res] by (intro gone) (auto simp: cleanup_res_def mset_subset_eqD)
  ultimately show ?thesis using owned_distinct_freed[OF inv] by blast
qed

lemma ports_destroyed_once_witness:
  "let s = sys_run (bridge_for 2) (call_established 4 0 7 @ call_hangs_up 4 7) initial_sys
   in destroyed s = [0] \<and> released s = [0] \<and> distinct (destroyed s)"
proof -
  let ?s = "sys_run (bridge_for 2) (call_established 4 0 7 @ call_hangs_up 4 7) initial_sys"
  have "distinct (destroyed ?s)"
    using ports_destroyed_once[OF reachable_run[OF reachable_init], of "bridge_for 2"] by blast
  moreover have "destroyed ?s = [0] \<and> released ?s = [0]"
    by code_simp
  ultimately show ?thesis by (simp add: Let_def)
qed

end
