(* ===== verification/SessionProtocol.thy ===== *)
theory SessionProtocol
  imports SessionSafety
begin

text \<open>
  The protocol of \<^verbatim>\<open>pending_setups\<close>: generations, cancellation, admission, progress of a setup,
  and the channel navigation of an established session.
\<close>

subsection \<open>Entries of pending_setups\<close>

text \<open>The generation under which a setup is registered, between inserting its entry and removing it.\<close>

fun registered :: "setup_pc \<Rightarrow> u64 option" where
  "registered (SAnswer p ch g) = Some g"
| "registered (SWaitMedia p ch g) = Some g"
| "registered (SIntro p g) = Some g"
| "registered (SConnect p g) = Some g"
| "registered (SSpawn p g c) = Some g"
| "registered (SRemovePending p g cs) = Some g"
| "registered (SAbort r p g) = Some g"
| "registered _ = None"

definition pending_inv :: "sys \<Rightarrow> bool" where
  "pending_inv s \<longleftrightarrow>
     hm_wf (pending_setups s) \<and>
     (\<forall>call g tok. hm_get (pending_setups s) call = Some (g, tok) \<longrightarrow>
        tok < length (setups s) \<and> st_call (setups s ! tok) = call \<and>
        registered (st_pc (setups s ! tok)) = Some g)"

lemma pending_invD:
  assumes "pending_inv s" and "hm_get (pending_setups s) call = Some (g, tok)"
  shows "tok < length (setups s)" "st_call (setups s ! tok) = call"
    "registered (st_pc (setups s ! tok)) = Some g"
  using assms unfolding pending_inv_def by blast+

lemma setup_action_pending:
  assumes "setup_action cfg i ans t s = (t', s')"
  shows "(pending_setups s' = pending_setups s \<and> registered (st_pc t') = registered (st_pc t)) \<or>
    (\<exists>g. registered (st_pc t') = Some g \<and> registered (st_pc t) = None \<and>
       pending_setups s' = hm_insert (st_call t) (g, i) (pending_setups s)) \<or>
    (\<exists>g. registered (st_pc t) = Some g \<and> registered (st_pc t') = None \<and>
       pending_setups s' = pending_setups (snd (remove_pending_setup (st_call t) g s)))"
  using assms
  by (cases "st_pc t"; cases ans)
    (auto simp: setup_action_def finish_action_def Let_def case_prod_beta manager_op_defs
      register_pending_port_def spawn_deferred_def create_port_def split: if_splits)

lemma remove_pending_lookup:
  "hm_get (pending_setups (snd (remove_pending_setup call g s))) c =
     (if c = call \<and> (\<exists>tok. hm_get (pending_setups s) call = Some (g, tok)) then None
      else hm_get (pending_setups s) c)"
  by (auto simp: remove_pending_setup_def split: option.splits)

lemma remove_pending_wf:
  "hm_wf (pending_setups s) \<Longrightarrow> hm_wf (pending_setups (snd (remove_pending_setup call g s)))"
  by (auto simp: remove_pending_setup_def split: option.splits)

lemma setup_step_pending:
  assumes inv: "pending_inv s" and i: "i < length (setups s)"
  shows "pending_inv (setup_step cfg i ans s)"
proof -
  let ?t = "setups s ! i"
  obtain t' s1 where act: "setup_action cfg i ans ?t s = (t', s1)" by fastforce
  let ?s' = "setup_step cfg i ans s"
  have s': "pending_setups ?s' = pending_setups s1" "setups ?s' = (setups s)[i := t']"
    by (simp_all add: setup_step_parts[OF act])
  have call: "st_call t' = st_call ?t" using setup_action_frame[OF act] by blast
  have "hm_wf (pending_setups s1)"
    using setup_action_pending[OF act] inv remove_pending_wf by (auto simp: pending_inv_def)
  moreover have "tok < length (setups s) \<and> st_call ((setups s)[i := t'] ! tok) = c \<and>
      registered (st_pc ((setups s)[i := t'] ! tok)) = Some g"
    if get: "hm_get (pending_setups s1) c = Some (g, tok)" for c g tok
    using setup_action_pending[OF act]
  proof (elim disjE exE conjE)
    assume "pending_setups s1 = pending_setups s" "registered (st_pc t') = registered (st_pc ?t)"
    with pending_invD[OF inv, of c g tok] get i call show ?thesis by (cases "tok = i") auto
  next
    fix h
    assume h: "registered (st_pc t') = Some h" "registered (st_pc ?t) = None"
      "pending_setups s1 = hm_insert (st_call ?t) (h, i) (pending_setups s)"
    show ?thesis
    proof (cases "c = st_call ?t")
      case True
      with get h i call show ?thesis by simp
    next
      case False
      with get h have old: "hm_get (pending_setups s) c = Some (g, tok)" by simp
      from pending_invD[OF inv old] h have "tok \<noteq> i" by auto
      with pending_invD[OF inv old] show ?thesis by simp
    qed
  next
    fix h
    assume h: "registered (st_pc ?t) = Some h" "registered (st_pc t') = None"
      "pending_setups s1 = pending_setups (snd (remove_pending_setup (st_call ?t) h s))"
    then have old: "hm_get (pending_setups s) c = Some (g, tok)"
      and kept: "\<not> (c = st_call ?t \<and> h = g)"
      using get by (auto simp: remove_pending_lookup split: if_splits)
    from pending_invD[OF inv old] h kept have "tok \<noteq> i" by auto
    with pending_invD[OF inv old] show ?thesis by simp
  qed
  ultimately show ?thesis unfolding pending_inv_def s' by simp
qed

lemma pending_other:
  "(\<forall>i ans. e \<noteq> EvSetup i ans) \<Longrightarrow> pending_setups (sys_step cfg e s) = pending_setups s"
  by (cases e) (auto simp: main_step_frame on_call_disconnected_def on_dtmf_digit_def callback_step_def
      Let_def case_prod_beta split: option.split)

lemma pending_inv_cong:
  assumes "pending_inv s" and "pending_setups s' = pending_setups s"
    and "setups s' = setups s \<or> (\<exists>t. setups s' = setups s @ [t])"
  shows "pending_inv s'"
  using assms by (auto simp: pending_inv_def nth_append less_SucI)

lemma sys_step_pending:
  assumes "pending_inv s"
  shows "pending_inv (sys_step cfg e s)"
proof (cases "\<exists>i ans. e = EvSetup i ans")
  case True
  then obtain i ans where "e = EvSetup i ans" by blast
  with assms show ?thesis by (simp add: setup_step_pending)
next
  case False
  then show ?thesis
    using pending_inv_cong[OF assms pending_other] setups_other[of cfg e s] by blast
qed

interpretation pending: invariant_machine "sys_step cfg" pending_inv for cfg
  by unfold_locales (rule sys_step_pending)

lemma reachable_pending: "reachable cfg s \<Longrightarrow> pending_inv s"
proof -
  have "pending_inv initial_sys" by (simp add: pending_inv_def initial_sys_def)
  then show "reachable cfg s \<Longrightarrow> pending_inv s" by (auto simp: reachable_iff_run sys_run_def pending.run_keeps)
qed

subsection \<open>Generations\<close>

fun generation :: "setup_pc \<Rightarrow> u64 option" where
  "generation (SInsert p ch g) = Some g"
| "generation pc = registered pc"

fun ungenerated :: "setup_pc \<Rightarrow> bool" where
  "ungenerated SCheck = True"
| "ungenerated SLookup = True"
| "ungenerated (SRegisterPort p) = True"
| "ungenerated (SRegisterReady p) = True"
| "ungenerated (SGeneration p ch) = True"
| "ungenerated _ = False"

lemma registered_generation: "registered pc = Some g \<Longrightarrow> generation pc = Some g"
  by (cases pc) auto

lemma ungenerated_None: "ungenerated pc \<Longrightarrow> generation pc = None"
  by (cases pc) auto

text \<open>As long as fewer than \<open>2 ^ 64\<close> calls have come in, the counter has not wrapped and the
  generations in use are below it and distinct.\<close>

definition gen_inv :: "sys \<Rightarrow> bool" where
  "gen_inv s \<longleftrightarrow>
     unat (next_setup_generation s) + length (filter (\<lambda>t. ungenerated (st_pc t)) (setups s))
       \<le> length (setups s) \<and>
     (\<forall>i < length (setups s). \<forall>g. generation (st_pc (setups s ! i)) = Some g \<longrightarrow>
        g < next_setup_generation s) \<and>
     (\<forall>i < length (setups s). \<forall>j < length (setups s). \<forall>g.
        generation (st_pc (setups s ! i)) = Some g \<longrightarrow> generation (st_pc (setups s ! j)) = Some g \<longrightarrow> i = j)"

lemma setup_action_generation:
  assumes "setup_action cfg i ans t s = (t', s')"
  shows "(next_setup_generation s' = next_setup_generation s \<and>
      (generation (st_pc t') = generation (st_pc t) \<or> generation (st_pc t') = None) \<and>
      (ungenerated (st_pc t') \<longrightarrow> ungenerated (st_pc t))) \<or>
    (generation (st_pc t') = Some (next_setup_generation s) \<and> ungenerated (st_pc t) \<and>
       \<not> ungenerated (st_pc t') \<and> next_setup_generation s' = next_setup_generation s + 1)"
  using assms
  by (cases "st_pc t"; cases ans)
    (auto simp: setup_action_def finish_action_def Let_def case_prod_beta manager_op_defs
      register_pending_port_def spawn_deferred_def create_port_def split: if_splits)

lemma filter_update_le:
  "i < length xs \<Longrightarrow> (P y \<longrightarrow> P (xs ! i)) \<Longrightarrow> length (filter P (xs[i := y])) \<le> length (filter P xs)"
proof (induction xs arbitrary: i)
  case (Cons x xs)
  then show ?case by (cases i) (auto simp: le_SucI)
qed simp

lemma filter_update_less:
  "i < length xs \<Longrightarrow> \<not> P y \<Longrightarrow> P (xs ! i) \<Longrightarrow>
     Suc (length (filter P (xs[i := y]))) = length (filter P xs)"
proof (induction xs arbitrary: i)
  case (Cons x xs)
  then show ?case by (cases i) auto
qed simp

lemma setup_step_gen:
  assumes inv: "gen_inv s" and i: "i < length (setups s)" and few: "length (setups s) < 2 ^ 64"
  shows "gen_inv (setup_step cfg i ans s)"
proof -
  let ?t = "setups s ! i" let ?n = "next_setup_generation s" let ?P = "\<lambda>t. ungenerated (st_pc t)"
  obtain t' s1 where act: "setup_action cfg i ans ?t s = (t', s1)" by fastforce
  have s': "next_setup_generation (setup_step cfg i ans s) = next_setup_generation s1"
    "setups (setup_step cfg i ans s) = (setups s)[i := t']"
    by (simp_all add: setup_step_parts[OF act])
  have bound: "unat ?n + length (filter ?P (setups s)) \<le> length (setups s)"
    and below: "\<And>j g. j < length (setups s) \<Longrightarrow> generation (st_pc (setups s ! j)) = Some g \<Longrightarrow> g < ?n"
    and inj: "\<And>j k g. j < length (setups s) \<Longrightarrow> k < length (setups s) \<Longrightarrow>
      generation (st_pc (setups s ! j)) = Some g \<Longrightarrow> generation (st_pc (setups s ! k)) = Some g \<Longrightarrow> j = k"
    using inv unfolding gen_inv_def by blast+
  show ?thesis
    using setup_action_generation[OF act]
  proof (elim disjE[of "_ \<and> _"] conjE)
    assume A: "next_setup_generation s1 = ?n"
      "generation (st_pc t') = generation (st_pc ?t) \<or> generation (st_pc t') = None"
      "ungenerated (st_pc t') \<longrightarrow> ungenerated (st_pc ?t)"
    have sub: "generation (st_pc ((setups s)[i := t'] ! j)) = Some g \<Longrightarrow>
        generation (st_pc (setups s ! j)) = Some g" if "j < length (setups s)" for j g
      using A(2) that by (cases "j = i") auto
    show ?thesis
      unfolding gen_inv_def s'
      using A(1) bound filter_update_le[of i "setups s" ?P t'] A(3) i below inj sub
      by (auto intro: le_trans) (metis+)?
  next
    assume A: "generation (st_pc t') = Some ?n" "ungenerated (st_pc ?t)" "\<not> ungenerated (st_pc t')"
      "next_setup_generation s1 = ?n + 1"
    have len: "Suc (length (filter ?P ((setups s)[i := t']))) = length (filter ?P (setups s))"
      by (rule filter_update_less[OF i]) (use A in auto)
    have "unat ?n < length (setups s)" using bound len by linarith
    then have n1: "unat (?n + 1) = unat ?n + 1"
      using few by (simp add: unat_plus_if_size word_size)
    have other: "generation (st_pc (setups s ! j)) \<noteq> Some ?n" if "j < length (setups s)" for j
      using below[OF that] by fastforce
    have less: "g < ?n \<Longrightarrow> g < ?n + 1" for g
      using n1 by (simp add: word_less_nat_alt)
    have self: "?n < ?n + 1" using n1 by (simp add: word_less_nat_alt)
    show ?thesis
      unfolding gen_inv_def s' A(4)
    proof (intro conjI allI impI)
      show "unat (?n + 1) + length (filter ?P ((setups s)[i := t'])) \<le> length ((setups s)[i := t'])"
        using bound len n1 by simp
    next
      fix j g
      assume "j < length ((setups s)[i := t'])" "generation (st_pc ((setups s)[i := t'] ! j)) = Some g"
      then show "g < ?n + 1" using A(1) self less[OF below] by (cases "j = i") auto
    next
      fix j k g
      assume "j < length ((setups s)[i := t'])" "k < length ((setups s)[i := t'])"
        "generation (st_pc ((setups s)[i := t'] ! j)) = Some g"
        "generation (st_pc ((setups s)[i := t'] ! k)) = Some g"
      then show "j = k" using A(1) other inj by (cases "j = i"; cases "k = i") auto
    qed
  qed
qed

lemma gen_inv_cong:
  assumes "gen_inv s" and "next_setup_generation s' = next_setup_generation s"
    and "setups s' = setups s \<or> (\<exists>t. setups s' = setups s @ [t] \<and> st_pc t = SCheck)"
  shows "gen_inv s'"
  using assms(3)
proof (elim disjE exE conjE)
  assume "setups s' = setups s"
  with assms(1,2) show ?thesis by (simp add: gen_inv_def)
next
  fix t
  assume t: "setups s' = setups s @ [t]" "st_pc t = SCheck"
  then have "generation (st_pc (setups s' ! j)) = Some g \<Longrightarrow> j < length (setups s') \<Longrightarrow>
      j < length (setups s) \<and> generation (st_pc (setups s ! j)) = Some g" for j g
    by (cases "j < length (setups s)") (auto simp: nth_append less_Suc_eq)
  with assms(1,2) t show ?thesis unfolding gen_inv_def by auto
qed

lemma generation_other:
  "(\<forall>i ans. e \<noteq> EvSetup i ans) \<Longrightarrow> next_setup_generation (sys_step cfg e s) = next_setup_generation s"
  by (cases e) (auto simp: main_step_frame on_call_disconnected_def on_dtmf_digit_def callback_step_def
      Let_def case_prod_beta split: option.split)

lemma setups_length: "length (setups s) \<le> length (setups (sys_step cfg e s))"
proof -
  have "length (setups (setup_step cfg i ans s)) = length (setups s)" for i ans
    by (cases "setup_action cfg i ans (setups s ! i) s") (simp add: setup_step_parts)
  then show ?thesis using setups_other[of cfg e s] by auto
qed

lemma reachable_gen:
  "reachable cfg s \<Longrightarrow> length (setups s) < 2 ^ 64 \<Longrightarrow> gen_inv s"
proof (induction rule: reachable.induct)
  case reachable_init
  show ?case by (simp add: gen_inv_def initial_sys_def)
next
  case (reachable_step s e)
  have few: "length (setups s) < 2 ^ 64"
    using setups_length[of s cfg e] reachable_step.prems by linarith
  have inv: "gen_inv s" by (rule reachable_step.IH[OF few])
  show ?case
  proof (cases "\<exists>i ans. e = EvSetup i ans")
    case True
    then obtain i ans where "e = EvSetup i ans" by blast
    with inv few show ?thesis by (simp add: setup_step_gen)
  next
    case False
    have "setups (sys_step cfg e s) = setups s \<or>
        (\<exists>t. setups (sys_step cfg e s) = setups s @ [t] \<and> st_pc t = SCheck)"
      using False setups_other[of cfg e s] by fastforce
    with False show ?thesis using gen_inv_cong[OF inv generation_other] by blast
  qed
qed

subsection \<open>Progress of a setup\<close>

fun clean_rank :: "clean_pc \<Rightarrow> nat" where
  "clean_rank ClPending = 0"
| "clean_rank (ClActive b) = 1"
| "clean_rank (ClDecide b am) = 2"
| "clean_rank (ClRemove c) = 3"
| "clean_rank (ClFallback c) = 4"
| "clean_rank ClEnd = 5"

fun setup_rank :: "setup_pc \<Rightarrow> nat" where
  "setup_rank SCheck = 0"
| "setup_rank SLookup = 1"
| "setup_rank (SRegisterPort p) = 2"
| "setup_rank (SRegisterReady p) = 3"
| "setup_rank (SGeneration p ch) = 4"
| "setup_rank (SInsert p ch g) = 5"
| "setup_rank (SAnswer p ch g) = 6"
| "setup_rank (SWaitMedia p ch g) = 7"
| "setup_rank (SIntro p g) = 8"
| "setup_rank (SConnect p g) = 9"
| "setup_rank (SSpawn p g c) = 10"
| "setup_rank (SRemovePending p g cs) = 11"
| "setup_rank (SCheckCancel p b cs) = 12"
| "setup_rank (SInsertSession cs) = 13"
| "setup_rank (SAbort r p g) = 10"
| "setup_rank (SCleanup r p pc) = 13 + clean_rank pc"
| "setup_rank (SAfterAbort r) = 19"
| "setup_rank (SLate p pc) = 13 + clean_rank pc"
| "setup_rank SDone = 20"

lemma clean_step_rank:
  "pc \<noteq> ClEnd \<Longrightarrow> clean_rank pc < clean_rank (fst (clean_step fb st call p pc s))"
  by (cases pc) (auto simp: clean_step_def take_pending_cleanup_def case_prod_beta split: option.split)

lemma clean_rank_le: "clean_rank pc \<le> 5"
  by (cases pc) auto

lemma setup_rank_le: "setup_rank pc \<le> 20"
proof -
  have "13 + clean_rank q \<le> 20" for q using clean_rank_le[of q] by simp
  then show ?thesis by (cases pc) simp_all
qed

lemma setup_action_rank:
  assumes "setup_action cfg i ans t s = (t', s')"
  shows "setup_rank (st_pc t) \<le> setup_rank (st_pc t')"
    and "ans = CancelSeen \<Longrightarrow> i \<in> set (cancelled s) \<Longrightarrow> 6 \<le> setup_rank (st_pc t) \<Longrightarrow>
      st_pc t \<noteq> SDone \<Longrightarrow> setup_rank (st_pc t) < setup_rank (st_pc t')"
proof -
  have clean: "13 + clean_rank pc < 13 + clean_rank (fst (clean_step fb st call p pc s))"
    if "pc \<noteq> ClEnd" for fb st call p pc
    using clean_step_rank[OF that] by simp
  show "setup_rank (st_pc t) \<le> setup_rank (st_pc t')"
    using assms clean[THEN less_imp_le]
    by (cases "st_pc t"; cases ans)
      (auto simp: setup_action_def finish_action_def Let_def case_prod_beta create_port_def split: if_splits)
  show "setup_rank (st_pc t) < setup_rank (st_pc t')"
    if "ans = CancelSeen" "i \<in> set (cancelled s)" "6 \<le> setup_rank (st_pc t)" "st_pc t \<noteq> SDone"
    using assms clean that
    by (cases "st_pc t")
      (auto simp: setup_action_def finish_action_def Let_def case_prod_beta status_of_def split: if_splits)
qed

fun cancel_steps :: "nat \<Rightarrow> event list \<Rightarrow> nat" where
  "cancel_steps i [] = 0"
| "cancel_steps i (EvSetup j CancelSeen # es) = (if j = i then Suc (cancel_steps i es) else cancel_steps i es)"
| "cancel_steps i (_ # es) = cancel_steps i es"

lemma cancel_steps_Cons: "cancel_steps i (e # es) = cancel_steps i [e] + cancel_steps i es"
  by (cases "(i, e # es)" rule: cancel_steps.cases) auto

lemma main_step_cancelled:
  "cancelled (main_step st s) =
     (case main_loop s of
        MCancel call \<Rightarrow>
          (case hm_get (pending_setups s) call of Some (g, tok) \<Rightarrow> tok # cancelled s | None \<Rightarrow> cancelled s)
      | _ \<Rightarrow> cancelled s)"
proof (cases "main_loop s")
  case (MClean call cs pc)
  then show ?thesis by (cases pc) (simp_all add: main_step_def case_prod_beta abort_tasks_def)
qed (auto simp: main_step_def manager_op_defs split: option.split)

lemma cancelled_other:
  "(\<forall>i ans. e \<noteq> EvSetup i ans) \<Longrightarrow> set (cancelled s) \<subseteq> set (cancelled (sys_step cfg e s))"
  by (cases e) (auto simp: main_step_cancelled on_call_disconnected_def on_dtmf_digit_def callback_step_def
      Let_def case_prod_beta split: option.split main_pc.split)

lemma cancelled_mono: "set (cancelled s) \<subseteq> set (cancelled (sys_step cfg e s))"
proof (cases "\<exists>i ans. e = EvSetup i ans")
  case True
  then obtain i ans where e: "e = EvSetup i ans" by blast
  obtain t' s1 where act: "setup_action cfg i ans (setups s ! i) s = (t', s1)" by fastforce
  from setup_action_frame[OF act] show ?thesis by (simp add: e setup_step_parts[OF act])
qed (use cancelled_other in blast)

lemma sys_step_rank:
  assumes i: "i < length (setups s)"
  shows "i < length (setups (sys_step cfg e s))"
    and "setup_rank (st_pc (setups s ! i)) \<le> setup_rank (st_pc (setups (sys_step cfg e s) ! i))"
    and "i \<in> set (cancelled s) \<Longrightarrow> 6 \<le> setup_rank (st_pc (setups s ! i)) \<Longrightarrow>
      min 20 (setup_rank (st_pc (setups s ! i)) + cancel_steps i [e])
        \<le> setup_rank (st_pc (setups (sys_step cfg e s) ! i))"
proof -
  show "i < length (setups (sys_step cfg e s))"
    using i setups_length[of s cfg e] by linarith
  have "setup_rank (st_pc (setups s ! i)) \<le> setup_rank (st_pc (setups (sys_step cfg e s) ! i)) \<and>
    (i \<in> set (cancelled s) \<longrightarrow> 6 \<le> setup_rank (st_pc (setups s ! i)) \<longrightarrow>
      min 20 (setup_rank (st_pc (setups s ! i)) + cancel_steps i [e])
        \<le> setup_rank (st_pc (setups (sys_step cfg e s) ! i)))"
  proof (cases "\<exists>ans. e = EvSetup i ans")
    case True
    then obtain ans where e: "e = EvSetup i ans" by blast
    obtain t' s1 where act: "setup_action cfg i ans (setups s ! i) s = (t', s1)" by fastforce
    have new: "setups (sys_step cfg e s) ! i = t'" using i by (simp add: e setup_step_parts[OF act])
    note rank = setup_action_rank[OF act]
    show ?thesis
    proof (cases "ans = CancelSeen")
      case True
      with rank e show ?thesis
        unfolding new by (cases "st_pc (setups s ! i) = SDone") (auto simp: min_def Suc_le_eq)
    next
      case False
      then have "cancel_steps i [e] = 0" unfolding e by (cases ans) auto
      with rank(1) show ?thesis unfolding new by (simp add: min.coboundedI2)
    qed
  next
    case False
    have zero: "cancel_steps i [e] = 0"
    proof (cases e)
      case (EvSetup j ans)
      with False have "j \<noteq> i" by blast
      with EvSetup show ?thesis by (cases ans) auto
    qed auto
    have "setups (sys_step cfg e s) ! i = setups s ! i"
      using setups_other[of cfg e s]
    proof (elim disjE exE conjE)
      fix j ans
      assume e: "e = EvSetup j ans" "sys_step cfg e s = setup_step cfg j ans s"
      with False have "j \<noteq> i" by blast
      then show ?thesis
        unfolding e(2) by (cases "setup_action cfg j ans (setups s ! j) s") (simp add: setup_step_parts)
    qed (use i in \<open>simp_all add: nth_append\<close>)
    with zero show ?thesis by simp
  qed
  then show "setup_rank (st_pc (setups s ! i)) \<le> setup_rank (st_pc (setups (sys_step cfg e s) ! i))"
    and "i \<in> set (cancelled s) \<Longrightarrow> 6 \<le> setup_rank (st_pc (setups s ! i)) \<Longrightarrow>
      min 20 (setup_rank (st_pc (setups s ! i)) + cancel_steps i [e])
        \<le> setup_rank (st_pc (setups (sys_step cfg e s) ! i))"
    by blast+
qed

lemma sys_run_Cons: "sys_run cfg (e # es) s = sys_run cfg es (sys_step cfg e s)"
  by (simp add: sys_run_def)

lemma sys_run_rank:
  "i < length (setups s) \<Longrightarrow> i \<in> set (cancelled s) \<Longrightarrow> 6 \<le> setup_rank (st_pc (setups s ! i)) \<Longrightarrow>
     min 20 (setup_rank (st_pc (setups s ! i)) + cancel_steps i es)
       \<le> setup_rank (st_pc (setups (sys_run cfg es s) ! i))"
proof (induction es arbitrary: s)
  case Nil
  then show ?case by (simp add: sys_run_def)
next
  case (Cons e es)
  note step = sys_step_rank[OF Cons.prems(1), where cfg = cfg and e = e]
  have "i \<in> set (cancelled (sys_step cfg e s))" using Cons.prems(2) cancelled_mono by blast
  from Cons.IH[OF step(1) this] step(2,3) Cons.prems(2,3)
  show ?case unfolding sys_run_Cons by (subst cancel_steps_Cons) linarith
qed

lemma rank_done: "20 \<le> setup_rank pc \<Longrightarrow> pc = SDone"
proof -
  have "\<not> 20 \<le> 13 + clean_rank q" for q using clean_rank_le[of q] by simp
  then show "20 \<le> setup_rank pc \<Longrightarrow> pc = SDone" by (cases pc) simp_all
qed

text \<open>Only registered setups are ever cancelled.\<close>

definition cancel_inv :: "sys \<Rightarrow> bool" where
  "cancel_inv s \<longleftrightarrow>
     (\<forall>i \<in> set (cancelled s). i < length (setups s) \<and> 6 \<le> setup_rank (st_pc (setups s ! i)))"

lemma registered_rank: "registered pc = Some g \<Longrightarrow> 6 \<le> setup_rank pc"
  by (cases pc) auto

lemma sys_step_cancel:
  assumes "pending_inv s" and "cancel_inv s"
  shows "cancel_inv (sys_step cfg e s)"
proof -
  have "i < length (setups s) \<and> 6 \<le> setup_rank (st_pc (setups s ! i))"
    if "i \<in> set (cancelled (sys_step cfg e s))" for i
  proof (cases "i \<in> set (cancelled s)")
    case True
    with assms(2) show ?thesis by (simp add: cancel_inv_def)
  next
    case False
    have "\<exists>call g. hm_get (pending_setups s) call = Some (g, i)"
    proof (cases e)
      case (EvSetup j ans)
      obtain t' s1 where act: "setup_action cfg j ans (setups s ! j) s = (t', s1)" by fastforce
      from that False EvSetup setup_action_frame[OF act] show ?thesis
        by (auto simp: setup_step_parts[OF act] split: if_splits)
    next
      case (EvMain st)
      from that False EvMain show ?thesis
        by (fastforce simp: main_step_cancelled split: option.splits main_pc.splits)
    qed (use that False in \<open>auto simp: on_call_disconnected_def on_dtmf_digit_def callback_step_def
        Let_def case_prod_beta split: option.splits if_splits\<close>)
    then show ?thesis using pending_invD[OF assms(1)] registered_rank by blast
  qed
  then show ?thesis
    using sys_step_rank(1,2)[of _ s cfg e] unfolding cancel_inv_def by (meson le_trans)
qed

interpretation cancelling: relative_invariant "sys_step cfg" pending_inv cancel_inv for cfg
  by unfold_locales (rule sys_step_cancel)

lemma reachable_cancel: "reachable cfg s \<Longrightarrow> cancel_inv s"
proof -
  have "pending_inv initial_sys" "cancel_inv initial_sys"
    by (simp_all add: pending_inv_def cancel_inv_def initial_sys_def)
  then show "reachable cfg s \<Longrightarrow> cancel_inv s" by (auto simp: reachable_iff_run sys_run_def cancelling.run_rel)
qed

subsection \<open>Sessions of a cancelled setup\<close>

definition session_of :: "nat \<Rightarrow> sys \<Rightarrow> bool" where
  "session_of i s \<longleftrightarrow> (\<exists>call cs. hm_get (sessions s) call = Some cs \<and> cs_handles cs = session_handles i)"

lemma session_handles_inj: "session_handles i = session_handles j \<longleftrightarrow> i = j"
  by (simp add: session_handles_def)

lemma on_dtmf_sessions:
  "hm_get (sessions (on_dtmf_digit call digit ok s)) c = Some cs \<Longrightarrow>
     \<exists>cs0. hm_get (sessions s) c = Some cs0 \<and> cs_handles cs0 = cs_handles cs"
  by (auto simp: on_dtmf_digit_def navigate_def Let_def split: option.splits if_splits)

lemma setup_action_sessions:
  assumes "setup_action cfg i ans t s = (t', s')"
  shows "sessions s' = sessions s \<or>
    (\<exists>cs. st_pc t = SInsertSession cs \<and> sessions s' = hm_insert (st_call t) cs (sessions s))"
  using assms
  by (cases "st_pc t"; cases ans)
    (auto simp: setup_action_def finish_action_def Let_def case_prod_beta manager_op_defs
      register_pending_port_def spawn_deferred_def create_port_def split: if_splits)

definition barred :: "nat \<Rightarrow> sys \<Rightarrow> bool" where
  "barred i s \<longleftrightarrow> i < length (setups s) \<and> i \<in> set (cancelled s) \<and>
     (\<forall>cs. st_pc (setups s ! i) \<noteq> SInsertSession cs) \<and> \<not> session_of i s"

lemma setup_action_no_insert:
  assumes "setup_action cfg i ans t s = (t', s')" and "i \<in> set (cancelled s)"
    and "\<forall>cs. st_pc t \<noteq> SInsertSession cs"
  shows "\<forall>cs. st_pc t' \<noteq> SInsertSession cs"
  using assms
  by (cases "st_pc t"; cases ans)
    (auto simp: setup_action_def finish_action_def Let_def case_prod_beta manager_op_defs
      register_pending_port_def spawn_deferred_def create_port_def split: if_splits)

lemma sys_step_barred:
  assumes "shape_inv s" and "barred i s"
  shows "barred i (sys_step cfg e s)"
proof -
  have i: "i < length (setups s)" "i \<in> set (cancelled s)" and no: "\<not> session_of i s"
    and pc: "\<forall>cs. st_pc (setups s ! i) \<noteq> SInsertSession cs"
    using assms(2) by (simp_all add: barred_def)
  have "\<not> session_of i (sys_step cfg e s) \<and> (\<forall>cs. st_pc (setups (sys_step cfg e s) ! i) \<noteq> SInsertSession cs)"
  proof (cases e)
    case (EvSetup j ans)
    show ?thesis
    proof (cases "j < length (setups s)")
      case True
      obtain t' s1 where act: "setup_action cfg j ans (setups s ! j) s = (t', s1)" by fastforce
      have step: "sys_step cfg e s = s1\<lparr>setups := (setups s)[j := t']\<rparr>"
        using True by (simp add: EvSetup setup_step_parts[OF act])
      have "\<not> session_of i (s1\<lparr>setups := (setups s)[j := t']\<rparr>)"
        using setup_action_sessions[OF act]
      proof (elim disjE exE conjE)
        fix cs
        assume cs: "st_pc (setups s ! j) = SInsertSession cs"
          "sessions s1 = hm_insert (st_call (setups s ! j)) cs (sessions s)"
        then have "i \<noteq> j" using pc by auto
        moreover have "setup_shape j (st_pc (setups s ! j))"
          using assms(1) True by (simp add: shape_inv_def)
        then have "cs_handles cs = session_handles j" using cs(1) by simp
        ultimately show ?thesis
          using no cs(2) by (auto simp: session_of_def session_handles_inj split: if_splits)
      qed (use no in \<open>simp add: session_of_def\<close>)
      moreover have "\<forall>cs. st_pc ((setups s)[j := t'] ! i) \<noteq> SInsertSession cs"
      proof (cases "j = i")
        case True
        with setup_action_no_insert[OF act] i pc show ?thesis by simp
      qed (use pc in simp)
      ultimately show ?thesis by (simp add: step)
    qed (use no pc EvSetup in simp)
  next
    case (EvDtmf call digit ok)
    have "setups (on_dtmf_digit call digit ok s) = setups s"
      by (simp add: on_dtmf_digit_def split: option.split)
    moreover have "\<not> session_of i (on_dtmf_digit call digit ok s)"
      using no on_dtmf_sessions by (metis session_of_def)
    ultimately show ?thesis using no pc by (simp add: EvDtmf)
  next
    case (EvCallState call st)
    with no pc show ?thesis
      by (auto simp: session_of_def on_call_disconnected_def split: option.splits if_splits)
  qed (use no pc i in \<open>auto simp: session_of_def nth_append main_step_frame callback_step_def Let_def case_prod_beta\<close>)
  with i cancelled_mono[of s cfg e] sys_step_rank(1)[OF i(1), of cfg e] show ?thesis
    by (auto simp: barred_def)
qed

lemma sys_run_barred:
  "shape_inv s \<Longrightarrow> barred i s \<Longrightarrow> barred i (sys_run cfg es s)"
  by (induction es arbitrary: s) (auto simp: sys_run_def sys_step_barred sys_step_shape)

subsection \<open>Properties\<close>

text \<open>C14. Every entry of \<open>pending_setups\<close> belongs to a setup of that call which is between
  inserting its entry and removing it, so no admission slot outlives the setup that took it: when
  no setup is in that region, the table is empty.\<close>

theorem pending_entries_are_live:
  assumes "reachable cfg s"
  shows "(\<forall>call g tok. hm_get (pending_setups s) call = Some (g, tok) \<longrightarrow>
      tok < length (setups s) \<and> st_call (setups s ! tok) = call \<and>
      registered (st_pc (setups s ! tok)) = Some g) \<and>
    ((\<forall>t \<in> set (setups s). registered (st_pc t) = None) \<longrightarrow> pending_setups s = [])"
proof -
  have inv: "pending_inv s" using assms by (rule reachable_pending)
  have "pending_setups s = []" if none: "\<forall>t \<in> set (setups s). registered (st_pc t) = None"
  proof (rule ccontr)
    assume "pending_setups s \<noteq> []"
    then obtain call v where "hm_get (pending_setups s) call = Some v"
      by (metis hm_get_None_iff hm_keys_Nil map_of_eq_None_iff hm_keys_get list.set_intros(1)
          fst_conv image_eqI hm_keys_def neq_Nil_conv prod.exhaust)
    then obtain g tok where get: "hm_get (pending_setups s) call = Some (g, tok)" by (cases v) simp
    from pending_invD[OF inv get] none show False by (metis nth_mem option.distinct(1))
  qed
  with inv show ?thesis by (simp add: pending_inv_def)
qed

text \<open>A call that was hung up while its setup waits for media.\<close>

definition hung_up_waiting :: sys where
  "hung_up_waiting =
     sys_run (bridge_for 2) (call_begins 4 0 @ call_registers 0 @ [EvCallState 4 6, EvMain 0]) initial_sys"

lemma hung_up_waiting_reachable: "reachable (bridge_for 2) hung_up_waiting"
  unfolding hung_up_waiting_def by (intro reachable_run reachable_init)

lemma hung_up_waiting_setups:
  "map st_pc (setups hung_up_waiting) = [SWaitMedia 0 0 0] \<and> map st_call (setups hung_up_waiting) = [4] \<and>
   cancelled hung_up_waiting = [0] \<and> sessions hung_up_waiting = [] \<and>
   pending_setups hung_up_waiting = [(4, (0, 0))]"
  by code_simp

lemma hung_up_waiting_simps [simp]:
  "length (setups hung_up_waiting) = 1" "st_pc (setups hung_up_waiting ! 0) = SWaitMedia 0 0 0"
  "st_call (setups hung_up_waiting ! 0) = 4" "cancelled hung_up_waiting = [0]"
  "sessions hung_up_waiting = []" "pending_setups hung_up_waiting = [(4, (0, 0))]"
  using hung_up_waiting_setups by (auto simp: Suc_length_conv map_eq_Cons_conv)

lemma pending_entries_are_live_witness:
  "hm_get (pending_setups hung_up_waiting) 4 = Some (0, 0) \<and>
   registered (st_pc (setups hung_up_waiting ! 0)) = Some 0"
  using pending_entries_are_live[OF hung_up_waiting_reachable] by simp

text \<open>C2. While fewer than \<open>2 ^ 64\<close> calls have come in, a setup that removes its entry (to abort or
  to go on) removes exactly the entry it inserted itself: if the call id has been recycled by a
  newer setup, the newer entry stays.\<close>

theorem stale_setup_keeps_entry:
  assumes "reachable cfg s" and "length (setups s) < 2 ^ 64" and "i < length (setups s)"
    and "registered (st_pc (setups s ! i)) = Some gen"
  shows "remove_pending_setup (st_call (setups s ! i)) gen s =
    (if hm_get (pending_setups s) (st_call (setups s ! i)) = Some (gen, i)
     then (True, s\<lparr>pending_setups := hm_remove (st_call (setups s ! i)) (pending_setups s)\<rparr>)
     else (False, s))"
proof -
  have inv: "pending_inv s" using assms(1) by (rule reachable_pending)
  have "gen_inv s" using assms(1,2) by (rule reachable_gen)
  then have own: "tok = i" if "tok < length (setups s)" "registered (st_pc (setups s ! tok)) = Some gen" for tok
    using that assms(3,4) registered_generation unfolding gen_inv_def by blast
  show ?thesis
  proof (cases "hm_get (pending_setups s) (st_call (setups s ! i))")
    case None
    then show ?thesis by (simp add: remove_pending_setup_def)
  next
    case (Some v)
    obtain g tok where v: "v = (g, tok)" by fastforce
    show ?thesis
      using pending_invD[OF inv Some[unfolded v]] own[of tok] Some v
      by (auto simp: remove_pending_setup_def)
  qed
qed

lemma stale_setup_keeps_entry_witness:
  "remove_pending_setup 4 0 hung_up_waiting = (True, hung_up_waiting\<lparr>pending_setups := []\<rparr>)"
  using stale_setup_keeps_entry[OF hung_up_waiting_reachable, of 0 0] by simp

text \<open>C3. Once the cancellation of a setup has been signalled before the setup is about to store
  its session, no later state of the system, whatever happens, contains a session of that setup.\<close>

theorem cancelled_setup_creates_no_session:
  assumes "reachable cfg s" and "i < length (setups s)" and "i \<in> set (cancelled s)"
    and "\<forall>cs. st_pc (setups s ! i) \<noteq> SInsertSession cs"
    and "\<forall>call cs. hm_get (sessions s) call = Some cs \<longrightarrow> cs_handles cs \<noteq> session_handles i"
    and "hm_get (sessions (sys_run cfg es s)) call = Some cs"
  shows "cs_handles cs \<noteq> session_handles i"
proof -
  have "barred i s" using assms(2-5) by (auto simp: barred_def session_of_def)
  with sys_run_barred[of s i cfg es] reachable_owned[OF assms(1)] have "barred i (sys_run cfg es s)" by blast
  with assms(6) show ?thesis by (auto simp: barred_def session_of_def)
qed

lemma cancelled_setup_creates_no_session_witness:
  "\<exists>cs. hm_get (sessions (sys_run (bridge_for 2)
      (call_begins 5 1 @ call_registers 1 @ call_attaches 5 0 8 @ call_connects 1 @
       replicate 3 (EvSetup 1 Proceed)) hung_up_waiting)) 5 = Some cs \<and>
     cs_handles cs \<noteq> session_handles 0"
proof -
  let ?es = "call_begins 5 1 @ call_registers 1 @ call_attaches 5 0 8 @ call_connects 1 @
    replicate 3 (EvSetup 1 Proceed)"
  have "hm_get (sessions (sys_run (bridge_for 2) ?es hung_up_waiting)) 5 \<noteq> None"
    unfolding hung_up_waiting_def by code_simp
  then obtain cs where "hm_get (sessions (sys_run (bridge_for 2) ?es hung_up_waiting)) 5 = Some cs"
    by blast
  with cancelled_setup_creates_no_session[OF hung_up_waiting_reachable, of 0 ?es 5 cs] show ?thesis
    by simp
qed

text \<open>C4. A cancelled setup always comes to its end: fifteen of its own steps, each offered the
  cancellation, are enough, however they are interleaved with anything else the system does.\<close>

theorem cancelled_setup_finishes:
  assumes "reachable cfg s" and "i \<in> set (cancelled s)" and "15 \<le> cancel_steps i es"
  shows "st_pc (setups (sys_run cfg es s) ! i) = SDone"
proof -
  have "i < length (setups s)" "6 \<le> setup_rank (st_pc (setups s ! i))"
    using reachable_cancel[OF assms(1)] assms(2) by (auto simp: cancel_inv_def)
  from sys_run_rank[OF this(1) assms(2) this(2), of es cfg] this(2) assms(3)
  show ?thesis by (intro rank_done) linarith
qed

lemma cancelled_setup_finishes_witness:
  "st_pc (setups (sys_run (bridge_for 2) (replicate 15 (EvSetup 0 CancelSeen)) hung_up_waiting) ! 0) = SDone"
  using cancelled_setup_finishes[OF hung_up_waiting_reachable, of 0 "replicate 15 (EvSetup 0 CancelSeen)"]
  by (simp add: numeral_eq_Suc)

text \<open>The check for the number of concurrent calls admits a call exactly when sessions and
  pending setups together are fewer than the configured maximum; otherwise the call is hung up
  with 486 and nothing else changes.  An admitted call never asks for an empty frame queue.\<close>

theorem admission_check:
  assumes "i < length (setups s)" and "st_pc (setups s ! i) = SCheck"
  shows "if length (sessions s) + length (pending_setups s) < unat (sip_max_concurrent_calls (cfg_sip cfg))
    then sys_step cfg (EvSetup i ans) s = s\<lparr>setups := (setups s)[i := goto SLookup (setups s ! i)]\<rparr> \<and>
      2 \<le> unat (queue_capacity cfg)
    else sys_step cfg (EvSetup i ans) s =
      s\<lparr>setups := (setups s)[i := goto SDone (setups s ! i)],
        hangups := hangups s @ [(st_call (setups s ! i), 486)]\<rparr>"
proof -
  let ?j = "max (aud_jitter_buffer_ms (cfg_audio cfg) div FRAME_DURATION_MS) 2"
  let ?m = "sip_max_concurrent_calls (cfg_sip cfg)"
  have "2 \<le> unat (queue_capacity cfg)" if "0 < unat ?m"
  proof -
    have "(2 :: u32) \<le> ?j" by simp
    then have j: "2 \<le> unat ?j" by (simp add: word_le_nat_alt del: max.cobounded2)
    have "unat ?j < 2 ^ 32" "unat ?m < 2 ^ 32" using unsigned_less[of ?j, where ?'a = nat] unsigned_less[of ?m, where ?'a = nat] by simp_all
    then have "unat ?j * unat ?m < 2 ^ 32 * 2 ^ 32" by (intro mult_strict_mono) auto
    then have "unat (queue_capacity cfg) = unat ?j * unat ?m"
      by (simp add: queue_capacity_def jitter_frames_def unat_word_ariths unat_ucast_u32_u64)
    moreover have "2 * 1 \<le> unat ?j * unat ?m" using j that by (intro mult_le_mono) auto
    ultimately show ?thesis by simp
  qed
  with assms show ?thesis
    by (auto simp: setup_step_def setup_action_def finish_action_def Let_def admits_def hangup_def)
qed

lemma admission_check_witness:
  "sys_step (bridge_for 0) (EvSetup 0 Proceed) (sys_step (bridge_for 0) (EvIncoming 4 None None) initial_sys) =
     (sys_step (bridge_for 0) (EvIncoming 4 None None) initial_sys)
       \<lparr>setups := [\<lparr>st_call = 4, st_mumble_server = None, st_caller_number = None, st_last_channel = None,
                    st_play_intro = False, st_sounds = [], st_pc = SDone\<rparr>], hangups := [(4, 486)]\<rparr>"
  using admission_check[of 0 "sys_step (bridge_for 0) (EvIncoming 4 None None) initial_sys" "bridge_for 0" Proceed]
  by (simp add: initial_sys_def bridge_for_def goto_def)

end
