(* ===== verification/SessionRaces.thy ===== *)
theory SessionRaces
  imports SessionProtocol
begin

text \<open>
  Interleavings of \<open>Session\<close> in which a guarantee that the code's comments state does not hold, as
  concrete runs from the initial state, and the navigation of an established session.
\<close>

subsection \<open>Runs\<close>

text \<open>Two calls pass the admission check before either is registered.\<close>

definition two_calls_admitted :: "event list" where
  "two_calls_admitted =
     call_begins 1 0 @ call_begins 2 1 @
     call_registers 0 @ call_attaches 1 0 10 @ call_connects 0 @ replicate 3 (EvSetup 0 Proceed) @
     call_registers 1 @ call_attaches 2 1 11 @ call_connects 1 @ replicate 3 (EvSetup 1 Proceed)"

text \<open>The call is hung up between the check of the cancellation and the insertion of the session.\<close>

definition hangup_before_insert :: "event list" where
  "hangup_before_insert =
     call_begins 4 0 @ call_registers 0 @ call_attaches 4 0 7 @ call_connects 0 @
     replicate 2 (EvSetup 0 Proceed) @ [EvCallState 4 6, EvMain 0, EvSetup 0 Proceed]"

text \<open>The call is hung up while the media callback holds its port: the setup aborts, the callback
  attaches the port, the deferred cleanup runs.\<close>

definition hangup_during_attach :: "event list" where
  "hangup_during_attach =
     call_begins 4 0 @ call_registers 0 @ [EvMedia 4, EvCallback 0 NoConfPort, EvCallState 4 6, EvMain 0] @
     replicate 7 (EvSetup 0 CancelSeen) @
     [EvCallback 0 (Added 7), EvCallback 0 NoConfPort, EvCallback 0 NoConfPort, EvDeferred 0]"

subsection \<open>Properties\<close>

text \<open>The limit on concurrent calls can be exceeded: with a limit of one, two calls whose
  checks both run before either is registered end with two established sessions.\<close>

lemma admission_limit_can_be_exceeded:
  "active_call_count (sys_run (bridge_for 1) two_calls_admitted initial_sys) = 2 \<and>
   hangups (sys_run (bridge_for 1) two_calls_admitted initial_sys) = []"
  by code_simp

text \<open>The transition from pending to active is not atomic: a disconnect handled between the
  check of the cancellation and the insertion finds neither a session nor an entry, and the session
  stored afterwards stays although its call is gone and the main loop is idle again.\<close>

lemma session_of_hung_up_call:
  "let s = sys_run (bridge_for 1) hangup_before_insert initial_sys in
   map fst (sessions s) = [4] \<and> main_loop s = MIdle \<and> cancelled s = [] \<and> pending_setups s = [] \<and>
   map st_pc (setups s) = [SDone] \<and> aborted s = []"
  by code_simp

text \<open>Deferring the destruction does not prevent a use after free: when a call is hung up
  while the media callback holds its port, the port is destroyed while it sits in a conference
  slot, and no cleanup is registered that would take it out.\<close>

lemma destroyed_port_in_conference:
  "let s = sys_run (bridge_for 1) hangup_during_attach initial_sys in
   destroyed s = [0] \<and> conference s = [(7, 0)] \<and> pending_cleanup s = [] \<and> deferred s = [] \<and>
   main_loop s = MIdle \<and> map st_pc (setups s) = [SDone] \<and> map mt_pc (media_threads s) = [CbDone]"
  by code_simp

subsection \<open>Navigation\<close>

text \<open>The abstract navigation: channel numbers as natural numbers.\<close>

fun nav :: "nat \<Rightarrow> nat \<Rightarrow> uchar \<Rightarrow> nat" where
  "nav highest c d = (if d = 42 then c - 1 else if d = 35 then min (c + 1) highest else c)"

lemma navigate_nav:
  assumes "cs_current_channel_id cs \<le> cs_max_channel_id cs" and "cs_max_channel_id cs \<noteq> - 1"
    and "d = 42 \<or> d = 35"
  shows "unat (cs_current_channel_id (navigate d True cs)) =
    nav (unat (cs_max_channel_id cs)) (unat (cs_current_channel_id cs)) d"
proof -
  let ?c = "cs_current_channel_id cs" and ?m = "cs_max_channel_id cs"
  have "?c < - 1" using assms(1,2) by (metis order_le_less_trans word_order.not_eq_extremum)
  then have "unat (?c + 1) = unat ?c + 1" by (rule unat_plus_one)
  then show ?thesis
    using assms(3) by (auto simp: navigate_def Let_def unat_saturating_sub min_def word_le_nat_alt)
qed

definition dtmf_run :: "call_id \<Rightarrow> uchar list \<Rightarrow> sys \<Rightarrow> sys" where
  "dtmf_run call ds s = fold (\<lambda>d. on_dtmf_digit call d True) ds s"

lemma on_dtmf_digit_session:
  assumes "hm_get (sessions s) call = Some cs" and "cs_current_channel_id cs \<le> cs_max_channel_id cs"
    and "cs_max_channel_id cs \<noteq> - 1"
  shows "\<exists>cs'. hm_get (sessions (on_dtmf_digit call d True s)) call = Some cs' \<and>
    cs_max_channel_id cs' = cs_max_channel_id cs \<and>
    cs_current_channel_id cs' \<le> cs_max_channel_id cs' \<and>
    unat (cs_current_channel_id cs') =
      nav (unat (cs_max_channel_id cs)) (unat (cs_current_channel_id cs)) d"
proof (cases "d = 42 \<or> d = 35")
  case True
  let ?cs' = "navigate d True cs"
  have "hm_get (sessions (on_dtmf_digit call d True s)) call = Some ?cs'"
    using True assms(1) by (auto simp: on_dtmf_digit_def)
  moreover note nav = navigate_nav[OF assms(2,3) True]
  moreover have "cs_max_channel_id ?cs' = cs_max_channel_id cs" by (simp add: navigate_def Let_def)
  moreover have "unat (cs_current_channel_id cs) \<le> unat (cs_max_channel_id cs)"
    using assms(2) by (simp add: word_le_nat_alt)
  then have "cs_current_channel_id ?cs' \<le> cs_max_channel_id cs"
    unfolding word_le_nat_alt nav using True by auto
  ultimately show ?thesis by auto
next
  case False
  with assms show ?thesis by (auto simp: on_dtmf_digit_def)
qed

text \<open>C9. DTMF navigation implements bounded counting: any sequence of digits, every join accepted,
  moves the session's channel as \<open>*\<close> for one down and \<open>#\<close> for one up within zero and the highest
  channel id of the connection; other digits leave it.\<close>

theorem dtmf_refines_navigation:
  assumes "hm_get (sessions s) call = Some cs" and "cs_current_channel_id cs \<le> cs_max_channel_id cs"
    and "cs_max_channel_id cs \<noteq> - 1"
  shows "\<exists>cs'. hm_get (sessions (dtmf_run call ds s)) call = Some cs' \<and>
    cs_current_channel_id cs' \<le> cs_max_channel_id cs' \<and>
    unat (cs_current_channel_id cs') =
      foldl (nav (unat (cs_max_channel_id cs))) (unat (cs_current_channel_id cs)) ds"
  using assms
proof (induction ds arbitrary: s cs)
  case Nil
  then show ?case by (simp add: dtmf_run_def)
next
  case (Cons d ds)
  obtain cs1 where cs1: "hm_get (sessions (on_dtmf_digit call d True s)) call = Some cs1"
    "cs_max_channel_id cs1 = cs_max_channel_id cs" "cs_current_channel_id cs1 \<le> cs_max_channel_id cs1"
    "unat (cs_current_channel_id cs1) =
      nav (unat (cs_max_channel_id cs)) (unat (cs_current_channel_id cs)) d"
    using on_dtmf_digit_session[OF Cons.prems] by blast
  from Cons.IH[OF cs1(1,3)] Cons.prems(3) cs1(2,4) show ?case by (simp add: dtmf_run_def)
qed

lemma dtmf_refines_navigation_witness:
  "\<exists>cs'. hm_get (sessions (dtmf_run 4 [35, 35, 42, 55]
      (initial_sys\<lparr>sessions := [(4, \<lparr>cs_port = 0, cs_handles = [], cs_channel_watch = 2, cs_sounds = [],
         cs_current_channel_id = 2, cs_max_channel_id = 3, cs_caller_number = None, cs_server_host = []\<rparr>)]\<rparr>))) 4
      = Some cs' \<and> unat (cs_current_channel_id cs') = 2"
  using dtmf_refines_navigation[of "initial_sys\<lparr>sessions := [(4, \<lparr>cs_port = 0, cs_handles = [],
      cs_channel_watch = 2, cs_sounds = [], cs_current_channel_id = 2, cs_max_channel_id = 3,
      cs_caller_number = None, cs_server_host = []\<rparr>)]\<rparr>" 4 _ "[35, 35, 42, 55]"]
  by fastforce

end
