(* ===== verification/WavFiles.thy ===== *)
theory WavFiles
  imports Floats RustStr Session
begin

text \<open>
  The WAV files of the program: the repair of streamed speech (\<^verbatim>\<open>normalize_streamed_wav\<close> and the
  decoding pipeline of \<^verbatim>\<open>src/audio/tts.rs\<close>) and the embedded sound effects (\<^verbatim>\<open>src/audio/sounds.rs\<close>).
  Parsing a repaired file is the \<^verbatim>\<open>hound\<close> library's and a parameter.  \<open>None\<close> is a panic.
\<close>

unbundle bit_operations_syntax

subsection \<open>Bytes\<close>

definition bytes_of :: "string \<Rightarrow> u8 list" where
  "bytes_of s = map (\<lambda>c. of_nat (of_char c)) s"

definition u16_from_le :: "u8 list \<Rightarrow> nat" where
  "u16_from_le bs = unat (bs ! 0) + 256 * unat (bs ! 1)"

definition u32_from_le :: "u8 list \<Rightarrow> nat" where
  "u32_from_le bs = unat (bs ! 0) + 256 * (unat (bs ! 1) + 256 * (unat (bs ! 2) + 256 * unat (bs ! 3)))"

definition u32_to_le :: "nat \<Rightarrow> u8 list" where
  "u32_to_le n = [of_nat n, of_nat (n div 256), of_nat (n div 65536), of_nat (n div 16777216)]"

definition at4 :: "nat \<Rightarrow> u8 list \<Rightarrow> u8 list" where
  "at4 i bs = take 4 (drop i bs)"

definition put4 :: "nat \<Rightarrow> u8 list \<Rightarrow> u8 list \<Rightarrow> u8 list" where
  "put4 i new bs = take i bs @ new @ drop (i + 4) bs"

lemma length_u32_to_le [simp]: "length (u32_to_le n) = 4"
  by (simp add: u32_to_le_def)

lemma u32_le_round_trip: "n < 2 ^ 32 \<Longrightarrow> u32_from_le (u32_to_le n) = n"
proof -
  assume n: "n < 2 ^ 32"
  have "unat (of_nat k :: u8) = k mod 256" for k
    by (simp add: unsigned_of_nat take_bit_eq_mod)
  moreover have "n div 16777216 < 256" using n by simp
  moreover have "n = n mod 256 + 256 * (n div 256)" "n div 256 = n div 256 mod 256 + 256 * (n div 65536)"
    "n div 65536 = n div 65536 mod 256 + 256 * (n div 16777216)"
    using mod_mult_div_eq[of n 256] mod_mult_div_eq[of "n div 256" 256] mod_mult_div_eq[of "n div 65536" 256]
    by (simp_all flip: div_mult2_eq)
  ultimately show "u32_from_le (u32_to_le n) = n"
    by (simp add: u32_from_le_def u32_to_le_def)
qed

lemma u32_le_round_trip': "length bs = 4 \<Longrightarrow> u32_to_le (u32_from_le bs) = bs"
proof -
  assume "length bs = 4"
  then obtain a b c d where bs: "bs = [a, b, c, d]" by (auto simp: numeral_eq_Suc length_Suc_conv)
  have byte: "unat (x :: u8) < 256" for x using unsigned_less[of x, where ?'a = nat] by simp
  have low: "(of_nat (unat x + 256 * k) :: u8) = x" for x :: u8 and k
  proof -
    have "(of_nat 256 :: u8) = 0" by simp
    then show ?thesis by (simp only: of_nat_add of_nat_mult) simp
  qed
  have div: "(unat x + 256 * k) div 256 = k" for x :: u8 and k using byte[of x] by simp
  have "n div 65536 = n div 256 div 256" "n div 16777216 = n div 256 div 256 div 256" for n :: nat
    by (simp_all flip: div_mult2_eq)
  then show "u32_to_le (u32_from_le bs) = bs"
    by (simp only: bs u32_from_le_def u32_to_le_def nth_Cons_0 nth_Cons_Suc low div One_nat_def
        numeral_2_eq_2 numeral_3_eq_3 of_nat_unat) simp
qed

subsection \<open>Repairing streamed files\<close>

text \<open>The loop over the chunks.\<close>

function repair_chunks :: "nat \<Rightarrow> u8 list \<Rightarrow> u8 list" where
  "repair_chunks offset out =
     (if length out < offset + 8 then out
      else
        (let declared_size = u32_from_le (at4 (offset + 4) out); data_start = offset + 8
         in if at4 offset out = bytes_of ''data'' then
              (let actual_size = min (length out - data_start) (2 ^ 32 - 1)
               in if declared_size \<noteq> actual_size then put4 (offset + 4) (u32_to_le actual_size) out else out)
            else
              (let chunk_total = 8 + declared_size + declared_size mod 2
               in if length out < offset + chunk_total then out
                  else repair_chunks (offset + chunk_total) out)))"
  by pat_completeness auto
termination
  by (relation "measure (\<lambda>(offset, out). length out - offset)") auto

declare repair_chunks.simps [simp del]

definition normalize_streamed_wav :: "u8 list \<Rightarrow> u8 list" where
  "normalize_streamed_wav wav_bytes =
     (if length wav_bytes < 12 \<or> at4 0 wav_bytes \<noteq> bytes_of ''RIFF'' \<or> at4 8 wav_bytes \<noteq> bytes_of ''WAVE''
      then wav_bytes
      else repair_chunks 12
        (put4 4 (u32_to_le (min (length wav_bytes - 8) (2 ^ 32 - 1))) wav_bytes))"

text \<open>A file as a list of chunks before the data chunk and the data, with whatever sizes are written
  for the whole and for the data.\<close>

definition chunk_bytes :: "u8 list \<times> u8 list \<Rightarrow> u8 list" where
  "chunk_bytes c = fst c @ u32_to_le (length (snd c)) @ snd c @ (if odd (length (snd c)) then [0] else [])"

definition chunk_ok :: "u8 list \<times> u8 list \<Rightarrow> bool" where
  "chunk_ok c \<longleftrightarrow> length (fst c) = 4 \<and> fst c \<noteq> bytes_of ''data'' \<and> length (snd c) < 2 ^ 32"

definition wav_file :: "u8 list \<Rightarrow> u8 list \<Rightarrow> (u8 list \<times> u8 list) list \<Rightarrow> u8 list \<Rightarrow> u8 list" where
  "wav_file riff_size data_size chunks pcm =
     bytes_of ''RIFF'' @ riff_size @ bytes_of ''WAVE'' @ concat (map chunk_bytes chunks) @
     bytes_of ''data'' @ data_size @ pcm"

lemma length_bytes_of [simp]: "length (bytes_of s) = length s"
  by (simp add: bytes_of_def)

lemma at4_prefix: "length p = i \<Longrightarrow> length x = 4 \<Longrightarrow> at4 i (p @ x @ r) = x"
  by (simp add: at4_def)

lemma put4_prefix: "length p = i \<Longrightarrow> length x = 4 \<Longrightarrow> put4 i new (p @ x @ r) = p @ new @ r"
  by (simp add: put4_def)

lemma repair_chunks_data:
  assumes "length data_size = 4" and "length pcm < 2 ^ 32"
  shows "repair_chunks (length p) (p @ bytes_of ''data'' @ data_size @ pcm) =
    p @ bytes_of ''data'' @ u32_to_le (length pcm) @ pcm"
proof -
  let ?f = "p @ bytes_of ''data'' @ data_size @ pcm"
  have "at4 (length p) ?f = bytes_of ''data''" by (intro at4_prefix) simp_all
  moreover have "at4 (length p + 4) ?f = data_size"
    using at4_prefix[of "p @ bytes_of ''data''" "length p + 4" data_size pcm] assms(1) by simp
  moreover have "put4 (length p + 4) new ?f = p @ bytes_of ''data'' @ new @ pcm" for new
    using put4_prefix[of "p @ bytes_of ''data''" "length p + 4" data_size new pcm] assms(1) by simp
  moreover have "u32_from_le data_size = length pcm \<Longrightarrow> data_size = u32_to_le (length pcm)"
    using u32_le_round_trip'[OF assms(1)] by simp
  ultimately show ?thesis
    using assms by (subst repair_chunks.simps) (auto simp: Let_def min_def)
qed

lemma repair_chunks_chunk:
  assumes "chunk_ok c"
  shows "repair_chunks (length p) (p @ chunk_bytes c @ rest) =
    (if rest = [] then p @ chunk_bytes c
     else repair_chunks (length (p @ chunk_bytes c)) (p @ chunk_bytes c @ rest))"
proof -
  let ?f = "p @ chunk_bytes c @ rest"
  obtain i body where c: "c = (i, body)" by fastforce
  have i: "length i = 4" "i \<noteq> bytes_of ''data''" "length body < 2 ^ 32"
    using assms by (simp_all add: chunk_ok_def c)
  have len: "length (chunk_bytes c) = 8 + length body + length body mod 2"
    by (cases "odd (length body)") (simp_all add: chunk_bytes_def c i odd_iff_mod_2_eq_one even_iff_mod_2_eq_zero)
  have "at4 (length p) ?f = i" using at4_prefix[of p "length p" i] i(1) by (simp add: chunk_bytes_def c)
  moreover have "at4 (length p + 4) ?f = u32_to_le (length body)"
    using at4_prefix[of "p @ i" "length p + 4" "u32_to_le (length body)"] i(1) by (simp add: chunk_bytes_def c)
  moreover have "length p + 8 \<le> length ?f" "length p + (8 + length body + length body mod 2) \<le> length ?f"
    using len by simp_all
  ultimately have "repair_chunks (length p) ?f = repair_chunks (length (p @ chunk_bytes c)) ?f"
    using i by (subst repair_chunks.simps) (simp add: u32_le_round_trip len Let_def)
  moreover have "repair_chunks (length (p @ chunk_bytes c)) (p @ chunk_bytes c) = p @ chunk_bytes c"
    by (subst repair_chunks.simps) simp
  ultimately show ?thesis by simp
qed

lemma repair_chunks_file:
  assumes "list_all chunk_ok chunks" and "length data_size = 4" and "length pcm < 2 ^ 32"
  shows "repair_chunks (length p) (p @ concat (map chunk_bytes chunks) @ bytes_of ''data'' @ data_size @ pcm) =
    p @ concat (map chunk_bytes chunks) @ bytes_of ''data'' @ u32_to_le (length pcm) @ pcm"
  using assms(1)
proof (induction chunks arbitrary: p)
  case Nil
  then show ?case using repair_chunks_data[OF assms(2,3)] by simp
next
  case (Cons c chunks)
  have "bytes_of ''data'' \<noteq> []" by (simp add: bytes_of_def)
  with Cons.prems Cons.IH[of "p @ chunk_bytes c"] show ?case
    using repair_chunks_chunk[of c p "concat (map chunk_bytes chunks) @ bytes_of ''data'' @ data_size @ pcm"] by simp
qed

lemma normalize_wav_file:
  assumes "list_all chunk_ok chunks" and "length riff_size = 4" and "length data_size = 4"
    and "length (wav_file riff_size data_size chunks pcm) < 2 ^ 32"
  shows "normalize_streamed_wav (wav_file riff_size data_size chunks pcm) =
    wav_file (u32_to_le (length (wav_file riff_size data_size chunks pcm) - 8)) (u32_to_le (length pcm)) chunks pcm"
proof -
  let ?w = "wav_file riff_size data_size chunks pcm"
  let ?tail = "concat (map chunk_bytes chunks) @ bytes_of ''data'' @ data_size @ pcm"
  have w: "?w = bytes_of ''RIFF'' @ riff_size @ bytes_of ''WAVE'' @ ?tail" by (simp add: wav_file_def)
  have "at4 0 ?w = bytes_of ''RIFF''" unfolding w using at4_prefix[of "[]" 0 "bytes_of ''RIFF''"] by simp
  moreover have "at4 8 ?w = bytes_of ''WAVE''"
    unfolding w using at4_prefix[of "bytes_of ''RIFF'' @ riff_size" 8 "bytes_of ''WAVE''" ?tail] assms(2) by simp
  moreover have "put4 4 new ?w = bytes_of ''RIFF'' @ new @ bytes_of ''WAVE'' @ ?tail" for new
    unfolding w using put4_prefix[of "bytes_of ''RIFF''" 4 riff_size new "bytes_of ''WAVE'' @ ?tail"] assms(2) by simp
  moreover have "\<not> length ?w < 12" "min (length ?w - 8) (2 ^ 32 - 1) = length ?w - 8"
    using assms(2,4) by (auto simp: w)
  moreover have "length pcm < 2 ^ 32" using assms(4) by (simp add: w)
  note repair_chunks_file[OF assms(1,3) this, of "bytes_of ''RIFF'' @ u32_to_le (length ?w - 8) @ bytes_of ''WAVE''"]
  ultimately show ?thesis by (simp add: normalize_streamed_wav_def wav_file_def)
qed

text \<open>C30. Whatever placeholder sizes the speech service wrote while streaming, the repair yields the
  well-formed file: the same chunks and samples under the sizes they really have.  Repairing again
  changes nothing.\<close>

theorem streamed_wav_repaired:
  assumes "list_all chunk_ok chunks" and "length riff_size = 4" and "length data_size = 4"
    and "length (wav_file riff_size data_size chunks pcm) < 2 ^ 32"
    and "repaired = wav_file (u32_to_le (length (wav_file riff_size data_size chunks pcm) - 8))
      (u32_to_le (length pcm)) chunks pcm"
  shows "normalize_streamed_wav (wav_file riff_size data_size chunks pcm) = repaired \<and>
    normalize_streamed_wav repaired = repaired"
proof -
  have "length repaired = length (wav_file riff_size data_size chunks pcm)"
    using assms(2,3,5) by (simp add: wav_file_def)
  with normalize_wav_file[OF assms(1-4)]
    normalize_wav_file[OF assms(1), of "u32_to_le (length repaired - 8)" "u32_to_le (length pcm)" pcm] assms(4,5)
  show ?thesis by simp
qed

lemma streamed_wav_repaired_witness:
  "normalize_streamed_wav (wav_file [255, 255, 255, 255] [255, 255, 255, 127] [(bytes_of ''fmt '', [1, 0, 3])] [9, 8]) =
    wav_file [26, 0, 0, 0] [2, 0, 0, 0] [(bytes_of ''fmt '', [1, 0, 3])] [9, 8]"
proof -
  have "bytes_of ''fmt '' \<noteq> bytes_of ''data''" by (simp add: bytes_of_def)
  then show ?thesis
    using streamed_wav_repaired[of "[(bytes_of ''fmt '', [1, 0, 3])]" "[255, 255, 255, 255]" "[255, 255, 255, 127]" "[9, 8]"]
    by (simp add: wav_file_def chunk_bytes_def chunk_ok_def u32_to_le_def)
qed

subsection \<open>Decoding speech\<close>

datatype sample_format = IntFormat | FloatFormat

record wav_spec =
  ws_channels :: nat
  ws_sample_rate :: u32
  ws_bits_per_sample :: nat
  ws_sample_format :: sample_format

text \<open>What the library reads from a file: the format, or the samples up to the first that is bad.\<close>

record wav_reader =
  wr_spec :: "u8 list \<Rightarrow> unit + wav_spec"
  wr_int_samples :: "u8 list \<Rightarrow> (unit + i32) list"
  wr_float_samples :: "u8 list \<Rightarrow> (unit + rat) list"

datatype wav_error = InvalidWav | ZeroChannels | UnsupportedFormat | BadSample

fun read_int_samples_to_f32 :: "nat \<Rightarrow> (unit + i32) list \<Rightarrow> wav_error + rat list" where
  "read_int_samples_to_f32 bits [] = Inr []"
| "read_int_samples_to_f32 bits (Inl _ # samples) = Inl BadSample"
| "read_int_samples_to_f32 bits (Inr v # samples) =
     (case read_int_samples_to_f32 bits samples of
        Inl e \<Rightarrow> Inl e
      | Inr out \<Rightarrow> Inr (f32_round (f32_round (of_int (sint v)) / 2 ^ (min (max bits 1) 32 - 1)) # out))"

fun read_float_samples_to_f32 :: "(unit + rat) list \<Rightarrow> wav_error + rat list" where
  "read_float_samples_to_f32 [] = Inr []"
| "read_float_samples_to_f32 (Inl _ # samples) = Inl BadSample"
| "read_float_samples_to_f32 (Inr v # samples) =
     (case read_float_samples_to_f32 samples of Inl e \<Rightarrow> Inl e | Inr out \<Rightarrow> Inr (v # out))"

function chunks :: "nat \<Rightarrow> 'a list \<Rightarrow> 'a list list" where
  "chunks n xs = (if n = 0 \<or> xs = [] then [] else take n xs # chunks n (drop n xs))"
  by pat_completeness auto
termination
  by (relation "measure (\<lambda>(n, xs). length xs)") auto

declare chunks.simps [simp del]

definition mix_to_mono :: "rat list \<Rightarrow> nat \<Rightarrow> rat list" where
  "mix_to_mono samples channels =
     (if channels \<le> 1 then samples
      else map (\<lambda>frame. f32_round (foldl (\<lambda>a s. f32_round (a + s)) 0 frame / of_nat (length frame)))
        (chunks channels samples))"

text \<open>Reading past the end is a panic.\<close>

definition index :: "'a list \<Rightarrow> nat \<Rightarrow> 'a option" where
  "index xs i = (if i < length xs then Some (xs ! i) else None)"

text \<open>\<open>f64::round\<close> of a value that is not negative, and the cast to \<open>usize\<close>.\<close>

definition round_to_usize :: "rat \<Rightarrow> nat" where
  "round_to_usize x = min (nat \<lfloor>x + 1 / 2\<rfloor>) (2 ^ 64 - 1)"

definition resample_at :: "rat list \<Rightarrow> rat \<Rightarrow> nat \<Rightarrow> rat option" where
  "resample_at input ratio i =
     (let src_pos = f64_round (of_nat i / ratio);
          left = nat \<lfloor>src_pos\<rfloor>;
          right = min (left + 1) (length input - 1);
          frac = f32_round (f64_round (src_pos - of_nat left))
      in case (index input left, index input right) of
           (Some a, Some b) \<Rightarrow> Some (f32_round (a + f32_round (f32_round (b - a) * frac)))
         | _ \<Rightarrow> None)"

definition linear_resample :: "rat list \<Rightarrow> u32 \<Rightarrow> u32 \<Rightarrow> rat list option" where
  "linear_resample input input_rate output_rate =
     (if input = [] \<or> input_rate = 0 \<or> output_rate = 0 then Some []
      else if input_rate = output_rate then Some input
      else
        (let ratio = f64_round (of_nat (unat output_rate) / of_nat (unat input_rate));
             output_len = round_to_usize (f64_round (of_nat (length input) * ratio));
             out = map (resample_at input ratio) [0..<output_len]
         in if None \<in> set out then None else Some (map the out)))"

definition f32_to_i16 :: "rat \<Rightarrow> i16" where
  "f32_to_i16 s =
     (let x = f32_round (max (- 1) (min 1 s) * 32767)
      in of_int (if x < 0 then - \<lfloor>- x\<rfloor> else \<lfloor>x\<rfloor>))"

definition decode_and_resample_wav ::
  "wav_reader \<Rightarrow> u8 list \<Rightarrow> u32 \<Rightarrow> (wav_error + i16 list) option" where
  "decode_and_resample_wav reader wav_bytes output_sample_rate =
     (let normalized = normalize_streamed_wav wav_bytes
      in case wr_spec reader normalized of
           Inl _ \<Rightarrow> Some (Inl InvalidWav)
         | Inr spec \<Rightarrow>
             if ws_channels spec = 0 then Some (Inl ZeroChannels)
             else
               (case (if ws_sample_format spec = IntFormat \<and> 1 \<le> ws_bits_per_sample spec \<and> ws_bits_per_sample spec \<le> 32
                      then read_int_samples_to_f32 (ws_bits_per_sample spec) (wr_int_samples reader normalized)
                      else if ws_sample_format spec = FloatFormat \<and> ws_bits_per_sample spec = 32
                      then read_float_samples_to_f32 (wr_float_samples reader normalized)
                      else Inl UnsupportedFormat) of
                  Inl e \<Rightarrow> Some (Inl e)
                | Inr samples_f32 \<Rightarrow>
                    (let mono = mix_to_mono samples_f32 (ws_channels spec)
                     in map_option (\<lambda>resampled. Inr (map f32_to_i16 resampled))
                          (if ws_sample_rate spec = output_sample_rate then Some mono
                           else linear_resample mono (ws_sample_rate spec) output_sample_rate))))"


subsection \<open>Resampling stays inside the input\<close>

lemma f64_round_between:
  assumes "0 \<le> x"
  shows "x - x / 9007199254740992 \<le> f64_round x" and "f64_round x \<le> x + x / 9007199254740992"
proof -
  have "\<bar>f64_round x - x\<bar> \<le> x / 9007199254740992"
    using f64_round_error[of x] assms by (simp only: abs_of_nonneg)
  then show "x - x / 9007199254740992 \<le> f64_round x" and "f64_round x \<le> x + x / 9007199254740992"
    by linarith+
qed

lemma f64_round_pos: "0 < x \<Longrightarrow> 0 < f64_round x"
  using f64_round_between(1)[of x] by linarith

lemma f64_round_nonneg: "0 \<le> x \<Longrightarrow> 0 \<le> f64_round x"
  using f64_round_between(1)[of x] by linarith

lemmas f64_round_le = f64_round_between(2)

lemma resample_position:
  fixes r z :: rat
  assumes "0 < r" and "z \<le> 1125899906842625" and "i < round_to_usize (f64_round z)" and "0 \<le> z"
  shows "f64_round (of_nat i / r) * r < z"
proof -
  have "i < nat \<lfloor>f64_round z + 1 / 2\<rfloor>" using assms(3) by (simp add: round_to_usize_def)
  then have "int i + 1 \<le> \<lfloor>f64_round z + 1 / 2\<rfloor>" by linarith
  then have "of_nat i + 1 \<le> f64_round z + 1 / 2"
    by (metis le_floor_iff of_int_add of_int_of_nat_eq of_int_1)
  with f64_round_le[OF assms(4)] have i: "of_nat i \<le> z + z / 9007199254740992 - 1 / 2" by linarith
  have "f64_round (of_nat i / r) * r \<le> (of_nat i / r + of_nat i / r / 9007199254740992) * r"
    using f64_round_le[of "of_nat i / r"] assms(1) by (intro mult_right_mono) simp_all
  also have "\<dots> = of_nat i + of_nat i / 9007199254740992" using assms(1) by (simp add: field_simps)
  also have "\<dots> < z" using i assms(2) by linarith
  finally show ?thesis .
qed

lemma resample_at_defined:
  assumes "0 < ratio" and "of_nat (length input) * ratio \<le> 1125899906842625"
    and "i < round_to_usize (f64_round (of_nat (length input) * ratio))"
  shows "\<exists>s. resample_at input ratio i = Some s"
proof -
  let ?src = "f64_round (of_nat i / ratio)"
  have "?src * ratio < of_nat (length input) * ratio"
    by (rule resample_position) (use assms in simp_all)
  with assms(1) have "?src < of_nat (length input)" by simp
  moreover have "0 \<le> ?src" by (rule f64_round_nonneg) (use assms(1) in simp)
  ultimately have "nat \<lfloor>?src\<rfloor> < length input" by (simp add: floor_less_iff nat_less_iff)
  then show ?thesis by (auto simp: resample_at_def index_def Let_def)
qed

text \<open>C31. Resampling never reads outside its input: for every recording and pair of rates, as long as
  the output has less than about \<open>10 ^ 15\<close> samples, the rounding of the double precision positions
  cannot push an index past the end, and the output has the rounded length.\<close>

theorem linear_resample_in_bounds:
  assumes "length input * unat output_rate \<le> 2 ^ 50 * unat input_rate"
    and "input \<noteq> []" and "input_rate \<noteq> 0" and "output_rate \<noteq> 0" and "input_rate \<noteq> output_rate"
    and "ratio = f64_round (of_nat (unat output_rate) / of_nat (unat input_rate))"
  shows "\<exists>out. linear_resample input input_rate output_rate = Some out \<and>
    length out = round_to_usize (f64_round (of_nat (length input) * ratio))"
proof -
  define a where "a = unat input_rate"
  define b where "b = unat output_rate"
  have pos: "0 < a" "0 < b" using assms(3,4) by (simp_all add: unat_gt_0 a_def b_def)
  then have q: "0 < (of_nat b / of_nat a :: rat)" by simp
  have ratio: "ratio = f64_round (of_nat b / of_nat a)" by (simp add: assms(6) a_def b_def)
  have "of_nat (length input) * (of_nat b / of_nat a) \<le> (2 ^ 50 :: rat)"
  proof -
    have "(of_nat (length input * b) :: rat) \<le> of_nat (2 ^ 50 * a)"
      using assms(1) unfolding a_def b_def by (simp only: of_nat_le_iff)
    with pos show ?thesis by (simp add: field_simps)
  qed
  moreover have "of_nat (length input) * ratio \<le>
      of_nat (length input) * (of_nat b / of_nat a + of_nat b / of_nat a / 9007199254740992)"
    unfolding ratio by (intro mult_left_mono f64_round_le) (use q in simp_all)
  moreover have "of_nat (length input) * (of_nat b / of_nat a + of_nat b / of_nat a / 9007199254740992) =
      of_nat (length input) * (of_nat b / of_nat a) +
      of_nat (length input) * (of_nat b / of_nat a) / (9007199254740992 :: rat)"
    by (simp only: distrib_left times_divide_eq_right)
  moreover have "w \<le> 1125899906842625" if "y \<le> 2 ^ 50" "w \<le> v" "v = y + y / 9007199254740992" for w v y :: rat
    using that by simp
  ultimately have z: "of_nat (length input) * ratio \<le> 1125899906842625" by blast
  have r: "0 < ratio" unfolding ratio by (rule f64_round_pos[OF q])
  have "None \<notin> set (map (resample_at input ratio)
      [0..<round_to_usize (f64_round (of_nat (length input) * ratio))])"
    using resample_at_defined[OF r z] by fastforce
  with assms(2-6) show ?thesis by (auto simp: linear_resample_def Let_def)
qed


lemma linear_resample_in_bounds_witness:
  "\<exists>out. linear_resample [1 / 2] 1 2 = Some out \<and> length out = 2"
proof -
  have two: "f64_round 2 = 2" "\<lfloor>5 / 2 :: rat\<rfloor> = 2" using f64_round_int[of 2] by (simp_all add: floor_eq_iff)
  then show ?thesis
    using linear_resample_in_bounds[of "[1 / 2]" 2 1 "f64_round (of_nat (unat (2 :: u32)) / of_nat (unat (1 :: u32)))"]
    by (simp add: round_to_usize_def)
qed

subsection \<open>Sound effects\<close>

fun samples_le :: "u8 list \<Rightarrow> i16 list" where
  "samples_le (a # b # bs) = (ucast a OR push_bit 8 (ucast b)) # samples_le bs"
| "samples_le _ = []"

text \<open>\<open>f64::round\<close>, halves away from zero, and the saturating cast to \<open>i16\<close>.\<close>

definition f64_to_i16 :: "rat \<Rightarrow> i16" where
  "f64_to_i16 x =
     of_int (max (- 32768) (min 32767 (if x < 0 then - \<lfloor>- x + 1 / 2\<rfloor> else \<lfloor>x + 1 / 2\<rfloor>)))"

definition interpolate_48k :: "i16 list \<Rightarrow> rat \<Rightarrow> nat \<Rightarrow> i16 option" where
  "interpolate_48k samples ratio i =
     (let src_pos = f64_round (of_nat i * ratio);
          idx = nat \<lfloor>src_pos\<rfloor>;
          frac = f64_round (src_pos - of_nat idx)
      in case index samples idx of
           None \<Rightarrow> None
         | Some s \<Rightarrow>
             (let a = of_int (sint s);
                  b = of_int (sint (case index samples (idx + 1) of None \<Rightarrow> s | Some s' \<Rightarrow> s'))
              in Some (f64_to_i16 (f64_round (a + f64_round (frac * f64_round (b - a)))))))"

definition decode_wav_48k :: "u8 list \<Rightarrow> i16 list option" where
  "decode_wav_48k wav_bytes =
     (if length wav_bytes < 44 then None
      else if at4 0 wav_bytes \<noteq> bytes_of ''RIFF'' then None
      else if at4 8 wav_bytes \<noteq> bytes_of ''WAVE'' then None
      else
        (let audio_format = u16_from_le (drop 20 wav_bytes);
             channels = u16_from_le (drop 22 wav_bytes);
             sample_rate = u32_from_le (drop 24 wav_bytes);
             bits_per_sample = u16_from_le (drop 34 wav_bytes)
         in if audio_format \<noteq> 1 \<or> channels \<noteq> 1 \<or> sample_rate = 0 \<or> bits_per_sample \<noteq> 16 then None
            else
              (let samples = samples_le (drop 44 wav_bytes)
               in if sample_rate = 48000 then Some samples
                  else
                    (let ratio = f64_round (of_nat sample_rate / 48000);
                         out_len = nat \<lceil>f64_round (of_nat (length samples) / ratio)\<rceil>;
                         out = map (interpolate_48k samples ratio) [0..<out_len]
                     in if None \<in> set out then None else Some (map the out)))))"

text \<open>\<open>file\<close> gives the embedded file of an event; its decoding is cached.\<close>

definition get_sound :: "(sound_event \<Rightarrow> u8 list) \<Rightarrow> sound_event \<Rightarrow> i16 list option" where
  "get_sound file event = decode_wav_48k (file event)"

text \<open>The playout time in seconds, before its conversion to a \<open>Duration\<close>, which panics on the
  infinite quotient of a zero rate.\<close>

definition sound_duration :: "(sound_event \<Rightarrow> u8 list) \<Rightarrow> sound_event \<Rightarrow> u32 \<Rightarrow> rat option" where
  "sound_duration file event sample_rate =
     (case get_sound file event of
        None \<Rightarrow> None
      | Some pcm \<Rightarrow>
          if sample_rate = 0 then None
          else Some (f64_round (of_nat (length pcm) / of_nat (unat sample_rate))))"

subsection \<open>What is played\<close>

definition samples_to_le :: "i16 list \<Rightarrow> u8 list" where
  "samples_to_le pcm = concat (map (\<lambda>s. [ucast s, ucast (drop_bit 8 s)]) pcm)"

lemma sample_le_round_trip: "(ucast (ucast s :: u8) OR push_bit 8 (ucast (ucast (drop_bit 8 s) :: u8))) = (s :: i16)"
  by (rule bit_word_eqI) (auto simp: bit_simps)

lemma samples_le_round_trip: "samples_le (samples_to_le pcm) = pcm"
  by (induction pcm) (simp_all add: samples_to_le_def sample_le_round_trip)

lemma samples_le_append: "even (length p) \<Longrightarrow> samples_le (p @ q) = samples_le p @ samples_le q"
  by (induction p rule: samples_le.induct) auto

text \<open>A 48 kHz mono file of 16 bit samples, with \<open>extra\<close> chunks between the format and the data.\<close>

definition wav_48k :: "(u8 list \<times> u8 list) list \<Rightarrow> i16 list \<Rightarrow> u8 list" where
  "wav_48k extra pcm =
     wav_file (u32_to_le (36 + length (concat (map chunk_bytes extra)) + 2 * length pcm))
       (u32_to_le (2 * length pcm))
       ((bytes_of ''fmt '', [1, 0, 1, 0, 128, 187, 0, 0, 0, 119, 1, 0, 2, 0, 16, 0]) # extra)
       (samples_to_le pcm)"

text \<open>The bytes of the first extra chunk that precede offset 44 are its name and size.\<close>

lemma decode_wav_48k_file:
  "decode_wav_48k (wav_48k extra pcm) = Some (samples_le (drop 8
     (concat (map chunk_bytes extra) @ bytes_of ''data'' @ u32_to_le (2 * length pcm)) @ samples_to_le pcm))"
proof -
  define rest where "rest = concat (map chunk_bytes extra) @ bytes_of ''data'' @ u32_to_le (2 * length pcm)"
  define riff where "riff = u32_to_le (36 + length (concat (map chunk_bytes extra)) + 2 * length pcm)"
  have "chunk_bytes (bytes_of ''fmt '', [1, 0, 1, 0, 128, 187, 0, 0, 0, 119, 1, 0, 2, 0, 16, 0]) =
      bytes_of ''fmt '' @ [16, 0, 0, 0, 1, 0, 1, 0, 128, 187, 0, 0, 0, 119, 1, 0, 2, 0, 16, 0]"
    by (simp add: chunk_bytes_def u32_to_le_def)
  then have bytes: "wav_48k extra pcm = bytes_of ''RIFF'' @ riff @ bytes_of ''WAVE'' @ bytes_of ''fmt '' @
      [16, 0, 0, 0, 1, 0, 1, 0, 128, 187, 0, 0, 0, 119, 1, 0, 2, 0, 16, 0] @ rest @ samples_to_le pcm"
    by (simp add: wav_48k_def wav_file_def riff_def rest_def)
  have "length riff = 4" by (simp add: riff_def)
  then obtain a b c d where riff: "riff = [a, b, c, d]" by (auto simp: numeral_eq_Suc length_Suc_conv)
  have "8 \<le> length rest" by (simp add: rest_def)
  then show ?thesis
    unfolding bytes riff rest_def[symmetric]
    by (simp add: decode_wav_48k_def at4_def bytes_of_def u16_from_le_def u32_from_le_def Let_def)
qed

text \<open>The embedded sound effects are decoded from a fixed offset: a file without extra chunks gives
  exactly its samples, but every chunk before the data, such as the \<open>LIST\<close> chunk of the chimes, is
  played as samples in front of the sound.\<close>

theorem extra_chunks_are_played:
  assumes "chunk_ok c" and "even (length (snd c))"
  shows "decode_wav_48k (wav_48k [] pcm) = Some pcm \<and>
    decode_wav_48k (wav_48k [c] pcm) =
      Some (samples_le (snd c) @ samples_le (bytes_of ''data'' @ u32_to_le (2 * length pcm)) @ pcm)"
proof
  show "decode_wav_48k (wav_48k [] pcm) = Some pcm"
    by (simp add: decode_wav_48k_file samples_le_round_trip)
  have "drop 8 (concat (map chunk_bytes [c]) @ bytes_of ''data'' @ u32_to_le (2 * length pcm)) =
      snd c @ bytes_of ''data'' @ u32_to_le (2 * length pcm)"
    using assms by (simp add: chunk_bytes_def chunk_ok_def)
  then show "decode_wav_48k (wav_48k [c] pcm) =
      Some (samples_le (snd c) @ samples_le (bytes_of ''data'' @ u32_to_le (2 * length pcm)) @ pcm)"
    using assms(2) by (simp add: decode_wav_48k_file samples_le_append samples_le_round_trip flip: append_assoc)
qed

lemma extra_chunks_are_played_witness:
  "decode_wav_48k (wav_48k [(bytes_of ''LIST'', [5, 0])] [7]) = Some [5, 24932, 24948, 2, 0, 7]"
proof -
  have "bytes_of ''LIST'' \<noteq> bytes_of ''data''" by (simp add: bytes_of_def)
  then show ?thesis
    using extra_chunks_are_played[of "(bytes_of ''LIST'', [5, 0])" "[7]"]
    by (simp add: chunk_ok_def bytes_of_def u32_to_le_def)
qed

end
