(* ===== verification/Lifecycle.thy ===== *)
theory Lifecycle
  imports SessionProtocol TtsRuntime
begin

text \<open>
  The life of the process: the start-up and shutdown of \<^verbatim>\<open>src/main.rs\<close> and the pjsua endpoint of
  \<^verbatim>\<open>src/sip/mod.rs\<close>.  What pjsua, the database and the speech service answer are arguments.
\<close>

subsection \<open>Threads known to pjlib\<close>

text \<open>The thread-local slot holds a descriptor once the thread is registered by the program.  The
  result is the new slot and whether \<^verbatim>\<open>pj_thread_register\<close> was called.\<close>

definition ensure_pj_thread_registered :: "bool \<Rightarrow> pj_status \<Rightarrow> bool \<Rightarrow> bool \<times> bool" where
  "ensure_pj_thread_registered is_registered status slot =
     (if slot then (slot, False)
      else if is_registered then (slot, False)
      else if status \<noteq> 0 then (slot, True)
      else (True, True))"

subsection \<open>The endpoint\<close>

text \<open>The calls of \<^verbatim>\<open>PjsuaEndpoint::init\<close> with what the program passes to them.\<close>

datatype pjsua_call =
    PjsuaCreate
  | PjsuaInit u32 nat u32 u32 bool
  | CodecSetPriority rstr nat
  | TransportCreate u32
  | PjsuaStart
  | SetNullSndDev
  | AccAdd rstr rstr rstr rstr rstr rstr
  | CallHangupAll
  | PjsuaDestroy

datatype init_error = StatusError string pj_status | NulError

definition check_status :: "pj_status \<Rightarrow> string \<Rightarrow> init_error + unit" where
  "check_status status context = (if status = 0 then Inr () else Inl (StatusError context status))"

definition codec_priorities :: "(string \<times> nat) list" where
  "codec_priorities =
     [(''opus/48000'', 254), (''G722/16000'', 200), (''speex/16000'', 180), (''speex/32000'', 160),
      (''PCMU/8000'', 100), (''PCMA/8000'', 99), (''speex/8000'', 80)]"

definition configure_codec_priorities :: "pjsua_call list" where
  "configure_codec_priorities = map (\<lambda>(codec_id, priority). CodecSetPriority (lit codec_id) priority) codec_priorities"

text \<open>\<^verbatim>\<open>CString::new\<close> refuses an interior NUL.\<close>

definition cstring_new :: "rstr \<Rightarrow> init_error + rstr" where
  "cstring_new s = (if 0 \<in> set s then Inl NulError else Inr s)"

fun cstrings :: "rstr list \<Rightarrow> init_error + rstr list" where
  "cstrings [] = Inr []"
| "cstrings (s # ss) =
     (case cstring_new s of Inl e \<Rightarrow> Inl e | Inr c \<Rightarrow>
        (case cstrings ss of Inl e \<Rightarrow> Inl e | Inr cs \<Rightarrow> Inr (c # cs)))"

text \<open>The calls that are made until the first error, and the result.\<close>

fun run_calls ::
  "(pjsua_call \<Rightarrow> pj_status) \<Rightarrow> (pjsua_call \<times> string option) list \<Rightarrow> pjsua_call list \<times> (init_error + unit)" where
  "run_calls answer [] = ([], Inr ())"
| "run_calls answer ((call, context) # calls) =
     (case (case context of None \<Rightarrow> Inr () | Some c \<Rightarrow> check_status (answer call) c) of
        Inl e \<Rightarrow> ([call], Inl e)
      | Inr _ \<Rightarrow> (let (made, r) = run_calls answer calls in (call # made, r)))"

definition init_calls :: "sip_config \<Rightarrow> (pjsua_call \<times> string option) list" where
  "init_calls config =
     [(PjsuaCreate, Some ''pjsua_create''),
      (PjsuaInit (sc_max_concurrent_calls config) 3 48000 48000 True, Some ''pjsua_init'')] @
     map (\<lambda>c. (c, None)) configure_codec_priorities @
     [(TransportCreate (ucast (sc_listen_port config)), Some ''pjsua_transport_create''),
      (PjsuaStart, Some ''pjsua_start''),
      (SetNullSndDev, Some ''pjsua_set_null_snd_dev'')]"

definition account_call :: "sip_config \<Rightarrow> pjsua_call" where
  "account_call config =
     AccAdd (sc_account_uri config) (sc_registrar config) (lit ''*'') (lit ''digest'')
       (sc_username config) (sc_password config)"

definition init :: "(pjsua_call \<Rightarrow> pj_status) \<Rightarrow> sip_config \<Rightarrow> pjsua_call list \<times> (init_error + unit)" where
  "init answer config =
     (case run_calls answer (init_calls config) of
        (made, Inl e) \<Rightarrow> (made, Inl e)
      | (made, Inr _) \<Rightarrow>
          (case cstrings [sc_account_uri config, sc_registrar config, lit ''*'', sc_username config,
                          sc_password config, lit ''digest''] of
             Inl e \<Rightarrow> (made, Inl e)
           | Inr _ \<Rightarrow>
               (case run_calls answer [(account_call config, Some ''pjsua_acc_add'')] of
                  (made', r) \<Rightarrow> (made @ made', r))))"

lemma run_calls_unchecked:
  "run_calls answer (map (\<lambda>c. (c, None)) cs @ rest) =
     (case run_calls answer rest of (made, r) \<Rightarrow> (cs @ made, r))"
  by (induction cs) (simp_all split: prod.splits)

lemma cstrings_nul: "cstrings ss = (if \<exists>t \<in> set ss. 0 \<in> set t then Inl NulError else Inr ss)"
  by (induction ss) (auto simp: cstring_new_def)

text \<open>The calls of an endpoint that comes up, in order; the first five checked ones with what their errors
  name.\<close>

definition endpoint_checks :: "sip_config \<Rightarrow> (pjsua_call \<times> string) list" where
  "endpoint_checks config =
     [(PjsuaCreate, ''pjsua_create''),
      (PjsuaInit (sc_max_concurrent_calls config) 3 48000 48000 True, ''pjsua_init''),
      (TransportCreate (ucast (sc_listen_port config)), ''pjsua_transport_create''),
      (PjsuaStart, ''pjsua_start''),
      (SetNullSndDev, ''pjsua_set_null_snd_dev'')]"

lemma init_until_account:
  assumes "codecs = map (\<lambda>(c, p). CodecSetPriority (lit c) p)
      [(''opus/48000'', 254), (''G722/16000'', 200), (''speex/16000'', 180), (''speex/32000'', 160),
       (''PCMU/8000'', 100), (''PCMA/8000'', 99), (''speex/8000'', 80)]"
    and "order = map fst (take 2 (endpoint_checks config)) @ codecs @ map fst (drop 2 (endpoint_checks config))"
  shows "run_calls answer (init_calls config) =
    (case List.find (\<lambda>(call, what). answer call \<noteq> 0) (endpoint_checks config) of
       Some (call, what) \<Rightarrow> (takeWhile (\<lambda>c. c \<noteq> call) order @ [call], Inl (StatusError what (answer call)))
     | None \<Rightarrow> (order, Inr ()))"
proof -
  have codecs: "configure_codec_priorities = codecs"
    by (simp add: configure_codec_priorities_def codec_priorities_def assms(1))
  have apart: "c \<in> set codecs \<Longrightarrow> c \<noteq> TransportCreate p \<and> c \<noteq> PjsuaStart \<and> c \<noteq> SetNullSndDev" for c p
    by (auto simp: assms(1))
  have skip: "takeWhile (\<lambda>c. c \<noteq> call) (codecs @ rest) = codecs @ takeWhile (\<lambda>c. c \<noteq> call) rest"
    if "call \<in> {TransportCreate (ucast (sc_listen_port config)), PjsuaStart, SetNullSndDev}" for call rest
    using that apart by (intro takeWhile_append2) auto
  show ?thesis
    unfolding init_calls_def codecs assms(2)
    by (simp add: run_calls_unchecked check_status_def endpoint_checks_def skip)
qed

text \<open>C34. What becomes of the endpoint: pjsua is created, initialised for the configured number of calls
  without voice activity detection, told the codec priorities, given the UDP transport on the
  configured port, started and set to the null sound device, in this order; the first of these calls
  that fails, codec priorities aside, is named by the error and is the last call made.  After them a
  NUL character in a string of the account is an error before the account is added; the account
  is added last, with the configured address, registrar and credentials, and its failure is the
  last possible error.\<close>

theorem endpoint_init_outcome:
  assumes "checks = [(PjsuaCreate, ''pjsua_create''),
      (PjsuaInit (sc_max_concurrent_calls config) 3 48000 48000 True, ''pjsua_init''),
      (TransportCreate (ucast (sc_listen_port config)), ''pjsua_transport_create''),
      (PjsuaStart, ''pjsua_start''), (SetNullSndDev, ''pjsua_set_null_snd_dev'')]"
    and "codecs = map (\<lambda>(c, p). CodecSetPriority (lit c) p)
      [(''opus/48000'', 254), (''G722/16000'', 200), (''speex/16000'', 180), (''speex/32000'', 160),
       (''PCMU/8000'', 100), (''PCMA/8000'', 99), (''speex/8000'', 80)]"
    and "order = map fst (take 2 checks) @ codecs @ map fst (drop 2 checks)"
    and "account = AccAdd (sc_account_uri config) (sc_registrar config) (lit ''*'') (lit ''digest'')
      (sc_username config) (sc_password config)"
  shows "init answer config =
    (case List.find (\<lambda>(call, what). answer call \<noteq> 0) checks of
       Some (call, what) \<Rightarrow> (takeWhile (\<lambda>c. c \<noteq> call) order @ [call], Inl (StatusError what (answer call)))
     | None \<Rightarrow>
         if \<exists>t \<in> {sc_account_uri config, sc_registrar config, sc_username config, sc_password config}. 0 \<in> set t
         then (order, Inl NulError)
         else (order @ [account],
           if answer account = 0 then Inr () else Inl (StatusError ''pjsua_acc_add'' (answer account))))"
proof -
  have checks: "checks = endpoint_checks config" by (simp add: assms(1) endpoint_checks_def)
  have star: "0 \<notin> set (lit ''*'')" "0 \<notin> set (lit ''digest'')" by (simp_all add: lit_def)
  note run = init_until_account[OF assms(2) assms(3)[unfolded checks], of answer]
  show ?thesis
  proof (cases "List.find (\<lambda>(call, what). answer call \<noteq> 0) checks")
    case None
    with run star show ?thesis
      by (simp add: init_def checks cstrings_nul check_status_def account_call_def assms(4) disj_assoc)
  next
    case (Some f)
    with run show ?thesis by (cases f) (simp add: init_def checks)
  qed
qed

lemma endpoint_init_outcome_witness:
  "snd (init (\<lambda>call. if call = PjsuaStart then 70001 else 0) (sip_config_of (bridge_for 2))) =
    Inl (StatusError ''pjsua_start'' 70001)"
  unfolding endpoint_init_outcome[OF refl refl refl refl] by simp

subsection \<open>Start-up\<close>

datatype main_error = ConfigNotLoaded load_error | ConfigInvalid config_error | DatabaseFailed | EndpointFailed init_error

text \<open>\<open>runtime_built\<close> and \<open>startup\<close> are the answers of the speech runtime; a failed start-up check only
  warns.  The result says whether the session manager gets a runtime.\<close>

definition speech_runtime :: "config \<Rightarrow> bool \<Rightarrow> unit + unit \<Rightarrow> bool" where
  "speech_runtime cfg runtime_built startup =
     (if tts_enabled (cfg_tts cfg) then
        (if runtime_built then (case startup of Inr _ \<Rightarrow> True | Inl _ \<Rightarrow> True) else False)
      else False)"

text \<open>The first argument of the program is the path of the configuration.\<close>

definition config_path :: "rstr list \<Rightarrow> rstr" where
  "config_path args = (case args of program # path # _ \<Rightarrow> path | _ \<Rightarrow> lit ''config.toml'')"

definition main_start ::
  "(rstr \<Rightarrow> rstr option) \<Rightarrow> (rstr \<Rightarrow> unit + raw_config) \<Rightarrow> rstr list \<Rightarrow> bool \<Rightarrow> unit + unit \<Rightarrow> bool \<Rightarrow> (pjsua_call \<Rightarrow> pj_status) \<Rightarrow>
     pjsua_call list \<times> (main_error + config \<times> bool \<times> sys)" where
  "main_start read parse args runtime_built startup database answer =
     (case load_config read parse (config_path args) of
        Inl e \<Rightarrow> ([], Inl (ConfigNotLoaded e))
      | Inr cfg \<Rightarrow>
          (case validate cfg of
             Inl e \<Rightarrow> ([], Inl (ConfigInvalid e))
           | Inr _ \<Rightarrow>
               (let runtime = speech_runtime cfg runtime_built startup
                in if \<not> database then ([], Inl DatabaseFailed)
                   else
                     (case init answer (sip_config_of cfg) of
                        (made, Inl e) \<Rightarrow> (made, Inl (EndpointFailed e))
                      | (made, Inr _) \<Rightarrow> (made, Inr (cfg, runtime, initial_sys))))))"

text \<open>No SIP call can arrive before the configuration is valid and the database is open: the first
  call to pjsua comes after both.\<close>

lemma endpoint_last:
  "fst (main_start read parse args runtime_built startup database answer) \<noteq> [] \<Longrightarrow>
     database \<and> (\<exists>cfg. load_config read parse (config_path args) = Inr cfg \<and> validate cfg = Inr ())"
  by (auto simp: main_start_def Let_def split: sum.splits if_splits)

subsection \<open>Shutdown\<close>

text \<open>Every call is hung up through pjsua; the calls then end one by one as SIP events.  When the
  endpoint is dropped, pjsua is destroyed.\<close>

definition hangup_all_calls :: "bool \<Rightarrow> pj_status \<Rightarrow> bool \<Rightarrow> bool \<times> pjsua_call list" where
  "hangup_all_calls is_registered status slot =
     (fst (ensure_pj_thread_registered is_registered status slot), [CallHangupAll])"

definition endpoint_drop :: "pjsua_call list" where
  "endpoint_drop = [PjsuaDestroy]"

text \<open>What happens while the loop waits for the calls to end: a step of another task, or of the
  handler the loop itself is running, an event from pjsua, or the deadline.  New calls and digits
  are SIP events, which this loop ignores.\<close>

datatype drain_input =
    Step event
  | DrainEvent "sip_event option"
  | Deadline

definition sip_driven :: "event \<Rightarrow> bool" where
  "sip_driven e = (case e of EvIncoming _ _ _ \<Rightarrow> True | EvCallState _ _ \<Rightarrow> True | EvDtmf _ _ _ \<Rightarrow> True | _ \<Rightarrow> False)"

datatype drain_end = Drained | ChannelGone | TimedOut | StillWaiting

fun drain_run :: "config \<Rightarrow> drain_input list \<Rightarrow> sys \<Rightarrow> drain_end \<times> sys" where
  "drain_run cfg [] s =
     (if main_loop s = MIdle \<and> active_call_count s = 0 then (Drained, s) else (StillWaiting, s))"
| "drain_run cfg (i # inputs) s =
     (if main_loop s = MIdle \<and> active_call_count s = 0 then (Drained, s)
      else
        (case i of
           Step e \<Rightarrow> drain_run cfg inputs (if sip_driven e then s else sys_step cfg e s)
         | DrainEvent None \<Rightarrow> if main_loop s = MIdle then (ChannelGone, s) else drain_run cfg inputs s
         | DrainEvent (Some ev) \<Rightarrow>
             (case ev of
                CallStateChanged call state \<Rightarrow> drain_run cfg inputs (sys_step cfg (EvCallState call state) s)
              | _ \<Rightarrow> drain_run cfg inputs s)
         | Deadline \<Rightarrow> if main_loop s = MIdle then (TimedOut, s) else drain_run cfg inputs s))"

text \<open>The writes that are awaited, for at most a minute, after the drain.\<close>

definition shutdown_writes :: "config \<Rightarrow> drain_input list \<Rightarrow> sys \<Rightarrow> pending_write list" where
  "shutdown_writes cfg inputs s = fst (drain_pending_writes (snd (drain_run cfg inputs s)))"

text \<open>The writes that finish while the loop waits, in the order in which they do; and the store as a
  write leaves it, if the database accepts it.\<close>

definition write_done :: "event \<Rightarrow> sys \<Rightarrow> pending_write list" where
  "write_done e s =
     (case e of
        EvWriteDone k \<Rightarrow>
          if k < length (pending_writes s) \<and> \<not> pw_finished (pending_writes s ! k)
          then [pending_writes s ! k] else []
      | _ \<Rightarrow> [])"

fun finished_writes :: "config \<Rightarrow> drain_input list \<Rightarrow> sys \<Rightarrow> pending_write list" where
  "finished_writes cfg [] s = []"
| "finished_writes cfg (i # inputs) s =
     (if main_loop s = MIdle \<and> active_call_count s = 0 then []
      else
        (case i of
           Step e \<Rightarrow>
             if sip_driven e then finished_writes cfg inputs s
             else write_done e s @ finished_writes cfg inputs (sys_step cfg e s)
         | DrainEvent None \<Rightarrow> if main_loop s = MIdle then [] else finished_writes cfg inputs s
         | DrainEvent (Some ev) \<Rightarrow>
             (case ev of
                CallStateChanged call state \<Rightarrow> finished_writes cfg inputs (sys_step cfg (EvCallState call state) s)
              | _ \<Rightarrow> finished_writes cfg inputs s)
         | Deadline \<Rightarrow> if main_loop s = MIdle then [] else finished_writes cfg inputs s))"

definition store_write :: "pending_write \<Rightarrow> caller_db \<Rightarrow> caller_db" where
  "store_write w db = snd (set_last_channel_id True NoFault (pw_phone w) (pw_host w) (pw_channel w) db)"

lemma drained_no_sessions: "drain_run cfg inputs s = (Drained, s') \<Longrightarrow> sessions s' = [] \<and> main_loop s' = MIdle"
  by (induction cfg inputs s rule: drain_run.induct)
    (auto simp: active_call_count_def split: if_splits drain_input.splits option.splits sip_event.splits)

text \<open>A call that is still being set up does not count as active: the drain ends at once, and the
  setup can store a session that is never hung up nor its channel persisted.\<close>

lemma setup_outlives_drain:
  "drain_run (bridge_for 2) [] (sys_run (bridge_for 2) (call_begins 7 0) initial_sys)
     = (Drained, sys_run (bridge_for 2) (call_begins 7 0) initial_sys) \<and>
   setups (sys_run (bridge_for 2) (call_begins 7 0) initial_sys) \<noteq> []"
  by code_simp


subsection \<open>What is written at shutdown\<close>

definition session_write :: "rstr \<Rightarrow> call_session \<Rightarrow> pending_write" where
  "session_write phone cs =
     \<lparr>pw_phone = phone, pw_host = cs_server_host cs, pw_channel = cs_current_channel_id cs,
      pw_finished = False\<rparr>"

definition settled :: "call_id \<Rightarrow> sys \<Rightarrow> bool" where
  "settled call s \<longleftrightarrow> (\<forall>t \<in> set (setups s). st_call t = call \<longrightarrow> st_pc t = SDone)"

definition will_persist :: "call_id \<Rightarrow> call_session \<Rightarrow> rstr \<Rightarrow> sys \<Rightarrow> bool" where
  "will_persist call cs phone s \<longleftrightarrow>
     hm_get (sessions s) call = Some cs \<or> main_loop s = MPersist call cs \<or>
     session_write phone cs \<in> set (pending_writes s)"

lemma setup_action_writes:
  assumes "setup_action cfg i ans t s = (t', s')"
  shows "pending_writes s' = pending_writes s \<and> main_loop s' = main_loop s"
  using assms
  by (cases "st_pc t"; cases ans)
    (auto simp: setup_action_def finish_action_def Let_def case_prod_beta manager_op_defs
      remove_pending_setup_def hangup_def spawn_tasks_def
      register_pending_port_def spawn_deferred_def create_port_def split: if_splits option.splits)

lemma setup_done: "st_pc t = SDone \<Longrightarrow> setup_action cfg i ans t s = (t, s)"
  by (simp add: setup_action_def finish_action_def)

lemma setup_step_settled:
  assumes "settled call s" and "will_persist call cs phone s" and i: "i < length (setups s)"
  shows "settled call (setup_step cfg i ans s) \<and> will_persist call cs phone (setup_step cfg i ans s)"
proof -
  let ?t = "setups s ! i"
  obtain t' s1 where act: "setup_action cfg i ans ?t s = (t', s1)" by fastforce
  have call: "st_call t' = st_call ?t" using setup_action_frame[OF act] by blast
  have t: "?t \<in> set (setups s)" using i by simp
  have "settled call (setup_step cfg i ans s)"
  proof (cases "st_call ?t = call")
    case True
    with assms(1) t have "st_pc ?t = SDone" by (simp add: settled_def)
    with act have "t' = ?t" by (auto simp: setup_done)
    with assms(1) show ?thesis by (simp add: settled_def setup_step_parts[OF act])
  next
    case False
    then have "st_call t' \<noteq> call" by (simp add: call)
    moreover have "set ((setups s)[i := t']) \<subseteq> insert t' (set (setups s))" by (rule set_update_subset_insert)
    ultimately show ?thesis using assms(1) unfolding settled_def setup_step_parts[OF act] by auto
  qed
  moreover have "hm_get (sessions s1) call = hm_get (sessions s) call"
    using setup_action_sessions[OF act] assms(1) t by (auto simp: settled_def)
  with assms(2) setup_action_writes[OF act] have "will_persist call cs phone (setup_step cfg i ans s)"
    by (simp add: will_persist_def setup_step_parts[OF act])
  ultimately show ?thesis by blast
qed

lemma main_step_persists:
  assumes "will_persist call cs phone s" and "cs_caller_number cs = Some phone"
  shows "will_persist call cs phone (main_step status s)"
proof (cases "main_loop s")
  case (MClean c cs' pc)
  then show ?thesis using assms
    by (cases pc) (auto simp: main_step_def will_persist_def case_prod_beta abort_tasks_def)
next
  case (MPersist c cs')
  then show ?thesis using assms
    by (auto simp: main_step_def will_persist_def persist_last_channel_def reap_completed_writes_def
        session_write_def split: option.splits)
qed (use assms in \<open>auto simp: main_step_def will_persist_def manager_op_defs split: option.splits\<close>)

lemma write_done_persists:
  assumes "will_persist call cs phone s"
  shows "will_persist call cs phone (sys_step cfg (EvWriteDone k) s) \<or>
    session_write phone cs \<in> set (write_done (EvWriteDone k) s)"
proof (cases "k < length (pending_writes s) \<and> session_write phone cs \<in> set (pending_writes s)")
  case True
  then obtain j where j: "j < length (pending_writes s)" "pending_writes s ! j = session_write phone cs"
    by (auto simp: in_set_conv_nth)
  show ?thesis
  proof (cases "j = k")
    case True
    with j show ?thesis by (simp add: write_done_def session_write_def)
  next
    case False
    with j True have "(pending_writes s)[k := (pending_writes s ! k)\<lparr>pw_finished := True\<rparr>] ! j =
        session_write phone cs" by simp
    with j True show ?thesis by (auto simp: will_persist_def in_set_conv_nth)
  qed
qed (use assms in \<open>auto simp: will_persist_def\<close>)

lemma step_persists:
  assumes "settled call s" and "will_persist call cs phone s" and "cs_caller_number cs = Some phone"
    and "\<not> sip_driven e"
  shows "settled call (sys_step cfg e s) \<and>
    (will_persist call cs phone (sys_step cfg e s) \<or> session_write phone cs \<in> set (write_done e s))"
proof (cases e)
  case (EvSetup i ans)
  then show ?thesis using setup_step_settled[OF assms(1,2)] assms(1,2) by simp
next
  case (EvMain status)
  then show ?thesis using main_step_persists[OF assms(2,3)] assms(1) by (simp add: settled_def main_step_frame)
next
  case (EvWriteDone k)
  with assms(1) have "settled call (sys_step cfg e s)" by (simp add: settled_def)
  with write_done_persists[OF assms(2), of cfg k] EvWriteDone show ?thesis by blast
qed (use assms in \<open>auto simp: sip_driven_def settled_def will_persist_def callback_step_def Let_def case_prod_beta\<close>)

lemma hangup_persists:
  assumes "settled call s" and "will_persist call cs phone s" and "main_loop s = MIdle"
  shows "settled call (on_call_disconnected c s) \<and> will_persist call cs phone (on_call_disconnected c s)"
  using assms by (auto simp: on_call_disconnected_def settled_def will_persist_def split: option.splits)

lemma drain_persists:
  assumes "drain_run cfg inputs s = (Drained, s')" and "settled call s" and "will_persist call cs phone s"
    and "cs_caller_number cs = Some phone"
  shows "session_write phone cs \<in> set (finished_writes cfg inputs s) \<union> set (pending_writes s')"
  using assms(1-3)
proof (induction cfg inputs s rule: drain_run.induct)
  case (1 cfg s)
  then show ?case by (auto simp: will_persist_def active_call_count_def split: if_splits)
next
  case (2 cfg i inputs s)
  show ?case
  proof (cases "main_loop s = MIdle \<and> active_call_count s = 0")
    case True
    with 2 show ?thesis by (auto simp: will_persist_def active_call_count_def)
  next
    case False
    show ?thesis
    proof (cases i)
      case (Step e)
      show ?thesis
      proof (cases "sip_driven e")
        case True
        with 2 False Step show ?thesis by auto
      next
        case own: False
        from step_persists[OF "2.prems"(2,3) assms(4) own, of cfg]
        consider "settled call (sys_step cfg e s)" "will_persist call cs phone (sys_step cfg e s)"
          | "session_write phone cs \<in> set (write_done e s)" by blast
        then show ?thesis
        proof cases
          case 1
          with 2 False Step own show ?thesis by auto
        next
          case 2
          with False Step own show ?thesis by auto
        qed
      qed
    next
      case (DrainEvent ev)
      show ?thesis
      proof (cases "\<exists>c state. ev = Some (CallStateChanged c state)")
        case True
        then obtain c state where ev: "ev = Some (CallStateChanged c state)" by blast
        have "settled call (sys_step cfg (EvCallState c state) s) \<and>
            will_persist call cs phone (sys_step cfg (EvCallState c state) s)"
          using hangup_persists[OF "2.prems"(2,3)] "2.prems"(2,3) by simp
        with 2 False DrainEvent ev show ?thesis by auto
      next
        case other: False
        with 2 False DrainEvent show ?thesis
          by (auto split: option.splits sip_event.splits if_splits)
      qed
    next
      case Deadline
      with 2 False show ?thesis by (auto split: if_splits)
    qed
  qed
qed

lemma store_write_callers [simp]: "tbl_callers (store_write w db) = tbl_callers db"
  by (simp add: store_write_def set_last_channel_id_def)

lemma store_write_last:
  assumes "map_of (tbl_callers db) phone \<noteq> None"
  shows "get_last_channel_id NoFault phone host (store_write w db) =
    (if pw_phone w = phone \<and> pw_host w = host then Inr (Some (pw_channel w))
     else get_last_channel_id NoFault phone host db)"
  using assms
  by (auto simp: store_write_def set_last_channel_id_def get_last_channel_id_def update_conv' ucast_u32_u64_u32)

lemma store_writes_last:
  assumes "map_of (tbl_callers db) phone \<noteq> None"
  shows "get_last_channel_id NoFault phone host (fold store_write ws db) =
    (if filter (\<lambda>w. pw_phone w = phone \<and> pw_host w = host) ws = [] then get_last_channel_id NoFault phone host db
     else Inr (Some (pw_channel (last (filter (\<lambda>w. pw_phone w = phone \<and> pw_host w = host) ws)))))"
  using assms
proof (induction ws rule: rev_induct)
  case (snoc w ws)
  have "tbl_callers (fold store_write ws db) = tbl_callers db" by (induction ws arbitrary: db) simp_all
  with snoc store_write_last[of "fold store_write ws db" phone host w] show ?case by simp
qed simp

text \<open>C33. A shutdown loses no channel: when the drain has ended with every call and the flush has ended in
  time, the store holds, for the caller and the server of every call that was established when the
  shutdown began, the channel of the write that finished last for the two, and the last channel of
  the call is among those writes, whether they finished during the drain or in the flush, and in
  whatever order.  The database accepts the writes and knows the caller.\<close>

theorem shutdown_persists_channels:
  assumes "drain_run cfg inputs s = (Drained, s')"
    and "hm_get (sessions s) call = Some cs" and "cs_caller_number cs = Some phone"
    and "\<forall>t \<in> set (setups s). st_call t = call \<longrightarrow> st_pc t = SDone"
    and "mset flushed = mset (filter (\<lambda>w. \<not> pw_finished w) (shutdown_writes cfg inputs s))"
    and "map_of (tbl_callers db) phone \<noteq> None"
    and "mine = filter (\<lambda>w. pw_phone w = phone \<and> pw_host w = cs_server_host cs)
      (finished_writes cfg inputs s @ flushed)"
  shows "\<lparr>pw_phone = phone, pw_host = cs_server_host cs, pw_channel = cs_current_channel_id cs,
      pw_finished = False\<rparr> \<in> set mine \<and>
    get_last_channel_id NoFault phone (cs_server_host cs)
      (fold store_write (finished_writes cfg inputs s @ flushed) db) = Inr (Some (pw_channel (last mine)))"
proof -
  have "settled call s" "will_persist call cs phone s"
    using assms(2,4) by (simp_all add: settled_def will_persist_def)
  from drain_persists[OF assms(1) this assms(3)]
  have "session_write phone cs \<in> set (finished_writes cfg inputs s) \<union> set flushed"
    using assms(1) mset_eq_setD[OF assms(5)]
    by (auto simp: shutdown_writes_def drain_pending_writes_def session_write_def)
  then have "session_write phone cs \<in> set mine" by (auto simp: assms(7) session_write_def)
  moreover from this have "mine \<noteq> []" by auto
  ultimately show ?thesis
    using store_writes_last[OF assms(6), of "cs_server_host cs" "finished_writes cfg inputs s @ flushed",
        folded assms(7)] by (simp only: session_write_def) simp
qed

definition one_call :: sys where
  "one_call = initial_sys\<lparr>sessions := [(7, \<lparr>cs_port = 0, cs_handles = [], cs_channel_watch = 5,
     cs_sounds = [], cs_current_channel_id = 5, cs_max_channel_id = 9, cs_caller_number = Some [50],
     cs_server_host = [109]\<rparr>)]\<rparr>"

definition one_call_ends :: "drain_input list" where
  "one_call_ends = DrainEvent (Some (CallStateChanged 7 6)) # replicate 2 (Step (EvMain 0)) @ Step (EvWriteDone 0) # replicate 4 (Step (EvMain 0))"

lemma shutdown_persists_channels_witness:
  "\<exists>mine. \<lparr>pw_phone = [50], pw_host = [109], pw_channel = 5, pw_finished = False\<rparr> \<in> set mine \<and>
     get_last_channel_id NoFault [50] [109]
       (fold store_write (finished_writes (bridge_for 2) one_call_ends one_call @
          filter (\<lambda>w. \<not> pw_finished w) (shutdown_writes (bridge_for 2) one_call_ends one_call))
        \<lparr>tbl_callers = [([50], \<lparr>row_nickname = [97], row_last_seen = 1\<rparr>)], tbl_channels = []\<rparr>) =
     Inr (Some (pw_channel (last mine)))"
proof -
  obtain s' where run: "drain_run (bridge_for 2) one_call_ends one_call = (Drained, s')"
  proof -
    have "fst (drain_run (bridge_for 2) one_call_ends one_call) = Drained" by code_simp
    then show thesis using that by (metis prod.collapse)
  qed
  obtain cs where cs: "hm_get (sessions one_call) 7 = Some cs" "cs_caller_number cs = Some [50]"
    "cs_server_host cs = [109]" "cs_current_channel_id cs = 5"
    by (simp add: one_call_def)
  have setups: "\<forall>t \<in> set (setups one_call). st_call t = 7 \<longrightarrow> st_pc t = SDone"
    by (simp add: one_call_def initial_sys_def)
  let ?db = "\<lparr>tbl_callers = [([50], \<lparr>row_nickname = [97], row_last_seen = 1\<rparr>)], tbl_channels = []\<rparr>"
  have db: "map_of (tbl_callers ?db) [50] \<noteq> None" by simp
  from shutdown_persists_channels[OF run cs(1,2) setups refl db refl] show ?thesis unfolding cs(3,4) by blast
qed

end
