(* ===== verification/CallerTasks.thy ===== *)
theory CallerTasks
  imports Callers Machines
begin

text \<open>
  \<^verbatim>\<open>get_or_create_caller\<close> of \<^verbatim>\<open>src/db.rs\<close> as the tasks of several calls run it at the same time:
  every SQL statement is one step on the shared database, and between two statements of a task the
  others may run.  Run on its own a task is the operation of \<open>Callers\<close>, and both assign nicknames as the
  store promises.
\<close>

subsection \<open>Steps\<close>

datatype goc_pc =
    GSelect
  | GUpdate caller_row
  | GNickname nat
  | GInsert rstr
  | GDone "db_error + caller_info"

record goc_task =
  gt_phone :: rstr
  gt_now :: u64
  gt_gen :: "nat \<Rightarrow> rstr option"
  gt_pc :: goc_pc

definition goc_start :: "rstr \<Rightarrow> u64 \<Rightarrow> (nat \<Rightarrow> rstr option) \<Rightarrow> goc_task" where
  "goc_start phone now gen = \<lparr>gt_phone = phone, gt_now = now, gt_gen = gen, gt_pc = GSelect\<rparr>"

text \<open>One statement; \<open>failed\<close> says whether the database refuses it.\<close>

definition goc_step :: "bool \<Rightarrow> goc_task \<Rightarrow> caller_db \<Rightarrow> goc_task \<times> caller_db" where
  "goc_step failed t db =
     (case gt_pc t of
        GDone r \<Rightarrow> (t, db)
      | pc \<Rightarrow>
          if failed then (t\<lparr>gt_pc := GDone (Inl QueryFailed)\<rparr>, db)
          else
            (case pc of
               GSelect \<Rightarrow>
                 (t\<lparr>gt_pc := (case map_of (tbl_callers db) (gt_phone t) of
                    Some row \<Rightarrow> GUpdate row
                  | None \<Rightarrow> GNickname 0)\<rparr>, db)
             | GUpdate row \<Rightarrow>
                 (t\<lparr>gt_pc := GDone (Inr \<lparr>ci_phone_number = gt_phone t, ci_nickname = row_nickname row,
                    ci_last_seen = row_last_seen row, ci_is_new = False\<rparr>)\<rparr>,
                  update_last_seen (gt_now t) (gt_phone t) db)
             | GNickname k \<Rightarrow>
                 (let candidate = generate_nickname (gt_gen t k)
                  in (t\<lparr>gt_pc := if nickname_taken db candidate then GNickname (Suc k)
                                 else GInsert candidate\<rparr>, db))
             | GInsert nick \<Rightarrow>
                 (t\<lparr>gt_pc := GDone (Inr \<lparr>ci_phone_number = gt_phone t, ci_nickname = nick,
                    ci_last_seen = gt_now t, ci_is_new = True\<rparr>)\<rparr>,
                  insert_caller (gt_phone t) nick (gt_now t) db)
             | GDone r \<Rightarrow> (t, db)))"

text \<open>The tasks of several calls under a schedule: which task runs next, and whether its statement
  fails.\<close>

definition tasks_step :: "nat \<times> bool \<Rightarrow> goc_task list \<times> caller_db \<Rightarrow> goc_task list \<times> caller_db" where
  "tasks_step choice state =
     (case (choice, state) of ((i, failed), (ts, db)) \<Rightarrow>
        if i < length ts
        then (case goc_step failed (ts ! i) db of (t, db') \<Rightarrow> (ts[i := t], db'))
        else (ts, db))"

definition tasks_run :: "(nat \<times> bool) list \<Rightarrow> goc_task list \<times> caller_db \<Rightarrow> goc_task list \<times> caller_db" where
  "tasks_run schedule state = fold tasks_step schedule state"

subsection \<open>A task on its own\<close>

definition alone :: "nat \<Rightarrow> goc_task \<times> caller_db \<Rightarrow> goc_task \<times> caller_db" where
  "alone n state = ((\<lambda>(t, db). goc_step False t db) ^^ n) state"

lemma alone_Suc: "alone (Suc n) (t, db) = alone n (goc_step False t db)"
  by (simp add: alone_def funpow_Suc_right del: funpow.simps)

lemma alone_0: "alone 0 state = state"
  by (simp add: alone_def)

lemmas alone_simps = alone_0 alone_Suc goc_step_def

lemma alone_append: "alone (m + n) state = alone n (alone m state)"
  by (simp add: alone_def funpow_add add.commute[of m n])

text \<open>The nickname loop of a task finds what \<open>pick_nickname\<close> finds.\<close>

lemma alone_picks:
  assumes "pick_nickname NoFault (nickname_taken db) gen k = Some (Inr nick)"
    and "\<not> nickname_taken db (generate_nickname (gen (k + d)))"
  shows "\<exists>n. alone n (\<lparr>gt_phone = p, gt_now = now, gt_gen = gen, gt_pc = GNickname k\<rparr>, db) =
    (\<lparr>gt_phone = p, gt_now = now, gt_gen = gen, gt_pc = GInsert nick\<rparr>, db)"
  using assms
proof (induction d arbitrary: k)
  case 0
  then have "generate_nickname (gen k) = nick" by (subst (asm) pick_nickname.simps) simp
  with 0 show ?case by (intro exI[of _ "Suc 0"]) (simp add: alone_simps)
next
  case (Suc d)
  show ?case
  proof (cases "nickname_taken db (generate_nickname (gen k))")
    case False
    with Suc.prems have "generate_nickname (gen k) = nick" by (subst (asm) pick_nickname.simps) simp
    with False show ?thesis by (intro exI[of _ "Suc 0"]) (simp add: alone_simps)
  next
    case True
    with Suc.prems have "pick_nickname NoFault (nickname_taken db) gen (Suc k) = Some (Inr nick)"
      by (subst (asm) pick_nickname.simps) simp
    with Suc.IH[of "Suc k"] Suc.prems(2) obtain n where "alone n (\<lparr>gt_phone = p, gt_now = now, gt_gen = gen, gt_pc = GNickname (Suc k)\<rparr>, db) =
        (\<lparr>gt_phone = p, gt_now = now, gt_gen = gen, gt_pc = GInsert nick\<rparr>, db)" by auto
    with True show ?thesis by (intro exI[of _ "Suc n"]) (simp add: alone_simps Let_def)
  qed
qed

text \<open>Run on its own, the statements of a lookup compute \<open>get_or_create_caller\<close>: whenever the
  operation has a result, the task reaches it after finitely many statements, with the same
  database.\<close>

lemma task_refines_lookup:
  assumes "get_or_create_caller NoFault now gen phone db = Some (r, db')"
  shows "\<exists>n. alone n (goc_start phone now gen, db) = ((goc_start phone now gen)\<lparr>gt_pc := GDone r\<rparr>, db')"
proof (cases "map_of (tbl_callers db) phone")
  case (Some row)
  with assms show ?thesis
    by (intro exI[of _ "Suc (Suc 0)"]) (simp add: get_or_create_caller_def alone_simps goc_start_def)
next
  case None
  with assms obtain nick where pick: "pick_nickname NoFault (nickname_taken db) gen 0 = Some (Inr nick)"
    and r: "r = Inr \<lparr>ci_phone_number = phone, ci_nickname = nick, ci_last_seen = now, ci_is_new = True\<rparr>"
    and db': "db' = insert_caller phone nick now db"
    using pick_nickname_Some by (fastforce simp: get_or_create_caller_def split: option.splits sum.splits)
  let ?t = "\<lambda>pc. \<lparr>gt_phone = phone, gt_now = now, gt_gen = gen, gt_pc = pc\<rparr>"
  from pick_nickname_Some[OF pick] obtain j where "\<not> nickname_taken db (generate_nickname (gen (0 + j)))"
    by auto
  from alone_picks[OF pick this, of phone now] obtain n where
    n: "alone n (?t (GNickname 0), db) = (?t (GInsert nick), db)" by blast
  have "alone 1 (goc_start phone now gen, db) = (?t (GNickname 0), db)"
    using None by (simp add: alone_simps goc_start_def)
  moreover have "alone 1 (?t (GInsert nick), db) = (?t (GDone r), db')"
    by (simp add: alone_simps r db')
  ultimately have "alone (1 + n + 1) (goc_start phone now gen, db) = (?t (GDone r), db')"
    by (simp only: alone_append n)
  then show ?thesis by (intro exI) (simp add: goc_start_def)
qed


subsection \<open>Who gets which nickname\<close>

text \<open>The store as the callers see it: for every number a nickname (\<open>nick_of\<close>) and the time of the
  last call.\<close>

definition seen_of :: "caller_db \<Rightarrow> rstr \<rightharpoonup> u64" where
  "seen_of db = (\<lambda>p. map_option row_last_seen (map_of (tbl_callers db) p))"

lemma nick_of_update_last_seen: "nick_of (update_last_seen now phone db) = nick_of db"
  by (auto simp: update_last_seen_def nick_of_def update_conv' split: option.splits)

lemma nick_of_insert_caller:
  "nick_of (insert_caller phone nick now db) =
     (if nick_of db phone = None then (nick_of db)(phone \<mapsto> nick) else nick_of db)"
  by (auto simp: insert_caller_def nick_of_def update_conv' fun_eq_iff split: option.splits)

lemma nick_of_row: "map_of (tbl_callers db) p = Some row \<Longrightarrow> nick_of db p = Some (row_nickname row)"
  by (simp add: nick_of_def)

lemma nick_of_no_row: "map_of (tbl_callers db) p = None \<Longrightarrow> nick_of db p = None"
  by (simp add: nick_of_def)

lemma seen_of_update_last_seen:
  "nick_of db phone \<noteq> None \<Longrightarrow> seen_of (update_last_seen now phone db) = (seen_of db)(phone \<mapsto> now)"
  by (auto simp: update_last_seen_def seen_of_def nick_of_def update_conv' fun_eq_iff)

lemma seen_of_insert_caller: "seen_of (insert_caller phone nick now db) = (seen_of db)(phone \<mapsto> now)"
  by (auto simp: insert_caller_def seen_of_def update_conv' fun_eq_iff split: option.splits)

lemma nickname_taken_ran:
  assumes "db_inv db"
  shows "nickname_taken db n \<longleftrightarrow> n \<in> ran (nick_of db)"
proof -
  have "n \<in> ran (nick_of db) \<longleftrightarrow> (\<exists>p row. map_of (tbl_callers db) p = Some row \<and> row_nickname row = n)"
    by (auto simp: ran_def nick_of_def)
  also have "\<dots> \<longleftrightarrow> (\<exists>p row. (p, row) \<in> set (tbl_callers db) \<and> row_nickname row = n)"
    using assms by (simp add: db_inv_def)
  finally show ?thesis by (auto simp: nickname_taken_def list_ex_iff)
qed

lemma pick_nickname_first:
  assumes "\<not> taken (generate_nickname (gen (k + d)))" and "\<forall>j < d. taken (generate_nickname (gen (k + j)))"
  shows "pick_nickname NoFault taken gen k = Some (Inr (generate_nickname (gen (k + d))))"
  using assms
proof (induction d arbitrary: k)
  case 0
  then show ?case by (subst pick_nickname.simps) simp
next
  case (Suc d)
  from Suc.prems have "taken (generate_nickname (gen k))" by (metis add_0_right zero_less_Suc)
  moreover from Suc.prems have "\<forall>j < d. taken (generate_nickname (gen (Suc k + j)))"
    by (metis Suc_mono add_Suc_shift)
  ultimately show ?case using Suc.IH[of "Suc k"] Suc.prems(1) by (subst pick_nickname.simps) simp
qed

text \<open>C39. Looking a caller up assigns nicknames the way the store promises.  A known caller keeps the
  nickname and is told when the previous call was; an unknown caller gets the first generated name
  that no stored caller has, and that name is stored.  The time of the call is recorded, and nothing
  else changes for anybody.  This holds of the operation and of its statements executed one by one,
  and both come to an end, as soon as the caller is known or some generated name is free.\<close>

theorem lookup_assigns_nickname:
  assumes "db_inv db"
    and "nick_of db phone \<noteq> None \<or> (\<exists>k. generate_nickname (gen k) \<notin> ran (nick_of db))"
  shows "\<exists>n info db'.
    alone n (goc_start phone now gen, db) = ((goc_start phone now gen)\<lparr>gt_pc := GDone (Inr info)\<rparr>, db') \<and>
    get_or_create_caller NoFault now gen phone db = Some (Inr info, db') \<and>
    ci_phone_number info = phone \<and>
    ci_is_new info = (nick_of db phone = None) \<and>
    Some (ci_last_seen info) = (if nick_of db phone = None then Some now else seen_of db phone) \<and>
    (case nick_of db phone of
       Some nick \<Rightarrow> ci_nickname info = nick
     | None \<Rightarrow> \<exists>k. ci_nickname info = generate_nickname (gen k) \<and> ci_nickname info \<notin> ran (nick_of db) \<and>
         (\<forall>j < k. generate_nickname (gen j) \<in> ran (nick_of db))) \<and>
    nick_of db' = (nick_of db)(phone \<mapsto> ci_nickname info) \<and>
    seen_of db' = (seen_of db)(phone \<mapsto> now) \<and> last_of db' = last_of db \<and> db_inv db'"
proof (cases "map_of (tbl_callers db) phone")
  case (Some row)
  let ?i = "\<lparr>ci_phone_number = phone, ci_nickname = row_nickname row, ci_last_seen = row_last_seen row,
    ci_is_new = False\<rparr>"
  let ?db' = "update_last_seen now phone db"
  have goc: "get_or_create_caller NoFault now gen phone db = Some (Inr ?i, ?db')"
    using Some by (simp add: get_or_create_caller_def)
  have known: "nick_of db phone = Some (row_nickname row)" "seen_of db phone = Some (row_last_seen row)"
    using Some by (simp_all add: nick_of_def seen_of_def)
  from task_refines_lookup[OF goc] obtain n where
    n: "alone n (goc_start phone now gen, db) = ((goc_start phone now gen)\<lparr>gt_pc := GDone (Inr ?i)\<rparr>, ?db')" by blast
  have seen: "seen_of ?db' = (seen_of db)(phone \<mapsto> now)"
    by (rule seen_of_update_last_seen) (simp add: known)
  have last: "last_of ?db' = last_of db"
    using goc_channels[OF goc] by (simp add: last_of_def)
  have nick: "nick_of ?db' = (nick_of db)(phone \<mapsto> row_nickname row)"
    using goc_nick[OF goc] by simp
  have inv: "db_inv ?db'"
    by (rule goc_inv[OF assms(1) goc])
  show ?thesis
    by (intro exI conjI, rule n, rule goc) (simp_all add: seen last nick inv known)
next
  case None
  then have unknown: "nick_of db phone = None" by (rule nick_of_no_row)
  with assms(2) have "\<exists>k. generate_nickname (gen k) \<notin> ran (nick_of db)" by blast
  then obtain k where k: "generate_nickname (gen k) \<notin> ran (nick_of db)"
      "\<forall>j < k. generate_nickname (gen j) \<in> ran (nick_of db)"
    unfolding exists_least_iff[of "\<lambda>k. generate_nickname (gen k) \<notin> ran (nick_of db)"] by blast
  let ?nick = "generate_nickname (gen k)"
  let ?i = "\<lparr>ci_phone_number = phone, ci_nickname = ?nick, ci_last_seen = now, ci_is_new = True\<rparr>"
  have "pick_nickname NoFault (nickname_taken db) gen 0 = Some (Inr ?nick)"
    using pick_nickname_first[of "nickname_taken db" gen 0 k] k by (simp add: nickname_taken_ran[OF assms(1)])
  then have goc: "get_or_create_caller NoFault now gen phone db =
      Some (Inr ?i, insert_caller phone ?nick now db)"
    using None by (simp add: get_or_create_caller_def)
  have seen: "seen_of (insert_caller phone ?nick now db) = (seen_of db)(phone \<mapsto> now)"
    by (rule seen_of_insert_caller)
  from task_refines_lookup[OF goc] obtain n where
    n: "alone n (goc_start phone now gen, db) =
      ((goc_start phone now gen)\<lparr>gt_pc := GDone (Inr ?i)\<rparr>, insert_caller phone ?nick now db)" by blast
  have last: "last_of (insert_caller phone ?nick now db) = last_of db"
    using goc_channels[OF goc] by (simp add: last_of_def)
  have nick: "nick_of (insert_caller phone ?nick now db) = (nick_of db)(phone \<mapsto> ?nick)"
    using goc_nick[OF goc] by simp
  have inv: "db_inv (insert_caller phone ?nick now db)"
    by (rule goc_inv[OF assms(1) goc])
  show ?thesis
    by (intro exI conjI, rule n, rule goc) (use k in \<open>auto simp: seen last nick inv unknown\<close>)
qed

text \<open>The first name the generator yields belongs to another caller.\<close>

definition one_caller :: caller_db where
  "one_caller = \<lparr>tbl_callers = [([49], \<lparr>row_nickname = [97], row_last_seen = 3\<rparr>)], tbl_channels = []\<rparr>"

lemma lookup_assigns_nickname_witness:
  "\<exists>n info db'. alone n (goc_start [50] 7 (\<lambda>k. Some [97 + of_nat k]), one_caller) =
      ((goc_start [50] 7 (\<lambda>k. Some [97 + of_nat k]))\<lparr>gt_pc := GDone (Inr info)\<rparr>, db') \<and>
    ci_nickname info = [98] \<and> nick_of db' [49] = Some [97] \<and> nick_of db' [50] = Some [98]"
proof -
  let ?gen = "\<lambda>k. Some [97 + of_nat k] :: rstr option"
  have name: "generate_nickname (Some [97]) = [97]" "generate_nickname (Some [98]) = [98]"
    by (simp_all add: generate_nickname_def replace_char_def lit_def)
  have nick: "nick_of one_caller = [[49] \<mapsto> [97]]"
    by (auto simp: nick_of_def one_caller_def fun_eq_iff)
  have "db_inv one_caller" by (simp add: db_inv_def one_caller_def)
  moreover have "nick_of one_caller [50] \<noteq> None \<or> (\<exists>k. generate_nickname (?gen k) \<notin> ran (nick_of one_caller))"
    by (rule disjI2, rule exI[of _ 1]) (simp add: nick name)
  ultimately obtain n info db' k where
    run: "alone n (goc_start [50] 7 ?gen, one_caller) = ((goc_start [50] 7 ?gen)\<lparr>gt_pc := GDone (Inr info)\<rparr>, db')"
    and k: "ci_nickname info = generate_nickname (?gen k)" "ci_nickname info \<noteq> [97]"
      "\<forall>j < k. generate_nickname (?gen j) = [97]"
    and db': "nick_of db' = (nick_of one_caller)([50] \<mapsto> ci_nickname info)"
    using lookup_assigns_nickname[of one_caller "[50]" ?gen 7] by (auto simp: nick)
  have "k = 1"
  proof (rule ccontr)
    assume "k \<noteq> 1"
    then consider "k = 0" | "1 < k" by linarith
    then show False
    proof cases
      case 1
      with k name show ?thesis by simp
    next
      case 2
      with k(3) name show ?thesis by fastforce
    qed
  qed
  with run k db' name show ?thesis by (intro exI) (auto simp: nick)
qed

subsection \<open>Tasks of different callers\<close>

text \<open>What a task may rely on between two of its statements, as long as no other task is for the same
  caller.\<close>

definition task_ok :: "caller_db \<Rightarrow> goc_task \<Rightarrow> bool" where
  "task_ok db t =
     (case gt_pc t of
        GSelect \<Rightarrow> True
      | GUpdate row \<Rightarrow> nick_of db (gt_phone t) = Some (row_nickname row)
      | GNickname k \<Rightarrow> nick_of db (gt_phone t) = None
      | GInsert nick \<Rightarrow> nick_of db (gt_phone t) = None
      | GDone (Inl e) \<Rightarrow> True
      | GDone (Inr info) \<Rightarrow> nick_of db (gt_phone t) = Some (ci_nickname info))"

definition tasks_ok :: "goc_task list \<times> caller_db \<Rightarrow> bool" where
  "tasks_ok state \<longleftrightarrow> distinct (map gt_phone (fst state)) \<and> list_all (task_ok (snd state)) (fst state)"

lemma goc_step_ok:
  assumes "goc_step failed t db = (t', db')" and "task_ok db t"
  shows "task_ok db' t' \<and> gt_phone t' = gt_phone t \<and>
    (\<forall>p. p \<noteq> gt_phone t \<longrightarrow> nick_of db' p = nick_of db p) \<and> nick_of db \<subseteq>\<^sub>m nick_of db'"
  using assms
  by (cases "gt_pc t")
    (auto simp: goc_step_def task_ok_def nick_of_update_last_seen nick_of_insert_caller Let_def
      map_le_def nick_of_row nick_of_no_row split: if_splits option.splits sum.splits)

lemma task_ok_cong: "nick_of db' (gt_phone t) = nick_of db (gt_phone t) \<Longrightarrow> task_ok db' t = task_ok db t"
  by (simp add: task_ok_def split: goc_pc.split sum.split)

lemma tasks_step_ok:
  assumes "tasks_ok state"
  shows "tasks_ok (tasks_step choice state) \<and>
    map gt_phone (fst (tasks_step choice state)) = map gt_phone (fst state)"
proof -
  obtain i failed ts db where state: "choice = (i, failed)" "state = (ts, db)" by (metis prod.collapse)
  show ?thesis
  proof (cases "i < length ts")
    case True
    obtain t db' where step: "goc_step failed (ts ! i) db = (t, db')" by fastforce
    have ok: "task_ok db (ts ! i)" using assms True by (simp add: tasks_ok_def state list_all_length)
    note st = goc_step_ok[OF step ok]
    have phones: "map gt_phone (ts[i := t]) = map gt_phone ts"
      using st True by (simp add: map_update list_update_same_conv)
    have "task_ok db' (ts[i := t] ! j)" if "j < length ts" for j
    proof (cases "j = i")
      case False
      have "gt_phone (ts ! j) \<noteq> gt_phone (ts ! i)"
        using assms True that False by (auto simp: tasks_ok_def state distinct_conv_nth)
      with st have "task_ok db' (ts ! j) = task_ok db (ts ! j)" by (intro task_ok_cong) simp
      with False assms that show ?thesis by (simp add: tasks_ok_def state list_all_length)
    qed (use st True in simp)
    with phones assms show ?thesis
      by (simp add: tasks_ok_def state tasks_step_def True step list_all_length)
  qed (use assms in \<open>simp add: state tasks_step_def\<close>)
qed

interpretation lookups: invariant_machine tasks_step tasks_ok
  by unfold_locales (simp add: tasks_step_ok)

lemma tasks_run_ok: "tasks_ok state \<Longrightarrow> tasks_ok (tasks_run schedule state)"
  unfolding tasks_run_def by (rule lookups.run_keeps)

text \<open>C38. Lookups of different callers do not disturb each other: in every interleaving of their SQL
  statements, with any of them failing, the nickname a finished lookup reports is the one stored for
  its caller.\<close>

theorem concurrent_lookups_report_stored:
  assumes "distinct (map gt_phone ts)" and "\<forall>t \<in> set ts. gt_pc t = GSelect"
    and "tasks_run schedule (ts, db) = (ts', db')" and "t \<in> set ts'" and "gt_pc t = GDone (Inr info)"
  shows "nick_of db' (gt_phone t) = Some (ci_nickname info)"
proof -
  have "tasks_ok (ts, db)" using assms(1,2) by (auto simp: tasks_ok_def task_ok_def list_all_iff)
  from tasks_run_ok[OF this, of schedule] assms(3,4) have "task_ok db' t"
    by (auto simp: tasks_ok_def list_all_iff)
  with assms(5) show ?thesis by (simp add: task_ok_def)
qed

subsection \<open>Tasks of the same caller, and of callers with the same candidate\<close>

lemmas race_eval = tasks_run_def tasks_step_def goc_step_def goc_start_def empty_db_def Let_def
  nickname_taken_def generate_nickname_def insert_caller_def replace_char_def lit_def

text \<open>Two calls with the same number: both select before either inserts.  The second one reports a
  nickname that is not the stored one, and is used for the call all the same.\<close>

definition twice :: "goc_task list" where
  "twice = [goc_start [50] 0 (\<lambda>_. Some [97]), goc_start [50] 1 (\<lambda>_. Some [98])]"

lemma unstored_nickname_reported:
  "\<exists>ts db info. tasks_run [(0, False), (1, False), (0, False), (1, False), (0, False), (1, False)] (twice, empty_db)
     = (ts, db) \<and> gt_pc (ts ! 1) = GDone (Inr info) \<and> ci_is_new info \<and>
     ci_nickname info = [98] \<and> nick_of db (gt_phone (ts ! 1)) = Some [97]"
  by (simp add: race_eval twice_def nick_of_def)

text \<open>Two callers for whom the generator yields the same name: both find it free, and both get it.\<close>

definition namesakes :: "goc_task list" where
  "namesakes = [goc_start [50] 0 (\<lambda>_. Some [97]), goc_start [51] 1 (\<lambda>_. Some [97])]"

lemma shared_nickname_stored:
  "\<exists>ts db. tasks_run [(0, False), (1, False), (0, False), (1, False), (0, False), (1, False)] (namesakes, empty_db)
     = (ts, db) \<and> nick_of db [50] = Some [97] \<and> nick_of db [51] = Some [97]"
  by (simp add: race_eval namesakes_def nick_of_def)

lemma concurrent_lookups_report_stored_witness:
  "\<exists>ts db. tasks_run [(0, False), (1, False), (0, False), (1, False), (0, False), (1, False)] (namesakes, empty_db)
     = (ts, db) \<and> (\<forall>t \<in> set ts. nick_of db (gt_phone t) = Some [97])"
proof -
  let ?s = "[(0, False), (1, False), (0, False), (1, False), (0, False), (1, False)]"
  obtain ts db where run: "tasks_run ?s (namesakes, empty_db) = (ts, db)" by fastforce
  moreover from run have "\<forall>t \<in> set ts. \<exists>info. gt_pc t = GDone (Inr info) \<and> ci_nickname info = [97]"
    by (auto simp: race_eval namesakes_def)
  moreover have "distinct (map gt_phone namesakes)" "\<forall>t \<in> set namesakes. gt_pc t = GSelect"
    by (simp_all add: namesakes_def goc_start_def)
  ultimately show ?thesis using concurrent_lookups_report_stored[OF _ _ run] by fastforce
qed

end
