(* ===== verification/AudioPath.thy ===== *)
theory AudioPath
  imports AudioBridge SessionEvents
begin

text \<open>
  The two audio paths of a call, composed from the tasks that the other theories model one by one:
  from the ring that pjsip fills through the encoder (\<^verbatim>\<open>src/audio/bridge.rs\<close>), the voice forwarder
  (\<^verbatim>\<open>src/session.rs\<close>) and the send task (\<^verbatim>\<open>src/mumble/control.rs\<close>) to the wire, and from the voice
  packets of a speaker through the mixer.
\<close>

subsection \<open>From the phone to the server\<close>

definition voice_of :: "serverbound \<Rightarrow> (u64 \<times> u8 list \<times> bool) option" where
  "voice_of p = (case p of SVoice n d e \<Rightarrow> Some (n, d, e) | _ \<Rightarrow> None)"

abbreviation voices :: "serverbound list \<Rightarrow> (u64 \<times> u8 list \<times> bool) list" where
  "voices ps \<equiv> List.map_filter voice_of ps"

lemma voices_append: "voices (p @ q) = voices p @ voices q"
  by (induction p) (auto simp: map_filter_simps split: option.split)

lemma voice_of_simps [simp]: "voice_of (SVoice n d e) = Some (n, d, e)" "voice_of SPing = None"
  by (simp_all add: voice_of_def)

text \<open>The forwarder queues the packets it is given in order, up to the first the connection refuses.\<close>

lemma voice_forward_voices:
  "\<exists>k. voices (voice_forward packets queue) = voices queue @ take k (map fst packets)"
proof (induction packets queue rule: voice_forward.induct)
  case (2 seq_num opus_data end_of_transmission queue_open rest queue)
  show ?case
  proof (cases queue_open)
    case True
    with 2[of "queue @ [SVoice seq_num opus_data end_of_transmission]"] obtain k where
      "voices (voice_forward rest (queue @ [SVoice seq_num opus_data end_of_transmission])) =
        voices (queue @ [SVoice seq_num opus_data end_of_transmission]) @ take k (map fst rest)"
      by (auto simp: send_voice_def send_control_def)
    with True show ?thesis
      by (intro exI[of _ "Suc k"])
        (simp add: send_voice_def send_control_def voices_append map_filter_simps)
  qed (auto simp: send_voice_def send_control_def intro: exI[of _ 0])
qed (auto intro: exI[of _ 0])

text \<open>What the send task puts on the wire of the packets it takes from the queue.\<close>

definition taken :: "send_select list \<Rightarrow> serverbound list" where
  "taken selects = List.map_filter (\<lambda>s. case s of Outgoing p \<Rightarrow> p | PingTick \<Rightarrow> None) selects"

lemma send_loop_voices:
  "\<exists>k. voices (send_loop send_ok selects) = take k (voices (taken selects))"
proof (induction send_ok selects rule: send_loop.induct)
  case (2 send_ok rest)
  then show ?case
    by (auto simp: taken_def map_filter_simps voice_of_def intro: exI[of _ 0])
next
  case (4 send_ok p rest)
  show ?case
  proof (cases "send_ok p")
    case True
    with 4 obtain k where "voices (send_loop send_ok rest) = take k (voices (taken rest))" by blast
    with True show ?thesis
      by (cases "voice_of p")
        (auto simp: taken_def map_filter_simps intro: exI[of _ k] exI[of _ "Suc k"])
  qed (auto simp: map_filter_simps intro: exI[of _ 0])
qed (auto simp: taken_def map_filter_simps intro: exI[of _ 0])

text \<open>C36. The voice path keeps the order of speech from end to end: the voice packets on the wire are the
  first packets of those the encoder queued, none twice and none out of order, and their sequence
  numbers are strictly increasing, whatever else is sent between them and wherever a stage
  stops.  \<open>selects\<close> takes from the queue what the forwarder put there, with other messages.\<close>

theorem voice_path_in_order:
  assumes "encoder_start new_encoder set_bitrate sample_rate bitrate = Some st"
    and "encoder_run R encode sample_rate inputs ring st = (packets, ring', st')"
    and "length inputs < 2 ^ 64"
    and "map fst forwarded = take received packets"
    and "voices (taken selects) = take pulled (voices (voice_forward forwarded []))"
  shows "(\<exists>k. voices (send_loop send_ok selects) = take k packets) \<and>
    sorted_wrt (\<lambda>p q. unat (fst p) < unat (fst q)) (voices (send_loop send_ok selects))"
proof -
  obtain j where j: "voices (send_loop send_ok selects) = take j (voices (taken selects))"
    using send_loop_voices by blast
  obtain i where "voices (voice_forward forwarded []) = take i (map fst forwarded)"
    using voice_forward_voices[of forwarded "[]"] by (auto simp: map_filter_simps)
  with j assms(4,5) have "voices (send_loop send_ok selects) = take j (take pulled (take i (take received packets)))"
    by simp
  then obtain n where k: "voices (send_loop send_ok selects) = take n packets" by (metis take_take)
  have "unat (en_seq_num st) = 0" "unat (en_dropped_frames st) = 0"
    using assms(1) by (auto simp: encoder_start_def split: sum.splits)
  with encoder_run_numbers[OF assms(2)] assms(3) have "sorted_wrt (<) (map (unat \<circ> fst) packets)" by simp
  then have "sorted_wrt (\<lambda>p q. unat (fst p) < unat (fst q)) packets"
    unfolding sorted_wrt_map comp_def .
  with sorted_wrt_take[OF this, of n] k show ?thesis by auto
qed


subsection \<open>What the phone says is what is encoded\<close>

text \<open>The reference: the whole frames of the phone's samples as they become available, one per tick, each
  with the queue's answer of that tick; the gate decides on each by the loudness of the frames so
  far; what it lets through is encoded in order and numbered from \<open>seq\<close>.  A frame that cannot be
  encoded has no number, one that a full queue refuses has, and a closed queue ends the sequence.\<close>

fun frames_read :: "nat \<Rightarrow> i16 list \<Rightarrow> (i16 list \<times> send_result) list \<Rightarrow> (i16 list \<times> send_result) list" where
  "frames_read n q [] = []"
| "frames_read n q ((pcm, sent) # inputs) =
     (if length (q @ pcm) < n then frames_read n (q @ pcm) inputs
      else (take n (q @ pcm), sent) # frames_read n (drop n (q @ pcm)) inputs)"

fun encode_frames ::
  "('e \<Rightarrow> i16 list \<Rightarrow> (unit + u8 list) \<times> 'e) \<Rightarrow> nat \<Rightarrow> bool list \<Rightarrow> 'e \<Rightarrow> u64 \<Rightarrow>
     (i16 list \<times> send_result) list \<Rightarrow> (u64 \<times> u8 list \<times> bool) list" where
  "encode_frames encode n heard_so_far e seq [] = []"
| "encode_frames encode n heard_so_far e seq ((frame, sent) # frames) =
     (let now = heard_so_far @ [above_threshold frame]; final = (gate_reference now = Terminator)
      in if gate_reference now = Silent then encode_frames encode n now e seq frames
         else case encode e (if final then replicate n 0 else frame) of
           (Inl _, e') \<Rightarrow> encode_frames encode n now e' seq frames
         | (Inr d, e') \<Rightarrow>
             (case sent of
                Sent \<Rightarrow> (seq, d, final) # encode_frames encode n now e' (seq + 1) frames
              | Full \<Rightarrow> encode_frames encode n now e' (seq + 1) frames
              | Closed \<Rightarrow> []))"

lemma frames_read_prefix:
  "\<exists>rest. concat (map fst (frames_read n q inputs)) @ rest = q @ concat (map fst inputs)"
proof (induction n q inputs rule: frames_read.induct)
  case (2 n q pcm sent inputs)
  show ?case
  proof (cases "length (q @ pcm) < n")
    case False
    with 2(2) obtain rest where
      "concat (map fst (frames_read n (drop n (q @ pcm)) inputs)) @ rest = drop n (q @ pcm) @ concat (map fst inputs)"
      by blast
    then have "take n (q @ pcm) @ concat (map fst (frames_read n (drop n (q @ pcm)) inputs)) @ rest =
        (q @ pcm) @ concat (map fst inputs)"
      by (metis append_assoc append_take_drop_id)
    with False have "concat (map fst (frames_read n q ((pcm, sent) # inputs))) @ rest =
        q @ concat (map fst ((pcm, sent) # inputs))" by simp
    then show ?thesis ..
  qed (use 2(1) in simp)
qed simp

text \<open>The samples that are queued never exceed the capacity of the ring.\<close>

fun fits :: "nat \<Rightarrow> nat \<Rightarrow> i16 list \<Rightarrow> (i16 list \<times> send_result) list \<Rightarrow> bool" where
  "fits c n q [] = True"
| "fits c n q ((pcm, sent) # inputs) =
     (length (q @ pcm) \<le> c \<and>
      fits c n (if length (q @ pcm) < n then q @ pcm else drop n (q @ pcm)) inputs)"

definition gate_matches :: "bool list \<Rightarrow> 'e encoder_state \<Rightarrow> bool" where
  "gate_matches bs st \<longleftrightarrow> (en_was_transmitting st, en_hold_frames st) = gate_state bs"

lemma encoder_tick_frame:
  assumes "ring_laws R contents cap" and "n = frame_samples sample_rate" and "n \<le> length (contents ring)"
    and "gate_matches bs st" and "now = bs @ [above_threshold (take n (contents ring))]"
  shows "\<exists>packet running ring' st'.
    encoder_tick R encode sample_rate sent ring st = (packet, running, ring', st') \<and>
    contents ring' = drop n (contents ring) \<and> cap ring' = cap ring \<and> gate_matches now st' \<and>
    (\<forall>frames. encode_frames encode n bs (en_encoder st) (en_seq_num st) ((take n (contents ring), sent) # frames) =
      (case packet of None \<Rightarrow> [] | Some p \<Rightarrow> [p]) @
      (if running then encode_frames encode n now (en_encoder st') (en_seq_num st') frames else []))"
proof -
  obtain got ring' where pop: "rb_pop_slice R ring n = (got, ring')" by fastforce
  from ring_pop[OF assms(1) pop] have got: "got = take n (contents ring)"
    and ring': "contents ring' = drop n (contents ring)" "cap ring' = cap ring" by auto
  have pad: "got @ replicate (n - length got) 0 = take n (contents ring)" using assms(3) by (simp add: got)
  have full: "\<not> rb_occupied_len R ring < n" using ring_occupied[OF assms(1)] assms(3) by simp
  have gate: "transmit_gate (above_threshold (take n (contents ring))) (en_was_transmitting st) (en_hold_frames st)
      = (gate_reference now, gate_state now)"
    using transmit_gate_state[of "above_threshold (take n (contents ring))" bs] assms(4,5)
    by (metis gate_matches_def fst_conv snd_conv)
  obtain was hold where now: "gate_state now = (was, hold)" by fastforce
  obtain r e where enc: "encode (en_encoder st) (take n (contents ring)) = (r, e)" by fastforce
  obtain r0 e0 where enc0: "encode (en_encoder st) (replicate n 0) = (r0, e0)" by fastforce
  note facts = full pad gate now enc enc0 ring' assms(5)
  note defs = encoder_tick_def assms(2)[symmetric] pop gate_matches_def Let_def ex_bool_eq
  show ?thesis
  proof (cases "gate_reference now")
    case Silent
    with facts show ?thesis by (simp add: defs)
  next
    case Transmitting
    with facts show ?thesis by (cases r; cases sent) (simp_all add: defs)
  next
    case Terminator
    with facts show ?thesis by (cases r0; cases sent) (simp_all add: defs)
  qed
qed

lemma encoder_run_reference:
  assumes "ring_laws R contents cap" and "n = frame_samples sample_rate"
  shows "gate_matches bs st \<Longrightarrow> contents ring = q \<Longrightarrow> fits (cap ring) n q inputs \<Longrightarrow>
    fst (encoder_run R encode sample_rate inputs ring st) =
    encode_frames encode n bs (en_encoder st) (en_seq_num st) (frames_read n q inputs)"
proof (induction inputs arbitrary: ring st bs q)
  case (Cons input inputs)
  obtain pcm sent where input: "input = (pcm, sent)" by fastforce
  obtain k ring1 where push: "rb_push_slice R ring pcm = (k, ring1)" by fastforce
  from ring_push[OF assms(1) push] Cons.prems(2,3) have ring1: "contents ring1 = q @ pcm" "cap ring1 = cap ring"
    by (auto simp: input)
  show ?case
  proof (cases "length (q @ pcm) < n")
    case True
    then have "encoder_tick R encode sample_rate sent ring1 st = (None, True, ring1, st)"
      using ring_occupied[OF assms(1)] by (simp add: encoder_tick_def ring1 assms(2))
    with Cons.IH[OF Cons.prems(1) ring1(1)] Cons.prems(3) True push show ?thesis
      by (simp add: input ring1(2) Let_def case_prod_beta)
  next
    case False
    then have "n \<le> length (contents ring1)" by (simp add: ring1)
    from encoder_tick_frame[OF assms(1,2) this Cons.prems(1) refl]
    obtain packet running ring2 st2 where
      tick: "encoder_tick R encode sample_rate sent ring1 st = (packet, running, ring2, st2)"
      and ring2: "contents ring2 = drop n (q @ pcm)" "cap ring2 = cap ring"
      and gate: "gate_matches (bs @ [above_threshold (take n (q @ pcm))]) st2"
      and out: "\<And>frames. encode_frames encode n bs (en_encoder st) (en_seq_num st) ((take n (q @ pcm), sent) # frames) =
        (case packet of None \<Rightarrow> [] | Some p \<Rightarrow> [p]) @
        (if running then encode_frames encode n (bs @ [above_threshold (take n (q @ pcm))]) (en_encoder st2)
           (en_seq_num st2) frames else [])"
      unfolding ring1 by blast
    have "fits (cap ring2) n (drop n (q @ pcm)) inputs" using Cons.prems(3) False ring2(2) by (simp add: input)
    from Cons.IH[OF gate ring2(1) this] out[of "frames_read n (drop n (q @ pcm)) inputs"] False push tick show ?thesis
      by (simp add: input Let_def case_prod_beta)
  qed
qed simp

text \<open>The encoder task is equivalent to its reference: however the phone's samples arrive and
  whatever the encoder and the queue answer, as long as the ring does not overflow, what is sent is the
  sequence of whole frames of exactly those samples, passed through the gate's reference, encoded in
  order and numbered from zero; only frames the queue refused are missing, up to the end of the queue.\<close>

theorem phone_speech_encoded:
  assumes "ring_laws R contents cap" and "n = frame_samples sample_rate"
    and "encoder_start new_encoder set_bitrate sample_rate bitrate = Some st"
    and "fits c n [] inputs"
  shows "fst (encoder_run R encode sample_rate inputs (rb_new R c) st) =
      encode_frames encode n [] (en_encoder st) 0 (frames_read n [] inputs) \<and>
    (\<exists>rest. concat (map fst (frames_read n [] inputs)) @ rest = concat (map fst inputs))"
proof -
  have "gate_matches [] st" "en_seq_num st = 0"
    using assms(3) by (auto simp: encoder_start_def gate_matches_def gate_state_def split: sum.splits)
  with encoder_run_reference[OF assms(1,2), of "[]" st "rb_new R c" "[]" inputs] assms(4) ring_new[OF assms(1), of c]
    frames_read_prefix[of n "[]" inputs]
  show ?thesis by simp
qed

definition voice_session :: "u8 encoder_state" where
  "voice_session = \<lparr>en_encoder = 0, en_seq_num = 0, en_dropped_frames = 0, en_was_transmitting = False,
     en_hold_frames = 0\<rparr>"

lemma voice_session_start: "encoder_start (\<lambda>_. Inr 0) (\<lambda>e _. e) sample_rate 0 = Some voice_session"
  by (simp add: encoder_start_def voice_session_def)

lemma phone_speech_encoded_witness:
  "fst (encoder_run list_ring echo_encoder 200 [([1000], Sent), ([1000, 2000, 3000], Full), ([], Sent)] (9, []) voice_session)
    = encode_frames echo_encoder 2 [] 0 0 [([1000, 1000], Full), ([2000, 3000], Sent)]"
proof -
  let ?inputs = "[([1000], Sent), ([1000, 2000, 3000], Full), ([], Sent)]"
  have n: "2 = frame_samples 200" by (simp add: frame_samples_def FRAME_DURATION_MS_def)
  have "frames_read 2 [] ?inputs = [([1000, 1000], Full), ([2000, 3000], Sent)]" "rb_new list_ring 9 = (9, [])"
    "fits 9 2 [] ?inputs" "en_encoder voice_session = 0"
    by (simp_all add: list_ring_def voice_session_def)
  with phone_speech_encoded[OF list_ring_laws n voice_session_start, of 9 ?inputs echo_encoder]
  show ?thesis by (simp only:)
qed

subsection \<open>From a speaker to the mix\<close>

text \<open>What decoding a list of packets in order gives; a bad packet gives nothing.\<close>

fun decode_stream :: "('d \<Rightarrow> u8 list \<Rightarrow> (unit + i16 list) \<times> 'd) \<Rightarrow> 'd \<Rightarrow> u8 list list \<Rightarrow> i16 list" where
  "decode_stream decode d [] = []"
| "decode_stream decode d (b # bs) =
     (case decode d b of
        (Inr pcm, d') \<Rightarrow> pcm @ decode_stream decode d' bs
      | (Inl _, d') \<Rightarrow> decode_stream decode d' bs)"

text \<open>What is still to be heard of a speaker, if \<open>later\<close> packets arrive.\<close>

definition unheard ::
  "('d \<Rightarrow> u8 list \<Rightarrow> (unit + i16 list) \<times> 'd) \<Rightarrow> 'd speaker \<Rightarrow> u8 list list \<Rightarrow> i16 list" where
  "unheard decode sp later = sp_pending_pcm sp @ decode_stream decode (sp_decoder sp) (sp_pending_packets sp @ later)"

lemma fill_pcm_stream:
  "fill_pcm decode n d packets pcm = (d', packets', pcm') \<Longrightarrow>
     pcm' @ decode_stream decode d' (packets' @ later) = pcm @ decode_stream decode d (packets @ later)"
  by (induction decode n d packets pcm rule: fill_pcm.induct) (auto split: if_splits prod.splits sum.splits)

lemma speaker_tick_stream:
  "speaker_frame decode n sp @ unheard decode (fst (speaker_tick decode n now sp)) later = unheard decode sp later"
proof -
  obtain d packets pcm where fill: "fill_pcm decode n (sp_decoder sp) (sp_pending_packets sp) (sp_pending_pcm sp)
      = (d, packets, pcm)" by (metis prod_cases3)
  from fill_pcm_stream[OF fill, of later] show ?thesis
    by (simp add: speaker_frame_def speaker_tick_def fill unheard_def flip: append_assoc)
qed

text \<open>Over a run of the mixer: the samples that speaker \<open>k\<close> contributes, the packets it sends, and
  whether none of them is dropped from a full queue and the speaker is never removed as idle.\<close>

fun packets_of :: "u32 \<Rightarrow> mixer_event list \<Rightarrow> u8 list list" where
  "packets_of k [] = []"
| "packets_of k (Packet now j data # es) = (if j = k then data # packets_of k es else packets_of k es)"
| "packets_of k (e # es) = packets_of k es"

fun heard ::
  "'r ring_api \<Rightarrow> ('d \<Rightarrow> u8 list \<Rightarrow> (unit + i16 list) \<times> 'd) \<Rightarrow> (u32 \<Rightarrow> unit + 'd) \<Rightarrow> u32 \<Rightarrow> nat \<Rightarrow>
     u32 \<Rightarrow> mixer_event list \<Rightarrow> 'd mixer \<times> 'r \<Rightarrow> i16 list" where
  "heard R decode new_decoder sample_rate jitter k [] state = []"
| "heard R decode new_decoder sample_rate jitter k (e # es) state =
     (case (e, hm_get (mx_speakers (fst state)) k) of
        (Tick now, Some sp) \<Rightarrow> speaker_frame decode (frame_samples sample_rate) sp
      | _ \<Rightarrow> []) @
     heard R decode new_decoder sample_rate jitter k es
       (mixer_step R decode new_decoder sample_rate jitter e state)"

fun undisturbed ::
  "'r ring_api \<Rightarrow> ('d \<Rightarrow> u8 list \<Rightarrow> (unit + i16 list) \<times> 'd) \<Rightarrow> (u32 \<Rightarrow> unit + 'd) \<Rightarrow> u32 \<Rightarrow> nat \<Rightarrow>
     u32 \<Rightarrow> mixer_event list \<Rightarrow> 'd mixer \<times> 'r \<Rightarrow> bool" where
  "undisturbed R decode new_decoder sample_rate jitter k [] state = True"
| "undisturbed R decode new_decoder sample_rate jitter k (e # es) state =
     ((case (e, hm_get (mx_speakers (fst state)) k) of
         (Tick now, Some sp) \<Rightarrow> \<not> stale decode (frame_samples sample_rate) now sp
       | (Packet now j data, Some sp) \<Rightarrow>
           j = k \<longrightarrow> length (sp_pending_packets sp) < max_packets_per_speaker jitter
       | _ \<Rightarrow> True) \<and>
      undisturbed R decode new_decoder sample_rate jitter k es
        (mixer_step R decode new_decoder sample_rate jitter e state))"

lemma mixer_tick_speaker:
  assumes "hm_wf (mx_speakers m)" and "hm_get (mx_speakers m) k = Some sp"
    and "\<not> stale decode (frame_samples sample_rate) now sp"
    and "m' = fst (snd (mixer_tick R decode sample_rate now m ring))"
  shows "hm_wf (mx_speakers m') \<and>
    hm_get (mx_speakers m') k = Some (fst (speaker_tick decode (frame_samples sample_rate) now sp))"
proof -
  have "(k, sp) \<in> set (mx_speakers m)" using hm_in_set_iff[OF assms(1)] assms(2) by simp
  moreover have wf: "hm_wf (mx_speakers m')"
    unfolding assms(4) mixer_tick_speakers using assms(1) by (simp add: hm_wf_filter hm_wf_map_snd)
  ultimately show ?thesis
    using assms(3) unfolding hm_in_set_iff[OF wf, symmetric]
    by (auto simp: assms(4) mixer_tick_speakers intro!: rev_image_eqI)
qed

lemma mixer_packet_speaker:
  assumes "hm_wf (mx_speakers m)" and "hm_get (mx_speakers m) k = Some sp"
    and "j = k \<longrightarrow> length (sp_pending_packets sp) < max_packets_per_speaker jitter"
    and "m' = mixer_packet new_decoder sample_rate jitter now j data m"
  shows "\<exists>sp'. hm_wf (mx_speakers m') \<and> hm_get (mx_speakers m') k = Some sp' \<and>
    (\<forall>later. unheard decode sp' later = unheard decode sp (if j = k then data # later else later))"
  using assms by (auto simp: mixer_packet_def Let_def unheard_def split: option.splits sum.splits)

text \<open>C37. No sample of a speaker is lost, repeated or reordered in the mixer: over any run in which its
  packet queue does not overflow, and whatever the other speakers and the sound effects do, the
  samples a speaker has contributed to the mix followed by what is still to be heard are exactly
  its packets decoded in order.\<close>

theorem speaker_stream_complete:
  assumes "hm_wf (mx_speakers m)" and "hm_get (mx_speakers m) k = Some sp"
    and "undisturbed R decode new_decoder sample_rate jitter k es (m, ring)"
  shows "\<exists>sp'. hm_get (mx_speakers (fst (fold (mixer_step R decode new_decoder sample_rate jitter) es (m, ring)))) k
      = Some sp' \<and>
    heard R decode new_decoder sample_rate jitter k es (m, ring) @ unheard decode sp' [] =
      unheard decode sp (packets_of k es)"
  using assms
proof (induction es arbitrary: m ring sp)
  case (Cons e es)
  obtain m1 ring1 where step: "mixer_step R decode new_decoder sample_rate jitter e (m, ring) = (m1, ring1)"
    by fastforce
  have rest: "undisturbed R decode new_decoder sample_rate jitter k es (m1, ring1)" using Cons.prems(3) step by simp
  show ?case
  proof (cases e)
    case (Tick now)
    let ?n = "frame_samples sample_rate"
    have m1: "m1 = fst (snd (mixer_tick R decode sample_rate now m ring))"
      using step Tick by (metis fst_conv mixer_step.simps(1))
    have "\<not> stale decode ?n now sp" using Cons.prems(2,3) Tick by simp
    from mixer_tick_speaker[OF Cons.prems(1,2) this m1] Cons.IH[OF _ _ rest]
    obtain sp' where ih: "hm_get (mx_speakers (fst (fold (mixer_step R decode new_decoder sample_rate jitter) es (m1, ring1)))) k
        = Some sp'" "heard R decode new_decoder sample_rate jitter k es (m1, ring1) @ unheard decode sp' [] =
        unheard decode (fst (speaker_tick decode ?n now sp)) (packets_of k es)" by blast
    have "heard R decode new_decoder sample_rate jitter k (e # es) (m, ring) @ unheard decode sp' [] =
        speaker_frame decode ?n sp @ unheard decode (fst (speaker_tick decode ?n now sp)) (packets_of k es)"
      using ih(2) Tick step Cons.prems(2) by simp
    with ih(1) Tick step show ?thesis by (simp add: speaker_tick_stream)
  next
    case (Packet now j data)
    have m1: "m1 = mixer_packet new_decoder sample_rate jitter now j data m" using step Packet by simp
    have "j = k \<longrightarrow> length (sp_pending_packets sp) < max_packets_per_speaker jitter"
      using Cons.prems(2,3) Packet by simp
    from mixer_packet_speaker[OF Cons.prems(1,2) this m1, of decode]
    obtain sp1 where sp1: "hm_wf (mx_speakers m1)" "hm_get (mx_speakers m1) k = Some sp1"
      "\<And>later. unheard decode sp1 later = unheard decode sp (if j = k then data # later else later)" by blast
    from Cons.IH[OF sp1(1,2) rest] sp1(3) Packet step show ?thesis by auto
  next
    case (Sound maybe_sound)
    have "mx_speakers m1 = mx_speakers m" using step Sound by (auto simp: mixer_sound_def split: option.splits if_splits)
    with Cons.IH[OF _ _ rest] Cons.prems(1,2) Sound step show ?thesis by auto
  qed
qed (simp add: unheard_def)


lemma voice_path_in_order_witness:
  "voices (send_loop (\<lambda>_. True) [PingTick, Outgoing (Some (SVoice 0 [0] False)), Outgoing (Some (SUserState 3)),
      Outgoing (Some (SVoice 2 [2] False))]) = [(0, [0], False), (2, [2], False)]"
proof -
  let ?sel = "[PingTick, Outgoing (Some (SVoice 0 [0] False)), Outgoing (Some (SUserState 3)),
      Outgoing (Some (SVoice 2 [2] False))]"
  let ?packets = "[(0, [0], False), (2, [2], False)] :: (u64 \<times> u8 list \<times> bool) list"
  have "f32_round 1000 = 1000" using f32_round_int[of 1000] by simp
  then have loud: "above_threshold [1000]" using threshold_bounds by (simp add: above_threshold_def avg_abs_def)
  note start = voice_session_start[of 100]
  obtain ring' st' where run: "encoder_run list_ring echo_encoder 100 [([1000], Sent), ([1000], Full), ([1000], Sent)] (9, [])
      voice_session = (?packets, ring', st')"
    using loud by (simp add: encoder_tick_def list_ring_def frame_samples_def FRAME_DURATION_MS_def
        transmit_gate_def echo_encoder_def voice_session_def)
  have other: "voice_of (SUserState 3) = None" by (simp add: voice_of_def)
  have "sorted_wrt (\<lambda>p q. unat (fst p) < unat (fst q)) (voices (send_loop (\<lambda>_. True) ?sel))"
    using voice_path_in_order[OF start run, where forwarded = "map (\<lambda>p. (p, True)) ?packets" and received = 2
        and selects = ?sel and pulled = 2 and send_ok = "\<lambda>_. True"]
    by (simp add: taken_def map_filter_simps other send_voice_def send_control_def)
  then show ?thesis by (simp add: map_filter_simps other)
qed

lemma speaker_stream_complete_witness:
  "heard list_ring echo_decoder (\<lambda>_. Inr ()) 100 2 1 [Packet 0 1 [5], Tick 0, Packet 1 2 [7], Tick 1]
      ((mixer_start 100)\<lparr>mx_speakers := [(1, loud_speaker 9)]\<rparr>, (4, [])) =
    take 2 (unheard echo_decoder (loud_speaker 9) [[5]])"
proof -
  let ?m = "(mixer_start 100)\<lparr>mx_speakers := [(1, loud_speaker 9)]\<rparr>"
  let ?es = "[Packet 0 1 [5], Tick 0, Packet 1 2 [7], Tick 1]"
  have u: "undisturbed list_ring echo_decoder (\<lambda>_. Inr ()) 100 2 1 ?es (?m, (4, []))"
    by (simp add: mixer_eval Let_def loud_speaker_def stale_def)
  have m: "hm_wf (mx_speakers ?m)" "hm_get (mx_speakers ?m) 1 = Some (loud_speaker 9)"
    by (simp_all add: hm_wf_def)
  obtain sp' where "heard list_ring echo_decoder (\<lambda>_. Inr ()) 100 2 1 ?es (?m, (4, [])) @
      unheard echo_decoder sp' [] = unheard echo_decoder (loud_speaker 9) (packets_of 1 ?es)"
    using speaker_stream_complete[OF m u] by blast
  moreover have "length (heard list_ring echo_decoder (\<lambda>_. Inr ()) 100 2 1 ?es (?m, (4, []))) = 2"
    by (simp add: mixer_eval Let_def loud_speaker_def speaker_frame_def)
  moreover have "packets_of 1 ?es = [[5]]" by simp
  ultimately show ?thesis by (metis append_eq_conv_conj)
qed

end
