(* ===== verification/Uplink.thy ===== *)
theory Uplink
  imports AudioPath AudioPort
begin

text \<open>
  The path from the phone to the voice queue: pjsip's media thread hands the frames of the phone to
  \<open>port_put_frame\<close> (\<^verbatim>\<open>src/sip/media_port.rs\<close>), which puts them into the ring \<open>sip_to_mumble\<close> of the call,
  and the encoder task (\<^verbatim>\<open>src/audio/bridge.rs\<close>) takes them out at its own pace.  A run is any interleaving
  of frames and ticks; it ends with the encoder.
\<close>

subsection \<open>Runs\<close>

datatype uplink_event = Put frame | Encode send_result

fun uplink ::
  "'r ring_api \<Rightarrow> ('e \<Rightarrow> i16 list \<Rightarrow> (unit + u8 list) \<times> 'e) \<Rightarrow> u32 \<Rightarrow> port \<Rightarrow> ring_id \<Rightarrow>
     uplink_event list \<Rightarrow> 'r media \<times> 'e encoder_state \<Rightarrow>
     ((u64 \<times> u8 list \<times> bool) list \<times> 'r media \<times> 'e encoder_state) option" where
  "uplink R encode sample_rate p i [] (s, st) = Some ([], s, st)"
| "uplink R encode sample_rate p i (Put f # es) (s, st) =
     (case port_put_frame R (Some p) (Some f) s of
        None \<Rightarrow> None
      | Some (status, s') \<Rightarrow> uplink R encode sample_rate p i es (s', st))"
| "uplink R encode sample_rate p i (Encode sent # es) (s, st) =
     (case encoder_tick R encode sample_rate sent (md_rings s ! i) st of
        (packet, running, r, st') \<Rightarrow>
          (let s' = s\<lparr>md_rings := (md_rings s)[i := r]\<rparr>; now = (case packet of None \<Rightarrow> [] | Some x \<Rightarrow> [x])
           in if running
              then (case uplink R encode sample_rate p i es (s', st') of
                      None \<Rightarrow> None
                    | Some (later, end_state) \<Rightarrow> Some (now @ later, end_state))
              else Some (now, s', st')))"

text \<open>The samples of a frame, and what the phone has said before each tick since the tick before.\<close>

definition said :: "frame \<Rightarrow> i16 list" where
  "said f = (if fr_type f = FRAME_TYPE_AUDIO
     then (case fr_buf f of Some buf \<Rightarrow> take (fr_size f div 2) buf | None \<Rightarrow> []) else [])"

fun said_by_tick :: "i16 list \<Rightarrow> uplink_event list \<Rightarrow> (i16 list \<times> send_result) list" where
  "said_by_tick pcm [] = []"
| "said_by_tick pcm (Put f # es) = said_by_tick (pcm @ said f) es"
| "said_by_tick pcm (Encode sent # es) = (pcm, sent) # said_by_tick [] es"

text \<open>A frame as pjsip makes it: its size does not exceed its buffer.\<close>

definition well_put :: "uplink_event \<Rightarrow> bool" where
  "well_put e = (case e of
     Put f \<Rightarrow> (case fr_buf f of Some buf \<Rightarrow> fr_size f div 2 \<le> length buf | None \<Rightarrow> True)
   | Encode _ \<Rightarrow> True)"

subsection \<open>Frames\<close>

lemma put_frame_said:
  assumes "ring_laws R contents cap"
    and "md_ports s p = Some obj" and "po_pdata obj = Some ud"
    and "i = sip_to_mumble ud" and "i < length (md_rings s)" and "well_put (Put f)"
  shows "\<exists>s'. port_put_frame R (Some p) (Some f) s = Some (0, s') \<and>
    md_ports s' = md_ports s \<and> length (md_rings s') = length (md_rings s) \<and>
    cap (md_rings s' ! i) = cap (md_rings s ! i) \<and>
    (length (contents (md_rings s ! i) @ said f) \<le> cap (md_rings s ! i) \<longrightarrow>
       contents (md_rings s' ! i) = contents (md_rings s ! i) @ said f)"
proof (cases "fr_type f = FRAME_TYPE_AUDIO \<and> fr_buf f \<noteq> None \<and> fr_size f \<noteq> 0")
  case True
  then obtain buf where buf: "fr_buf f = Some buf" by auto
  with assms(6) True have f: "said f = take (fr_size f div 2) buf" "length (said f) = fr_size f div 2"
    by (auto simp: said_def well_put_def)
  obtain n r where push: "rb_push_slice R (md_rings s ! i) (said f) = (n, r)" by fastforce
  from True f buf push assms(2-4) have "port_put_frame R (Some p) (Some f) s =
      Some (0, s\<lparr>md_rings := (md_rings s)[i := r], md_dropped := md_dropped s + of_nat (fr_size f div 2 - n)\<rparr>)"
    by (auto simp: port_put_frame_def Let_def fst_track_samples)
  with ring_push[OF assms(1) push] assms(5) show ?thesis by auto
next
  case False
  then have "port_put_frame R (Some p) (Some f) s = Some (0, s)" "said f = []"
    using assms(2,3) by (auto simp: port_put_frame_def said_def split: option.splits)
  then show ?thesis by simp
qed

lemma said_by_tick_head:
  "said_by_tick pcm es \<noteq> [] \<Longrightarrow> \<exists>more sent rest. said_by_tick pcm es = (pcm @ more, sent) # rest"
proof (induction pcm es rule: said_by_tick.induct)
  case (2 pcm f es)
  then show ?case by fastforce
qed auto

lemma fits_head:
  "fits c n q (said_by_tick pcm es) \<Longrightarrow> said_by_tick pcm es \<noteq> [] \<Longrightarrow> length (q @ pcm) \<le> c"
  using said_by_tick_head[of pcm es] by fastforce

subsection \<open>From frames to packets\<close>

text \<open>After the last tick nothing is encoded.\<close>

lemma uplink_no_ticks:
  assumes "ring_laws R contents cap" and "po_pdata obj = Some ud" and "i = sip_to_mumble ud"
  shows "said_by_tick pcm es = [] \<Longrightarrow> md_ports s p = Some obj \<Longrightarrow> i < length (md_rings s) \<Longrightarrow>
    list_all well_put es \<Longrightarrow> \<exists>s'. uplink R encode sample_rate p i es (s, st) = Some ([], s', st)"
proof (induction pcm es arbitrary: s rule: said_by_tick.induct)
  case (2 pcm f es)
  from put_frame_said[OF assms(1) 2(3) assms(2,3) 2(4), of f] 2 show ?case by fastforce
qed auto

lemma uplink_reference:
  assumes "ring_laws R contents cap" and "n = frame_samples sample_rate"
    and "po_pdata obj = Some ud" and "i = sip_to_mumble ud"
  shows "gate_matches bs st \<Longrightarrow> md_ports s p = Some obj \<Longrightarrow> i < length (md_rings s) \<Longrightarrow>
    contents (md_rings s ! i) = q @ pcm \<Longrightarrow> list_all well_put es \<Longrightarrow>
    fits (cap (md_rings s ! i)) n q (said_by_tick pcm es) \<Longrightarrow>
    \<exists>s' st'. uplink R encode sample_rate p i es (s, st) = Some
      (encode_frames encode n bs (en_encoder st) (en_seq_num st) (frames_read n q (said_by_tick pcm es)), s', st')"
proof (induction es arbitrary: s st bs q pcm)
  case (Cons e es)
  show ?case
  proof (cases e)
    case (Put f)
    from Cons.prems(5) Put have ok: "well_put (Put f)" "list_all well_put es" by simp_all
    from put_frame_said[OF assms(1) Cons.prems(2) assms(3,4) Cons.prems(3) ok(1)] obtain s1 where
      put: "port_put_frame R (Some p) (Some f) s = Some (0, s1)"
      and s1: "md_ports s1 = md_ports s" "length (md_rings s1) = length (md_rings s)"
        "cap (md_rings s1 ! i) = cap (md_rings s ! i)"
        "length (q @ pcm @ said f) \<le> cap (md_rings s ! i) \<Longrightarrow> contents (md_rings s1 ! i) = q @ pcm @ said f"
      by (auto simp: Cons.prems(4))
    show ?thesis
    proof (cases "said_by_tick (pcm @ said f) es = []")
      case True
      from uplink_no_ticks[OF assms(1,3,4) True, of s1 p] s1 Cons.prems(2,3) ok(2) put True Put show ?thesis
        by fastforce
    next
      case False
      with fits_head Cons.prems(6) Put have "length (q @ pcm @ said f) \<le> cap (md_rings s ! i)" by fastforce
      from Cons.IH[of bs st s1 q "pcm @ said f"] s1(4)[OF this] s1(1-3) Cons.prems ok(2) put Put show ?thesis by simp
    qed
  next
    case (Encode sent)
    let ?r = "md_rings s ! i"
    have rest: "list_all well_put es" using Cons.prems(5) by simp
    show ?thesis
    proof (cases "length (q @ pcm) < n")
      case True
      then have "encoder_tick R encode sample_rate sent ?r st = (None, True, ?r, st)"
        using ring_occupied[OF assms(1)] Cons.prems(4) by (simp add: encoder_tick_def assms(2))
      with Cons.IH[of bs st s "q @ pcm" "[]"] Cons.prems rest True Encode show ?thesis by fastforce
    next
      case False
      then have "n \<le> length (contents ?r)" by (simp add: Cons.prems(4))
      from encoder_tick_frame[OF assms(1,2) this Cons.prems(1) refl, of encode sent]
      obtain packet running r1 st1 where
        tick: "encoder_tick R encode sample_rate sent ?r st = (packet, running, r1, st1)"
        and r1: "contents r1 = drop n (q @ pcm)" "cap r1 = cap ?r"
        and gate: "gate_matches (bs @ [above_threshold (take n (q @ pcm))]) st1"
        and out: "\<And>frames. encode_frames encode n bs (en_encoder st) (en_seq_num st) ((take n (q @ pcm), sent) # frames) =
          (case packet of None \<Rightarrow> [] | Some x \<Rightarrow> [x]) @
          (if running then encode_frames encode n (bs @ [above_threshold (take n (q @ pcm))]) (en_encoder st1)
             (en_seq_num st1) frames else [])"
        unfolding Cons.prems(4) by blast
      let ?s = "s\<lparr>md_rings := (md_rings s)[i := r1]\<rparr>"
      have "\<exists>s' st'. uplink R encode sample_rate p i es (?s, st1) = Some
          (encode_frames encode n (bs @ [above_threshold (take n (q @ pcm))]) (en_encoder st1) (en_seq_num st1)
            (frames_read n (drop n (q @ pcm)) (said_by_tick [] es)), s', st')"
        using Cons.IH[OF gate, of ?s "drop n (q @ pcm)" "[]"] Cons.prems(2,3,6) rest r1 False Encode by simp
      with tick out[of "frames_read n (drop n (q @ pcm)) (said_by_tick [] es)"] False Encode show ?thesis
        by (auto simp: Let_def)
    qed
  qed
qed simp

text \<open>C35. What the phone says is what is encoded, from the frames pjsip hands over to the packets that
  are queued for Mumble: in any interleaving of the two threads in which the ring does not
  overflow, and whatever the encoder and the queue answer, the packets are the whole frames of
  exactly the phone's samples, passed through the gate's reference, encoded in order and numbered from
  zero; only frames that the queue refused are missing, up to the end of the queue.\<close>

theorem phone_frames_encoded:
  assumes "ring_laws R contents cap" and "n = frame_samples sample_rate"
    and "md_ports s p = Some obj" and "po_pdata obj = Some ud"
    and "i = sip_to_mumble ud" and "i < length (md_rings s)"
    and "contents (md_rings s ! i) = []"
    and "encoder_start new_encoder set_bitrate sample_rate bitrate = Some st"
    and "list_all well_put es" and "fits (cap (md_rings s ! i)) n [] (said_by_tick [] es)"
    and "frames = frames_read n [] (said_by_tick [] es)"
  shows "(\<exists>s' st'. uplink R encode sample_rate p i es (s, st) =
      Some (encode_frames encode n [] (en_encoder st) 0 frames, s', st')) \<and>
    (\<exists>rest. concat (map fst frames) @ rest = concat (map fst (said_by_tick [] es)))"
proof -
  have "gate_matches [] st" "en_seq_num st = 0"
    using assms(8) by (auto simp: encoder_start_def gate_matches_def gate_state_def split: sum.splits)
  with uplink_reference[OF assms(1,2,4,5), of "[]" st s p "[]" "[]" es encode] assms
    frames_read_prefix[of n "[]" "said_by_tick [] es"]
  show ?thesis by simp
qed

lemma phone_frames_encoded_witness:
  "\<exists>s' st'. uplink list_ring echo_encoder 200 1 0
      [Put \<lparr>fr_type = FRAME_TYPE_AUDIO, fr_buf = Some [1000], fr_size = 2\<rparr>, Encode Sent,
       Put \<lparr>fr_type = FRAME_TYPE_AUDIO, fr_buf = Some [2000, 3000], fr_size = 4\<rparr>, Encode Sent]
      (example_media, voice_session)
    = Some (encode_frames echo_encoder 2 [] 0 0 [([1000, 2000], Sent)], s', st')"
proof -
  let ?es = "[Put \<lparr>fr_type = FRAME_TYPE_AUDIO, fr_buf = Some [1000], fr_size = 2\<rparr>, Encode Sent,
    Put \<lparr>fr_type = FRAME_TYPE_AUDIO, fr_buf = Some [2000, 3000], fr_size = 4\<rparr>, Encode Sent]"
  have n: "2 = frame_samples 200" by (simp add: frame_samples_def FRAME_DURATION_MS_def)
  obtain obj where obj: "md_ports example_media 1 = Some obj"
    "po_pdata obj = Some \<lparr>sip_to_mumble = 0, mumble_to_sip = 1\<rparr>"
    by (simp add: example_media_def create_audio_buffers_def create_custom_port_def)
  have media: "0 = sip_to_mumble \<lparr>sip_to_mumble = 0, mumble_to_sip = 1\<rparr>" "0 < length (md_rings example_media)"
    "md_rings example_media ! 0 = (4, [])"
    by (simp_all add: example_media_def create_audio_buffers_def create_custom_port_def list_ring_def)
  have es: "list_all well_put ?es" "said_by_tick [] ?es = [([1000], Sent), ([2000, 3000], Sent)]"
    by (simp_all add: well_put_def said_def)
  with phone_frames_encoded[OF list_ring_laws n obj media(1,2) _ voice_session_start es(1) _ refl, of echo_encoder]
    media(3) show ?thesis by (simp add: voice_session_def)
qed

end
