(* ===== verification/Downlink.thy ===== *)
theory Downlink
  imports AudioPath AudioPort "HOL-Library.Sublist"
begin

text \<open>
  The path from the mixer (\<^verbatim>\<open>src/audio/bridge.rs\<close>) to the phone: the mixer task pushes its frames to
  the ring \<open>mumble_to_sip\<close> of a call and pjsip's media thread takes them out through the port's
  \<open>port_get_frame\<close> (\<^verbatim>\<open>src/sip/media_port.rs\<close>).  The two run in any interleaving: a run is a list of
  mixer events and of frame requests, and what was mixed and what was played are its results.
\<close>

subsection \<open>Runs\<close>

datatype downlink_event = Mix mixer_event | Request frame

text \<open>The frame that a mixer event pushes to the ring.\<close>

definition mixed_frame ::
  "'r ring_api \<Rightarrow> ('d \<Rightarrow> u8 list \<Rightarrow> (unit + i16 list) \<times> 'd) \<Rightarrow> u32 \<Rightarrow> mixer_event \<Rightarrow> 'd mixer \<times> 'r \<Rightarrow> i16 list" where
  "mixed_frame R decode sample_rate e state =
     (case e of
        Tick now \<Rightarrow>
          (case fst (mixer_tick R decode sample_rate now (fst state) (snd state)) of None \<Rightarrow> [] | Some f \<Rightarrow> f)
      | _ \<Rightarrow> [])"

text \<open>The samples that a request is answered with.\<close>

definition handed :: "frame \<Rightarrow> frame option \<Rightarrow> i16 list" where
  "handed f answer = (case answer of
     Some f' \<Rightarrow> (case fr_buf f' of Some buf \<Rightarrow> take (fr_size f div 2) buf | None \<Rightarrow> [])
   | None \<Rightarrow> [])"

fun downlink ::
  "'r ring_api \<Rightarrow> ('d \<Rightarrow> u8 list \<Rightarrow> (unit + i16 list) \<times> 'd) \<Rightarrow> (u32 \<Rightarrow> unit + 'd) \<Rightarrow> u32 \<Rightarrow> nat \<Rightarrow>
     port \<Rightarrow> ring_id \<Rightarrow> downlink_event list \<Rightarrow> 'd mixer \<times> 'r media \<Rightarrow>
     (i16 list list \<times> i16 list list \<times> 'd mixer \<times> 'r media) option" where
  "downlink R decode new_decoder sample_rate jitter p i [] (m, s) = Some ([], [], m, s)"
| "downlink R decode new_decoder sample_rate jitter p i (Mix e # es) (m, s) =
     (case mixer_step R decode new_decoder sample_rate jitter e (m, md_rings s ! i) of (m', r) \<Rightarrow>
        (case downlink R decode new_decoder sample_rate jitter p i es (m', s\<lparr>md_rings := (md_rings s)[i := r]\<rparr>) of
           None \<Rightarrow> None
         | Some (mixed, played, end_state) \<Rightarrow>
             Some (mixed_frame R decode sample_rate e (m, md_rings s ! i) # mixed, played, end_state)))"
| "downlink R decode new_decoder sample_rate jitter p i (Request f # es) (m, s) =
     (case port_get_frame R (Some p) (Some f) s of
        None \<Rightarrow> None
      | Some (status, answer, s') \<Rightarrow>
          (case downlink R decode new_decoder sample_rate jitter p i es (m, s') of
             None \<Rightarrow> None
           | Some (mixed, played, end_state) \<Rightarrow> Some (mixed, handed f answer # played, end_state)))"

text \<open>A request as pjsip makes it: a buffer with room for at least one sample and for all it asks.\<close>

definition well_asked :: "downlink_event \<Rightarrow> bool" where
  "well_asked e = (case e of
     Request f \<Rightarrow> (case fr_buf f of Some buf \<Rightarrow> 0 < fr_size f div 2 \<and> fr_size f div 2 \<le> length buf | None \<Rightarrow> False)
   | Mix _ \<Rightarrow> True)"

lemma length_foldl_mix_add [simp]: "length (foldl mix_add accum outs) = length accum"
  by (induction outs arbitrary: accum) auto

lemma mixer_tick_push:
  assumes "ring_laws R contents cap" and "mixer_tick R decode sample_rate now m r = (pushed, m', r')"
  shows "\<exists>accepted. prefix accepted (case pushed of None \<Rightarrow> [] | Some f \<Rightarrow> f) \<and>
    contents r' = contents r @ accepted \<and> cap r' = cap r \<and>
    mx_dropped_samples m' = mx_dropped_samples m +
      of_nat (length (case pushed of None \<Rightarrow> [] | Some f \<Rightarrow> f) - length accepted)"
proof (cases pushed)
  case None
  with assms(2) show ?thesis
    by (auto simp: mixer_tick_def Let_def split: if_splits prod.splits intro!: exI[of _ "[]"])
next
  case (Some f)
  obtain n r1 where push: "rb_push_slice R r f = (n, r1)" by fastforce
  have "length f = frame_samples sample_rate" "r' = r1"
    "mx_dropped_samples m' = mx_dropped_samples m + of_nat (frame_samples sample_rate - n)"
    using assms(2) Some push
    by (auto simp: mixer_tick_def Let_def split: if_splits prod.splits)
  with ring_push[OF assms(1) push] Some show ?thesis
    by (intro exI[of _ "take n f"]) (auto simp: take_is_prefix min_def)
qed

lemma mixer_step_push:
  assumes "ring_laws R contents cap"
    and "mixer_step R decode new_decoder sample_rate jitter e (m, r) = (m', r')"
    and "f = mixed_frame R decode sample_rate e (m, r)"
  shows "\<exists>accepted. prefix accepted f \<and> contents r' = contents r @ accepted \<and> cap r' = cap r \<and>
    mx_dropped_samples m' = mx_dropped_samples m + of_nat (length f - length accepted)"
proof (cases e)
  case (Tick now)
  obtain pushed m1 r1 where tick: "mixer_tick R decode sample_rate now m r = (pushed, m1, r1)"
    by (metis prod_cases3)
  with mixer_tick_push[OF assms(1) tick] assms(2,3) Tick show ?thesis
    by (simp add: mixed_frame_def)
qed (use assms in \<open>auto simp: mixed_frame_def mixer_packet_def mixer_sound_def Let_def
      split: option.splits sum.splits if_splits\<close>)

lemma of_nat_missing:
  "a \<le> b \<Longrightarrow> c \<le> d \<Longrightarrow> (of_nat (b - a) :: 'a :: len word) + of_nat (d - c) = of_nat ((b + d) - (a + c))"
  by (simp flip: of_nat_add add: algebra_simps)

lemma prefixes_length: "list_all2 prefix xs ys \<Longrightarrow> length (concat xs) \<le> length (concat ys)"
  by (induction rule: list_all2_induct) (auto dest: prefix_length_le)

subsection \<open>The phone hears the mix\<close>

text \<open>A frame as it is played: the samples that were queued, then silence.\<close>

definition then_silence :: "i16 list \<Rightarrow> i16 list \<Rightarrow> bool" where
  "then_silence q out \<longleftrightarrow> out = q @ replicate (length out - length q) 0"

lemma then_silence_length: "then_silence h f \<Longrightarrow> length h \<le> length f"
  by (metis length_append le_add1 then_silence_def)

lemma silences_length: "list_all2 then_silence xs ys \<Longrightarrow> length (concat xs) \<le> length (concat ys)"
  by (induction rule: list_all2_induct) (auto dest: then_silence_length)

lemma downlink_accounts:
  assumes "ring_laws R contents cap"
    and "md_ports s p = Some obj" and "po_pdata obj = Some ud"
    and "i = mumble_to_sip ud" and "i < length (md_rings s)"
    and "list_all well_asked es"
  shows "\<exists>mixed played m' s' accepted audible.
    downlink R decode new_decoder sample_rate jitter p i es (m, s) = Some (mixed, played, m', s') \<and>
    list_all2 prefix accepted mixed \<and> list_all2 then_silence audible played \<and>
    concat audible @ contents (md_rings s' ! i) = contents (md_rings s ! i) @ concat accepted \<and>
    mx_dropped_samples m' =
      mx_dropped_samples m + of_nat (length (concat mixed) - length (concat accepted)) \<and>
    md_underflow s' = md_underflow s + of_nat (length (concat played) - length (concat audible))"
  using assms(2-)
proof (induction es arbitrary: m s)
  case (Cons e es)
  show ?case
  proof (cases e)
    case (Mix x)
    obtain m1 r where step: "mixer_step R decode new_decoder sample_rate jitter x (m, md_rings s ! i) = (m1, r)"
      by fastforce
    let ?f = "mixed_frame R decode sample_rate x (m, md_rings s ! i)"
    let ?s = "s\<lparr>md_rings := (md_rings s)[i := r]\<rparr>"
    from mixer_step_push[OF assms(1) step refl] obtain acc where acc: "prefix acc ?f"
      "contents r = contents (md_rings s ! i) @ acc"
      "mx_dropped_samples m1 = mx_dropped_samples m + of_nat (length ?f - length acc)" by blast
    have "md_ports ?s p = Some obj" "i < length (md_rings ?s)" "list_all well_asked es"
      using Cons.prems by simp_all
    from Cons.IH[OF this(1) Cons.prems(2,3) this(2,3), of m1]
    obtain mixed played m' s' accepted audible where ih:
      "downlink R decode new_decoder sample_rate jitter p i es (m1, ?s) = Some (mixed, played, m', s')"
      "list_all2 prefix accepted mixed" "list_all2 then_silence audible played"
      "concat audible @ contents (md_rings s' ! i) = contents (md_rings ?s ! i) @ concat accepted"
      "mx_dropped_samples m' =
        mx_dropped_samples m1 + of_nat (length (concat mixed) - length (concat accepted))"
      "md_underflow s' = md_underflow ?s + of_nat (length (concat played) - length (concat audible))"
      by blast
    have "mx_dropped_samples m' = mx_dropped_samples m +
        of_nat (length (concat (?f # mixed)) - length (concat (acc # accepted)))"
      using of_nat_missing[OF prefix_length_le[OF acc(1)] prefixes_length[OF ih(2)]] ih(5) acc(3)
      by (simp add: add.assoc)
    with ih acc step Mix Cons.prems(4) show ?thesis
      by (intro exI[of _ "?f # mixed"] exI[of _ played] exI[of _ m'] exI[of _ s'] exI[of _ "acc # accepted"]
          exI[of _ audible]) simp
  next
    case (Request f)
    let ?n = "fr_size f div 2" and ?q = "contents (md_rings s ! i)"
    from Cons.prems(5) Request obtain buf where buf: "fr_buf f = Some buf" "0 < ?n" "?n \<le> length buf"
      by (auto simp: well_asked_def split: option.splits)
    obtain r a s1 where get: "contents r = drop ?n ?q" "port_get_frame R (Some p) (Some f) s = Some (0, a, s1)"
      "handed f a = take ?n ?q @ replicate (?n - length ?q) 0"
      "s1 = s\<lparr>md_rings := (md_rings s)[i := r], md_underflow := md_underflow s + of_nat (?n - length ?q)\<rparr>"
      using get_frame_result[OF assms(1) Cons.prems(1,2) buf(1) refl buf(2) refl] buf(3) Cons.prems(3)
      by (fastforce simp: handed_def)
    have "md_ports s1 p = Some obj" "i < length (md_rings s1)" "list_all well_asked es"
      using Cons.prems by (simp_all add: get(4))
    from Cons.IH[OF this(1) Cons.prems(2,3) this(2,3), of m]
    obtain mixed played m' s' accepted audible where ih:
      "downlink R decode new_decoder sample_rate jitter p i es (m, s1) = Some (mixed, played, m', s')"
      "list_all2 prefix accepted mixed" "list_all2 then_silence audible played"
      "concat audible @ contents (md_rings s' ! i) = contents (md_rings s1 ! i) @ concat accepted"
      "mx_dropped_samples m' =
        mx_dropped_samples m + of_nat (length (concat mixed) - length (concat accepted))"
      "md_underflow s' = md_underflow s1 + of_nat (length (concat played) - length (concat audible))"
      by blast
    have len: "length (take ?n ?q) \<le> length (handed f a)"
      "length (handed f a) - length (take ?n ?q) = ?n - length ?q" by (simp_all add: get(3))
    have "md_underflow s' = md_underflow s +
        of_nat (length (concat (handed f a # played)) - length (concat (take ?n ?q # audible)))"
      using of_nat_missing[OF len(1) silences_length[OF ih(3)], where 'a = 64] ih(6) get(4) len(2)
      by (simp add: add.assoc)
    moreover have "then_silence (take ?n ?q) (handed f a)" by (simp add: then_silence_def get(3))
    moreover have "concat (take ?n ?q # audible) @ contents (md_rings s' ! i) = ?q @ concat accepted"
      using ih(4) get(1,4) Cons.prems(4) by simp
    ultimately show ?thesis using ih get(2) Request
      by (intro exI[of _ mixed] exI[of _ "handed f a # played"] exI[of _ m'] exI[of _ s'] exI[of _ accepted]
          exI[of _ "take ?n ?q # audible"]) simp
  qed
qed simp

text \<open>C23. Between the mixer and the phone no sample is lost, repeated or reordered, however the mixer's
  task and pjsip's thread interleave: every frame played is samples of the queue followed by silence,
  and all of them together, with what is still queued, are the samples that were queued followed by what
  the ring accepted of each mixed frame, a prefix of it.  The two telemetry counters account for
  exactly the samples that the ring refused and the silence that was played.\<close>

theorem phone_hears_the_mix:
  assumes "ring_laws R contents cap"
    and "md_ports s p = Some obj" and "po_pdata obj = Some ud"
    and "i = mumble_to_sip ud" and "i < length (md_rings s)"
    and "list_all well_asked es"
  shows "\<exists>mixed played m' s' accepted audible.
    downlink R decode new_decoder sample_rate jitter p i es (m, s) = Some (mixed, played, m', s') \<and>
    list_all2 prefix accepted mixed \<and> list_all2 then_silence audible played \<and>
    concat audible @ contents (md_rings s' ! i) = contents (md_rings s ! i) @ concat accepted \<and>
    mx_dropped_samples m' =
      mx_dropped_samples m + of_nat (length (concat mixed) - length (concat accepted)) \<and>
    md_underflow s' = md_underflow s + of_nat (length (concat played) - length (concat audible))"
  by (rule downlink_accounts[OF assms])

subsection \<open>A single speaker\<close>

text \<open>What a speaker's samples become in a mix of their own: silence up to a whole frame.\<close>

definition padded :: "nat \<Rightarrow> i16 list \<Rightarrow> i16 list" where
  "padded n f = (if f = [] then [] else f @ replicate (n - length f) 0)"

fun mix_events :: "downlink_event list \<Rightarrow> mixer_event list" where
  "mix_events [] = []"
| "mix_events (Mix e # es) = e # mix_events es"
| "mix_events (Request f # es) = mix_events es"

definition only_speaker :: "u32 \<Rightarrow> mixer_event \<Rightarrow> bool" where
  "only_speaker k e = (case e of Tick _ \<Rightarrow> True | Packet _ j _ \<Rightarrow> j = k | Sound s \<Rightarrow> s = None)"

lemma only_speaker_simps [simp]:
  "only_speaker k (Tick now)" "only_speaker k (Packet now j data) \<longleftrightarrow> j = k"
  "only_speaker k (Sound s) \<longleftrightarrow> s = None"
  by (simp_all add: only_speaker_def)

lemma clamp_i16_scast [simp]: "clamp_i16 (scast (x :: i16)) = x"
proof -
  have "sint (clamp_i16 (scast x)) = sint x"
    using sint_greater_eq[of x] sint_less[of x] by (simp add: sint_clamp_i16 sint_scast_i16)
  then show ?thesis by (simp add: signed_word_eqI)
qed

lemma mix_add_silence: "length f \<le> n \<Longrightarrow> mix_add (replicate n 0) f = map scast f @ replicate (n - length f) 0"
proof (induction f arbitrary: n)
  case (Cons x f)
  then show ?case by (cases n) auto
qed (cases n, auto)

lemma mix_add_Nil [simp]: "mix_add xs [] = xs"
  by (cases xs) auto

lemma speaker_frame_length: "length (speaker_frame decode n sp) \<le> n"
  by (simp add: speaker_frame_def split: prod.splits)

lemma lone_frame:
  assumes "mx_speakers m = [(k, sp)]" and "mx_sound_queue m = []"
  shows "mixed_frame R decode sample_rate (Tick now) (m, r) =
    padded (frame_samples sample_rate) (speaker_frame decode (frame_samples sample_rate) sp)"
proof -
  let ?n = "frame_samples sample_rate"
  obtain d packets pcm where fill: "fill_pcm decode ?n (sp_decoder sp) (sp_pending_packets sp) (sp_pending_pcm sp)
      = (d, packets, pcm)" by (metis prod_cases3)
  have zero: "clamp_i16 0 = 0" using clamp_i16_scast[of 0] by simp
  have "mix_add (replicate ?n 0) (take ?n pcm) = map scast (take ?n pcm) @ replicate (?n - length (take ?n pcm)) 0"
    by (rule mix_add_silence) simp
  with zero show ?thesis
    by (auto simp: mixed_frame_def mixer_tick_def Let_def assms speaker_tick_def fill speaker_frame_def
        map_filter_simps padded_def comp_def split: prod.splits)
qed

lemma lone_tick:
  assumes "mx_speakers m = [(k, sp)]" and "mx_sound_queue m = []"
    and "\<not> stale decode (frame_samples sample_rate) now sp"
    and "mixer_step R decode new_decoder sample_rate jitter (Tick now) (m, r) = (m', r')"
  shows "mx_speakers m' = [(k, fst (speaker_tick decode (frame_samples sample_rate) now sp))] \<and>
    mx_sound_queue m' = []"
  using assms
  by (auto simp: mixer_tick_def Let_def stale_def split: prod.splits if_splits)

lemma lone_packet:
  assumes "mx_speakers m = [(k, sp)]" and "mx_sound_queue m = []"
    and "length (sp_pending_packets sp) < max_packets_per_speaker jitter"
    and "m' = mixer_packet new_decoder sample_rate jitter now k data m"
  shows "mx_speakers m' = [(k, sp\<lparr>sp_pending_packets := sp_pending_packets sp @ [data], sp_last_packet_at := now\<rparr>)] \<and>
    mx_sound_queue m' = []"
  using assms by (simp add: mixer_packet_def Let_def)

text \<open>The speaker alone: it is never removed as idle and none of its packets is dropped.\<close>

fun keeps_up ::
  "('d \<Rightarrow> u8 list \<Rightarrow> (unit + i16 list) \<times> 'd) \<Rightarrow> nat \<Rightarrow> nat \<Rightarrow> mixer_event list \<Rightarrow> 'd speaker \<Rightarrow> bool" where
  "keeps_up decode n jitter [] sp = True"
| "keeps_up decode n jitter (Tick now # es) sp =
     (\<not> stale decode n now sp \<and> keeps_up decode n jitter es (fst (speaker_tick decode n now sp)))"
| "keeps_up decode n jitter (Packet now j data # es) sp =
     (length (sp_pending_packets sp) < max_packets_per_speaker jitter \<and>
      keeps_up decode n jitter es
        (sp\<lparr>sp_pending_packets := sp_pending_packets sp @ [data], sp_last_packet_at := now\<rparr>))"
| "keeps_up decode n jitter (Sound sound # es) sp = keeps_up decode n jitter es sp"

lemma lone_run:
  "downlink R decode new_decoder sample_rate jitter p i es (m, s) = Some (mixed, played, m', s') \<Longrightarrow>
   mx_speakers m = [(k, sp)] \<Longrightarrow> mx_sound_queue m = [] \<Longrightarrow> list_all (only_speaker k) (mix_events es) \<Longrightarrow>
   keeps_up decode (frame_samples sample_rate) jitter (mix_events es) sp \<Longrightarrow>
   \<exists>frames sp'. mx_speakers m' = [(k, sp')] \<and>
     mixed = map (padded (frame_samples sample_rate)) frames \<and>
     list_all (\<lambda>f. length f \<le> frame_samples sample_rate) frames \<and>
     concat frames @ unheard decode sp' [] = unheard decode sp (packets_of k (mix_events es))"
proof (induction es arbitrary: m s mixed played sp)
  case Nil
  then show ?case by (auto simp: unheard_def intro!: exI[of _ "[]"])
next
  case (Cons e es)
  let ?n = "frame_samples sample_rate"
  show ?case
  proof (cases e)
    case (Mix x)
    obtain m1 r where step: "mixer_step R decode new_decoder sample_rate jitter x (m, md_rings s ! i) = (m1, r)"
      by fastforce
    with Cons.prems(1) Mix obtain mixed1 where rest:
      "downlink R decode new_decoder sample_rate jitter p i es (m1, s\<lparr>md_rings := (md_rings s)[i := r]\<rparr>) =
        Some (mixed1, played, m', s')"
      and mixed: "mixed = mixed_frame R decode sample_rate x (m, md_rings s ! i) # mixed1"
      by (auto split: option.splits)
    note ih = Cons.IH[OF rest]
    show ?thesis
    proof (cases x)
      case (Tick now)
      have ok: "\<not> stale decode ?n now sp" and keep: "list_all (only_speaker k) (mix_events es)"
        "keeps_up decode ?n jitter (mix_events es) (fst (speaker_tick decode ?n now sp))"
        using Cons.prems(4,5) Mix Tick by simp_all
      from lone_tick[OF Cons.prems(2,3) ok step[unfolded Tick]]
      have m1: "mx_speakers m1 = [(k, fst (speaker_tick decode ?n now sp))]" "mx_sound_queue m1 = []" by blast+
      from ih[OF m1 keep] obtain frames sp' where ih: "mx_speakers m' = [(k, sp')]"
        "mixed1 = map (padded ?n) frames" "list_all (\<lambda>f. length f \<le> ?n) frames"
        "concat frames @ unheard decode sp' [] =
          unheard decode (fst (speaker_tick decode ?n now sp)) (packets_of k (mix_events es))" by blast
      have "concat (speaker_frame decode ?n sp # frames) @ unheard decode sp' [] =
          unheard decode sp (packets_of k (mix_events (e # es)))"
        using ih(4) Mix Tick by (simp add: speaker_tick_stream)
      with ih(1-3) mixed Tick lone_frame[OF Cons.prems(2,3)] speaker_frame_length[of decode ?n sp] show ?thesis
        by (intro exI[of _ "speaker_frame decode ?n sp # frames"] exI[of _ sp']) simp
    next
      case (Packet now j data)
      let ?sp = "sp\<lparr>sp_pending_packets := sp_pending_packets sp @ [data], sp_last_packet_at := now\<rparr>"
      have j: "j = k" and ok: "length (sp_pending_packets sp) < max_packets_per_speaker jitter"
        and keep: "list_all (only_speaker k) (mix_events es)" "keeps_up decode ?n jitter (mix_events es) ?sp"
        using Cons.prems(4,5) Mix Packet by simp_all
      from lone_packet[OF Cons.prems(2,3) ok] step Packet j
      have m1: "mx_speakers m1 = [(k, ?sp)]" "mx_sound_queue m1 = []" by auto
      from ih[OF m1 keep] obtain frames sp' where ih: "mx_speakers m' = [(k, sp')]"
        "mixed1 = map (padded ?n) frames" "list_all (\<lambda>f. length f \<le> ?n) frames"
        "concat frames @ unheard decode sp' [] = unheard decode ?sp (packets_of k (mix_events es))" by blast
      then show ?thesis using mixed Packet Mix j
        by (intro exI[of _ "[] # frames"] exI[of _ sp']) (simp add: mixed_frame_def padded_def unheard_def)
    next
      case (Sound sound)
      have none: "sound = None" and keep: "list_all (only_speaker k) (mix_events es)"
        "keeps_up decode ?n jitter (mix_events es) sp"
        using Cons.prems(4,5) Mix Sound by simp_all
      have m1: "mx_speakers m1 = [(k, sp)]" "mx_sound_queue m1 = []"
        using step Sound none Cons.prems(2,3) by (auto simp: mixer_sound_def split: if_splits)
      from ih[OF m1 keep] obtain frames sp' where ih: "mx_speakers m' = [(k, sp')]"
        "mixed1 = map (padded ?n) frames" "list_all (\<lambda>f. length f \<le> ?n) frames"
        "concat frames @ unheard decode sp' [] = unheard decode sp (packets_of k (mix_events es))" by blast
      then show ?thesis using mixed Sound Mix
        by (intro exI[of _ "[] # frames"] exI[of _ sp']) (simp add: mixed_frame_def padded_def)
    qed
  next
    case (Request f)
    with Cons.prems(1) obtain s1 played1 where
      "downlink R decode new_decoder sample_rate jitter p i es (m, s1) = Some (mixed, played1, m', s')"
      by (auto split: option.splits)
    from Cons.IH[OF this Cons.prems(2,3)] Cons.prems(4,5) Request show ?thesis by simp
  qed
qed

text \<open>C24. What a caller hears of a lone speaker: over any run in which the speaker's packet queue does
  not overflow, the speaker's packets decoded in order are cut into frames, each filled up with
  silence, and what is played to the phone is, in order and between stretches of silence, the samples
  that were queued before and then what the ring accepted of each of these frames, its first
  samples: all of it unless the drop counter says otherwise.  What is not yet played is still in
  the ring or with the speaker.\<close>

theorem lone_speaker_reaches_phone:
  assumes "ring_laws R contents cap"
    and "md_ports s p = Some obj" and "po_pdata obj = Some ud"
    and "i = mumble_to_sip ud" and "i < length (md_rings s)"
    and "list_all well_asked es"
    and "mx_speakers m = [(k, sp)]" and "mx_sound_queue m = []"
    and "list_all (only_speaker k) (mix_events es)" and "n = frame_samples sample_rate"
    and "keeps_up decode n jitter (mix_events es) sp"
  shows "\<exists>mixed played m' s' frames sp' accepted audible.
    downlink R decode new_decoder sample_rate jitter p i es (m, s) = Some (mixed, played, m', s') \<and>
    mx_speakers m' = [(k, sp')] \<and>
    concat frames @ unheard decode sp' [] = unheard decode sp (packets_of k (mix_events es)) \<and>
    list_all (\<lambda>f. length f \<le> n) frames \<and>
    mixed = map (padded n) frames \<and> list_all2 prefix accepted mixed \<and>
    mx_dropped_samples m' =
      mx_dropped_samples m + of_nat (length (concat mixed) - length (concat accepted)) \<and>
    concat audible @ contents (md_rings s' ! i) = contents (md_rings s ! i) @ concat accepted \<and>
    list_all2 then_silence audible played"
proof -
  from downlink_accounts[OF assms(1-6)] obtain mixed played m' s' accepted audible where run:
    "downlink R decode new_decoder sample_rate jitter p i es (m, s) = Some (mixed, played, m', s')"
    "list_all2 prefix accepted mixed" "list_all2 then_silence audible played"
    "concat audible @ contents (md_rings s' ! i) = contents (md_rings s ! i) @ concat accepted"
    "mx_dropped_samples m' =
      mx_dropped_samples m + of_nat (length (concat mixed) - length (concat accepted))" by blast
  from lone_run[OF run(1) assms(7-9)] assms(10,11) run show ?thesis by blast
qed

definition example_mixer :: "unit mixer" where
  "example_mixer = (mixer_start 100)\<lparr>mx_speakers := [(1, loud_speaker 9)]\<rparr>"

definition example_request :: downlink_event where
  "example_request = Request \<lparr>fr_type = FRAME_TYPE_OTHER, fr_buf = Some [7], fr_size = 2\<rparr>"

lemma example_media_port:
  "\<exists>obj. md_ports example_media 1 = Some obj \<and> po_pdata obj = Some \<lparr>sip_to_mumble = 0, mumble_to_sip = 1\<rparr>"
  "length (md_rings example_media) = 2"
  by (simp_all add: example_media_def create_audio_buffers_def create_custom_port_def)

lemma phone_hears_the_mix_witness:
  "\<exists>mixed played m' s' accepted audible.
    downlink list_ring echo_decoder (\<lambda>_. Inr ()) 100 2 1 1 [Mix (Tick 0), example_request, example_request]
      (example_mixer, example_media) = Some (mixed, played, m', s') \<and>
    list_all2 prefix accepted mixed \<and> list_all2 then_silence audible played \<and> played = [[9], [0]]"
proof -
  obtain obj where obj: "md_ports example_media 1 = Some obj"
    "po_pdata obj = Some \<lparr>sip_to_mumble = 0, mumble_to_sip = 1\<rparr>" using example_media_port(1) by blast
  let ?es = "[Mix (Tick 0), example_request, example_request]"
  have es: "list_all well_asked ?es" by (simp add: well_asked_def example_request_def)
  have run: "\<exists>mixed m' s'. downlink list_ring echo_decoder (\<lambda>_. Inr ()) 100 2 1 1 ?es (example_mixer, example_media)
      = Some (mixed, [[9], [0]], m', s')"
    by (simp add: example_request_def example_mixer_def loud_speaker_def mixer_eval Let_def example_media_def
        create_audio_buffers_def create_custom_port_def port_get_frame_def handed_def clamp_i16_def)
  with phone_hears_the_mix[OF list_ring_laws obj _ _ es, of 1 echo_decoder "\<lambda>_. Inr ()" 100 2 example_mixer]
  show ?thesis by (fastforce simp: example_media_port(2))
qed

lemma lone_speaker_reaches_phone_witness:
  "\<exists>mixed played m' s' frames sp'.
    downlink list_ring echo_decoder (\<lambda>_. Inr ()) 100 2 1 1 [Mix (Packet 0 1 [5]), Mix (Tick 1), example_request]
      (example_mixer, example_media) = Some (mixed, played, m', s') \<and>
    concat frames @ unheard echo_decoder sp' [] = unheard echo_decoder (loud_speaker 9) [[5]]"
proof -
  obtain obj where obj: "md_ports example_media 1 = Some obj"
    "po_pdata obj = Some \<lparr>sip_to_mumble = 0, mumble_to_sip = 1\<rparr>" using example_media_port(1) by blast
  let ?es = "[Mix (Packet 0 1 [5]), Mix (Tick 1), example_request]"
  have es: "list_all well_asked ?es" "list_all (only_speaker 1) (mix_events ?es)"
    "packets_of 1 (mix_events ?es) = [[5]]"
    by (simp_all add: well_asked_def example_request_def)
  have m: "mx_speakers example_mixer = [(1, loud_speaker 9)]" "mx_sound_queue example_mixer = []"
    by (simp_all add: example_mixer_def mixer_start_def)
  have keep: "keeps_up echo_decoder (frame_samples 100) 2 (mix_events ?es) (loud_speaker 9)"
    by (simp add: mixer_eval loud_speaker_def stale_def example_request_def)
  from lone_speaker_reaches_phone[OF list_ring_laws obj _ _ es(1) m es(2) refl keep, of 1] es(3) show ?thesis
    by (fastforce simp: example_media_port(2))
qed

end
