(* ===== verification/Navigation.thy ===== *)
theory Navigation
  imports SessionEvents SessionRaces
begin

text \<open>
  Where the parts of a call believe the caller to be.  A DTMF digit changes the session, sets the watch
  and hands a join to the connection (\<^verbatim>\<open>on_dtmf_digit\<close>, \<^verbatim>\<open>src/session.rs\<close>); the event loop follows
  both the watch, which it looks at when the next event comes, and what the events report of the
  caller.  Which events come, and when, is the server's business: a run is any interleaving of
  digits and events.
\<close>

subsection \<open>Runs\<close>

record navigation =
  nv_session :: call_session
  nv_unseen :: bool
  nv_loop :: event_loop
  nv_running :: bool
  nv_joined :: "u32 list"

text \<open>\<open>Deliver\<close>: the event loop receives an event; the decoder queue and the text queue answer as given.\<close>

datatype nav_input =
    Press uchar bool
  | Deliver send_result bool mumble_event

text \<open>A digit: what it does to the session, and the join it hands to the connection.\<close>

definition nav_press :: "uchar \<Rightarrow> bool \<Rightarrow> navigation \<Rightarrow> navigation" where
  "nav_press digit join_ok s =
     (if digit = 42 \<or> digit = 35 then
        (let cs = navigate digit join_ok (nv_session s)
         in if join_ok
            then s\<lparr>nv_session := cs, nv_unseen := True, nv_joined := nv_joined s @ [cs_current_channel_id cs]\<rparr>
            else s\<lparr>nv_session := cs\<rparr>)
      else s)"

text \<open>An event: the loop looks at the watch first (\<open>has_changed\<close>).\<close>

definition nav_loop :: "u32 \<Rightarrow> bool \<Rightarrow> send_result \<Rightarrow> bool \<Rightarrow> mumble_event \<Rightarrow> navigation \<Rightarrow> navigation" where
  "nav_loop own tts decoder text_open ev s =
     (if \<not> nv_running s then s
      else
        (case event_step own tts
            \<lparr>su_watch = if nv_unseen s then Some (cs_channel_watch (nv_session s)) else None,
             su_decoder = decoder, su_text_open = text_open\<rparr> ev (nv_loop s) of
           (effects, running, loop) \<Rightarrow> s\<lparr>nv_loop := loop, nv_running := running, nv_unseen := False\<rparr>))"

fun nav_step :: "u32 \<Rightarrow> bool \<Rightarrow> nav_input \<Rightarrow> navigation \<Rightarrow> navigation" where
  "nav_step own tts (Press digit join_ok) s = nav_press digit join_ok s"
| "nav_step own tts (Deliver decoder text_open ev) s = nav_loop own tts decoder text_open ev s"

text \<open>A session as it is stored, its event loop just started.\<close>

definition nav_start :: "call_session \<Rightarrow> (u32, rstr) hashmap \<Rightarrow> navigation" where
  "nav_start cs names =
     \<lparr>nv_session = cs, nv_unseen = False,
      nv_loop = event_loop_start (cs_current_channel_id cs) names, nv_running = True, nv_joined = []\<rparr>"

text \<open>The channel the loop takes for the caller's when it handles its next event.\<close>

definition nav_view :: "navigation \<Rightarrow> u32" where
  "nav_view s = (if nv_unseen s then cs_channel_watch (nv_session s) else el_our_channel (nv_loop s))"

subsection \<open>The abstract views\<close>

text \<open>Two numbers: the channel the digits have counted to, and the channel heard of last, by a digit or by
  a report; and the joins that were sent.\<close>

record views =
  vw_counted :: nat
  vw_heard :: nat
  vw_joins :: "nat list"

definition own_move :: "u32 \<Rightarrow> mumble_event \<Rightarrow> u32 option" where
  "own_move own ev = (case ev of EvUserChangedChannel u ch \<Rightarrow> if u = own then Some ch else None | _ \<Rightarrow> None)"

fun view_step :: "u32 \<Rightarrow> nat \<Rightarrow> nav_input \<Rightarrow> views \<Rightarrow> views" where
  "view_step own highest (Press digit join_ok) v =
     (if join_ok \<and> digit \<in> {42, 35} then
        (let c = nav highest (vw_counted v) digit
         in \<lparr>vw_counted = c, vw_heard = c, vw_joins = vw_joins v @ [c]\<rparr>)
      else v)"
| "view_step own highest (Deliver _ _ ev) v =
     (case own_move own ev of None \<Rightarrow> v | Some ch \<Rightarrow> v\<lparr>vw_heard := unat ch\<rparr>)"

definition views_match :: "u32 \<Rightarrow> navigation \<Rightarrow> views \<Rightarrow> bool" where
  "views_match highest s v \<longleftrightarrow>
     cs_max_channel_id (nv_session s) = highest \<and> cs_current_channel_id (nv_session s) \<le> highest \<and>
     unat (cs_current_channel_id (nv_session s)) = vw_counted v \<and> map unat (nv_joined s) = vw_joins v \<and>
     (nv_running s \<longrightarrow> unat (nav_view s) = vw_heard v)"

lemma saturating_sub_le: "saturating_sub a b \<le> a"
  by (simp add: word_le_nat_alt unat_saturating_sub)

lemma navigate_joined:
  assumes "cs_current_channel_id cs \<le> cs_max_channel_id cs" and "cs' = navigate digit True cs"
  shows "cs_max_channel_id cs' = cs_max_channel_id cs \<and> cs_current_channel_id cs' \<le> cs_max_channel_id cs \<and>
    cs_channel_watch cs' = cs_current_channel_id cs'"
  using order_trans[OF saturating_sub_le assms(1)] unfolding assms(2)
  by (simp add: navigate_def Let_def)

lemma navigate_refused:
  assumes "cs' = navigate digit False cs"
  shows "cs_max_channel_id cs' = cs_max_channel_id cs \<and>
    cs_current_channel_id cs' = cs_current_channel_id cs \<and> cs_channel_watch cs' = cs_channel_watch cs"
  unfolding assms by (simp add: navigate_def Let_def)

lemma nav_press_match:
  assumes "views_match highest s v" and "highest \<noteq> - 1"
  shows "views_match highest (nav_press digit join_ok s) (view_step own (unat highest) (Press digit join_ok) v)"
proof (cases "digit = 42 \<or> digit = 35")
  case True
  define cs where "cs = navigate digit join_ok (nv_session s)"
  have press: "nav_press digit join_ok s =
    (if join_ok then s\<lparr>nv_session := cs, nv_unseen := True, nv_joined := nv_joined s @ [cs_current_channel_id cs]\<rparr>
     else s\<lparr>nv_session := cs\<rparr>)"
    using True by (simp add: nav_press_def cs_def Let_def)
  show ?thesis
  proof (cases join_ok)
    case join: True
    with cs_def have cs: "cs = navigate digit True (nv_session s)" by simp
    have ok: "cs_current_channel_id (nv_session s) \<le> cs_max_channel_id (nv_session s)"
      "cs_max_channel_id (nv_session s) \<noteq> - 1" using assms by (simp_all add: views_match_def)
    have "unat (cs_current_channel_id cs) = nav (unat highest) (vw_counted v) digit"
      using navigate_nav[OF ok True] assms(1) by (simp add: cs views_match_def)
    with navigate_joined[OF ok(1) cs] assms(1) join True show ?thesis unfolding press
      by (auto simp: views_match_def nav_view_def Let_def)
  next
    case False
    with cs_def have "cs = navigate digit False (nv_session s)" by simp
    from navigate_refused[OF this] assms(1) False show ?thesis unfolding press
      by (cases "nv_unseen s") (simp_all add: views_match_def nav_view_def)
  qed
qed (use assms(1) in \<open>simp add: nav_press_def\<close>)

lemma event_step_channel:
  "event_step own tts su ev st = (effects, running, st') \<Longrightarrow>
   el_our_channel st' =
     (case own_move own ev of Some ch \<Rightarrow> ch | None \<Rightarrow> (case su_watch su of Some w \<Rightarrow> w | None \<Rightarrow> el_our_channel st))"
  by (cases ev)
    (auto simp: event_step_def user_changed_channel_def user_disconnected_def own_move_def Let_def
      split: option.splits send_result.splits if_splits)

lemma nav_loop_match:
  assumes "views_match highest s v"
  shows "views_match highest (nav_loop own tts decoder text_open ev s)
    (view_step own n (Deliver decoder text_open ev) v)"
proof (cases "nv_running s")
  case True
  obtain effects running loop where step: "event_step own tts
      \<lparr>su_watch = if nv_unseen s then Some (cs_channel_watch (nv_session s)) else None,
       su_decoder = decoder, su_text_open = text_open\<rparr> ev (nv_loop s) = (effects, running, loop)"
    by (metis prod_cases3)
  have loop: "nav_loop own tts decoder text_open ev s =
      s\<lparr>nv_loop := loop, nv_running := running, nv_unseen := False\<rparr>"
    using True by (simp add: nav_loop_def step)
  from event_step_channel[OF step] assms True show ?thesis unfolding loop
    by (cases "own_move own ev"; cases "nv_unseen s") (simp_all add: views_match_def nav_view_def)
next
  case False
  with assms show ?thesis
    by (cases "own_move own ev") (simp_all add: nav_loop_def views_match_def)
qed

lemma nav_run_match:
  assumes "highest \<noteq> - 1"
  shows "views_match highest s v \<Longrightarrow>
    views_match highest (fold (nav_step own tts) inputs s) (fold (view_step own (unat highest)) inputs v)"
proof (induction inputs arbitrary: s v)
  case (Cons input inputs)
  have "views_match highest (nav_step own tts input s) (view_step own (unat highest) input v)"
    using nav_press_match[OF Cons.prems assms] nav_loop_match[OF Cons.prems]
    by (cases input) (simp_all only: nav_step.simps)
  from Cons.IH[OF this] show ?case by simp
qed simp

text \<open>C10. Session and event loop refine two numbers: whatever digits are pressed, whatever the server
  reports and however the two interleave, the session's channel is the one the accepted digits
  have counted to, the joins sent are the numbers counted through, and the loop, as long as it
  runs, places the caller in the channel heard of last, by a digit or by a report of the caller's own
  move, although it learns of digits only with the next event.\<close>

theorem channel_views_refine:
  assumes "cs_current_channel_id cs \<le> cs_max_channel_id cs" and "cs_max_channel_id cs \<noteq> - 1"
    and "s = fold (nav_step own tts) inputs (nav_start cs names)"
    and "c = unat (cs_current_channel_id cs)"
    and "v = fold (view_step own (unat (cs_max_channel_id cs))) inputs
      \<lparr>vw_counted = c, vw_heard = c, vw_joins = []\<rparr>"
  shows "unat (cs_current_channel_id (nv_session s)) = vw_counted v \<and>
    map unat (nv_joined s) = vw_joins v \<and>
    (nv_running s \<longrightarrow> unat (nav_view s) = vw_heard v)"
proof -
  have "views_match (cs_max_channel_id cs) (nav_start cs names) \<lparr>vw_counted = c, vw_heard = c, vw_joins = []\<rparr>"
    using assms(1,4) by (simp add: views_match_def nav_start_def nav_view_def event_loop_start_def)
  from nav_run_match[OF assms(2) this, of own tts inputs] assms(3,5) show ?thesis
    by (simp add: views_match_def)
qed

definition nav_session :: "u32 \<Rightarrow> u32 \<Rightarrow> call_session" where
  "nav_session current highest =
     \<lparr>cs_port = 0, cs_handles = [], cs_channel_watch = current, cs_sounds = [],
      cs_current_channel_id = current, cs_max_channel_id = highest, cs_caller_number = None,
      cs_server_host = []\<rparr>"

lemmas nav_eval = nav_start_def nav_session_def nav_press_def nav_loop_def nav_view_def
  navigate_def own_move_def event_step_def user_changed_channel_def user_disconnected_def event_loop_start_def

lemma channel_views_refine_witness:
  "unat (nav_view (fold (nav_step 9 False) [Press 35 True, Press 35 True, Deliver Sent True (EvUserChangedChannel 9 2),
      Press 42 True] (nav_start (nav_session 1 3) []))) = 2"
proof -
  let ?inputs = "[Press 35 True, Press 35 True, Deliver Sent True (EvUserChangedChannel 9 2), Press 42 True]"
  let ?s = "fold (nav_step 9 False) ?inputs (nav_start (nav_session 1 3) [])"
  let ?v = "fold (view_step 9 (unat (cs_max_channel_id (nav_session 1 3)))) ?inputs
    \<lparr>vw_counted = unat (cs_current_channel_id (nav_session 1 3)),
     vw_heard = unat (cs_current_channel_id (nav_session 1 3)), vw_joins = []\<rparr>"
  have start: "cs_current_channel_id (nav_session 1 3) \<le> cs_max_channel_id (nav_session 1 3)"
    "cs_max_channel_id (nav_session 1 3) \<noteq> - 1" by (simp_all add: nav_session_def)
  have "nv_running ?s" by (simp add: nav_eval Let_def)
  moreover have "vw_heard ?v = 2" by (simp add: nav_session_def own_move_def Let_def)
  moreover have "nv_running ?s \<longrightarrow> unat (nav_view ?s) = vw_heard ?v"
    using channel_views_refine[OF start refl refl refl, of 9 False ?inputs "[]"] by (elim conjE)
  ultimately show ?thesis by (simp only: simp_thms)
qed

subsection \<open>Disagreement\<close>

text \<open>A caller who is moved by someone else: the loop follows, the session does not.  The next \<open>#\<close>
  leads to the channel after the old one, and the old one is what the end of the call stores.\<close>

lemma moved_caller_navigates_from_old_channel:
  "let s = nav_step 9 False (Deliver Sent True (EvUserChangedChannel 9 7)) (nav_start (nav_session 2 9) [])
   in el_our_channel (nv_loop s) = 7 \<and> cs_current_channel_id (nv_session s) = 2 \<and>
      nv_joined (nav_press 35 True s) = [3]"
  by (simp add: nav_eval Let_def min_def)

text \<open>A join is counted when it is queued: if the server never reports a move, the session and, from
  the next event on, the loop are in the channel all the same.\<close>

lemma missing_channel_is_counted:
  "let s = fold (nav_step 9 False) [Press 35 True, Press 35 True, Deliver Sent True (EvUserDisconnected 4)]
        (nav_start (nav_session 1 5) [])
   in cs_current_channel_id (nv_session s) = 3 \<and> el_our_channel (nv_loop s) = 3"
  by (simp add: nav_eval Let_def min_def)

text \<open>Above the highest id there is none to wrap to, except that the addition itself wraps.\<close>

lemma highest_channel_wraps:
  "cs_current_channel_id (navigate 35 True (nav_session (- 1) (- 1))) = 0"
  by (simp add: navigate_def nav_session_def Let_def min_def)

end
