(* ===== verification/Regressions.thy ===== *)
theory Regressions
  imports Config TtsText TtsCache MumbleControl Callers Session
begin

text \<open>
  The unit tests of the repository (the \<^verbatim>\<open>tests\<close> modules under \<^verbatim>\<open>src/\<close>) on the model: each lemma bears the
  name of the test whose calls and assertions it repeats.  They hold of the code, so the definitions must
  agree with them; the tests that need a runtime of their own (spawned tasks, sleeps) are special
  cases of the theorems on the protocols and are left out.
\<close>

subsection \<open>Phrases\<close>

lemmas word_eval = normalize_text_token_for_tts_def split_token_affixes_def extract_url_host_def
  to_ascii_lowercase_def parse_host_from_bare_token_def parse_host_from_url_def host_part_def
  normalize_host_for_speech_def trim_def trim_start_def trim_end_by_def trim_matches_def strip_prefix_def
  is_valid_hostname_def is_valid_host_label_def hostname_for_speech_def is_leading_punctuation_def
  is_trailing_punctuation_def replace_char_def collapse_whitespace_def split_whitespace_def char_class_defs
  lit_def Let_def

text \<open>A message without markup, given what becomes of its words.\<close>

lemma analyze_tokens:
  assumes "60 \<notin> set raw" and "62 \<notin> set raw" and "38 \<notin> set raw"
    and "split_whitespace raw = words" and "map normalize_text_token_for_tts words = tokens"
  shows "analyze_text_message_for_tts raw =
    \<lparr>normalized_message = collapse_whitespace (join (lit '' '') (map fst tokens)),
     link_hosts_for_speech = List.map_filter snd tokens,
     non_link_token_count = length (filter (\<lambda>(t, h). h = None \<and> token_has_spoken_content t) tokens)\<rparr>"
  unfolding assms(5)[symmetric] assms(4)[symmetric]
  by (simp add: analyze_text_message_for_tts_def Let_def analyze_plain[OF assms(1-3)])

lemma announcement_phrase_uses_name_when_available:
  "channel_announcement_phrase (Some (lit ''SIP Calls'')) 7 = lit ''You are now in the SIP Calls channel''"
  by (simp add: channel_announcement_phrase_def word_eval)

lemma announcement_phrase_falls_back_to_id:
  "channel_announcement_phrase (Some (lit ''   '')) 42 = lit ''You are now in channel 42''"
  by (simp add: channel_announcement_phrase_def word_eval show_nat.simps)

lemma words_spoken:
  "normalize_text_token_for_tts (lit ''Please'') = (lit ''Please'', None)"
  "normalize_text_token_for_tts (lit ''check'') = (lit ''check'', None)"
  "normalize_text_token_for_tts (lit ''go'') = (lit ''go'', None)"
  "normalize_text_token_for_tts (lit ''hello'') = (lit ''hello'', None)"
  "normalize_text_token_for_tts (lit ''now'') = (lit ''now'', None)"
  "normalize_text_token_for_tts (lit ''review'') = (lit ''review'', None)"
  "normalize_text_token_for_tts (lit ''thanks!'') = (lit ''thanks!'', None)"
  "normalize_text_token_for_tts (lit ''there'') = (lit ''there'', None)"
  "normalize_text_token_for_tts (lit ''this:'') = (lit ''this:'', None)"
  "normalize_text_token_for_tts (lit ''to'') = (lit ''to'', None)"
  by (simp_all add: word_eval)

lemma links_spoken:
  "normalize_text_token_for_tts (lit ''https://alamode.dev'') =
    (lit ''alamode dot dev'', Some (lit ''alamode dot dev''))"
  "normalize_text_token_for_tts (lit ''www.alamode.dev'') =
    (lit ''alamode dot dev'', Some (lit ''alamode dot dev''))"
  "normalize_text_token_for_tts (lit ''alamode.dev/black/brie?legal=yes'') =
    (lit ''alamode dot dev'', Some (lit ''alamode dot dev''))"
  "normalize_text_token_for_tts (lit ''https://alamode.dev/black/brie?even=legal'') =
    (lit ''alamode dot dev'', Some (lit ''alamode dot dev''))"
  "normalize_text_token_for_tts (lit ''https://www.google.com/maps/place/Denver'') =
    (lit ''google dot com'', Some (lit ''google dot com''))"
  by (simp_all add: word_eval)

lemmas message_eval = lit_def split_whitespace_def collapse_whitespace_def is_whitespace_def
  sender_for_speech_def trim_def trim_start_def trim_end_by_def map_filter_simps token_has_spoken_content_def
  is_ascii_alphanumeric_def is_ascii_alphabetic_def is_ascii_lower_def

lemma text_message_phrase_includes_sender_name:
  "text_message_phrase (Some (lit ''Sam'')) (lit ''hello there'') =
    lit ''Sam says: hello there''"
proof -
  have "split_whitespace (lit ''hello there'') =
    [lit ''hello'', lit ''there'']" by (simp add: message_eval)
  from analyze_tokens[OF _ _ _ this, OF _ _ _ refl] words_spoken links_spoken show ?thesis
    unfolding text_message_phrase_def by (simp add: message_eval)
qed


lemma text_message_phrase_uses_default_sender_when_unknown:
  "text_message_phrase None (lit ''hello there'') =
    lit ''Someone says: hello there''"
proof -
  have "split_whitespace (lit ''hello there'') =
    [lit ''hello'', lit ''there'']" by (simp add: message_eval)
  from analyze_tokens[OF _ _ _ this, OF _ _ _ refl] words_spoken links_spoken show ?thesis
    unfolding text_message_phrase_def by (simp add: message_eval)
qed

lemma text_message_phrase_normalizes_https_url:
  "text_message_phrase (Some (lit ''Sam'')) (lit ''check https://alamode.dev'') =
    lit ''Sam says: check alamode dot dev''"
proof -
  have "split_whitespace (lit ''check https://alamode.dev'') =
    [lit ''check'', lit ''https://alamode.dev'']" by (simp add: message_eval)
  from analyze_tokens[OF _ _ _ this, OF _ _ _ refl] words_spoken links_spoken show ?thesis
    unfolding text_message_phrase_def by (simp add: message_eval)
qed

lemma text_message_phrase_normalizes_www_url:
  "text_message_phrase (Some (lit ''Sam'')) (lit ''check www.alamode.dev now'') =
    lit ''Sam says: check alamode dot dev now''"
proof -
  have "split_whitespace (lit ''check www.alamode.dev now'') =
    [lit ''check'', lit ''www.alamode.dev'', lit ''now'']" by (simp add: message_eval)
  from analyze_tokens[OF _ _ _ this, OF _ _ _ refl] words_spoken links_spoken show ?thesis
    unfolding text_message_phrase_def by (simp add: message_eval)
qed

lemma text_message_phrase_normalizes_bare_host_with_path_and_query:
  "text_message_phrase (Some (lit ''Sam'')) (lit ''go to alamode.dev/black/brie?legal=yes'') =
    lit ''Sam says: go to alamode dot dev''"
proof -
  have "split_whitespace (lit ''go to alamode.dev/black/brie?legal=yes'') =
    [lit ''go'', lit ''to'', lit ''alamode.dev/black/brie?legal=yes'']" by (simp add: message_eval)
  from analyze_tokens[OF _ _ _ this, OF _ _ _ refl] words_spoken links_spoken show ?thesis
    unfolding text_message_phrase_def by (simp add: message_eval)
qed

lemma text_message_phrase_preserves_mixed_sentence_text:
  "text_message_phrase (Some (lit ''Sam'')) (lit ''Please review this: https://alamode.dev/black/brie?even=legal thanks!'') =
    lit ''Sam says: Please review this: alamode dot dev thanks!''"
proof -
  have "split_whitespace (lit ''Please review this: https://alamode.dev/black/brie?even=legal thanks!'') =
    [lit ''Please'', lit ''review'', lit ''this:'', lit ''https://alamode.dev/black/brie?even=legal'', lit ''thanks!'']" by (simp add: message_eval)
  from analyze_tokens[OF _ _ _ this, OF _ _ _ refl] words_spoken links_spoken show ?thesis
    unfolding text_message_phrase_def by (simp add: message_eval)
qed

lemma text_message_phrase_uses_posted_link_wording_for_plain_link_message:
  "text_message_phrase (Some (lit ''Sam'')) (lit ''https://www.google.com/maps/place/Denver'') =
    lit ''Sam posted a link to google dot com''"
proof -
  have "split_whitespace (lit ''https://www.google.com/maps/place/Denver'') =
    [lit ''https://www.google.com/maps/place/Denver'']" by (simp add: message_eval)
  from analyze_tokens[OF _ _ _ this, OF _ _ _ refl] words_spoken links_spoken show ?thesis
    unfolding text_message_phrase_def by (simp add: message_eval)
qed

subsection \<open>Speech cache\<close>

lemma cache_state_updates_lru_order:
  "let c0 = cache_insert (lit ''a'') [1] cache_new;
       c1 = cache_insert (lit ''b'') [2] c0;
       c2 = snd (cache_get (lit ''a'') c1)
   in last (cache_order c2) = lit ''a''"
  by (simp add: cache_insert_def cache_get_def cache_new_def CACHE_CAPACITY_def lit_def hm_contains_def Let_def)

subsection \<open>Configuration\<close>

definition minimal_sip :: raw_sip where
  "minimal_sip =
     \<lparr>rsip_listen_port = Some 5060, rsip_account_uri = Some (lit ''sip:bridge@pbx.example.com''),
      rsip_registrar = None, rsip_username = None, rsip_password = None, rsip_max_concurrent_calls = None\<rparr>"

definition minimal_config :: raw_config where
  "minimal_config =
     \<lparr>raw_sip = Some minimal_sip,
      raw_mumble = Some \<lparr>rmum_default_host = Some (lit ''mumble.example.com''), rmum_port = None,
        rmum_password = None, rmum_channel = None, rmum_accept_invalid_cert = None\<rparr>,
      raw_audio = None, raw_tts = None, raw_database = None, raw_sms = None\<rparr>"

definition with_max_calls :: "u32 \<Rightarrow> raw_config" where
  "with_max_calls n =
     minimal_config\<lparr>raw_sip := Some (minimal_sip\<lparr>rsip_max_concurrent_calls := Some n\<rparr>)\<rparr>"

lemmas config_eval = minimal_config_def minimal_sip_def with_max_calls_def deserialize_def deserialize_sip_def
  deserialize_mumble_def deserialize_tts_def tts_section_default_def sms_section_default_def config_defaults
  validate_def validate_sip_def

lemma parses_tts_defaults_when_section_missing:
  "\<exists>parsed. deserialize minimal_config = Inr parsed \<and>
    cfg_tts parsed = \<lparr>tts_enabled = False, tts_host = lit ''127.0.0.1'', tts_port = 8000,
      tts_voice = lit ''eponine'', tts_announce_on_connect = True, tts_startup_timeout_ms = 20000,
      tts_request_timeout_ms = 3000, tts_announcement_debounce_ms = 750\<rparr> \<and>
    cfg_sms parsed = \<lparr>sms_enabled = False, sms_backend = lit ''sip'', sms_outbound = False\<rparr>"
  by (simp add: config_eval)

lemma parses_tts_overrides:
  "\<exists>parsed. deserialize (minimal_config\<lparr>raw_tts := Some
      \<lparr>rtts_enabled = Some True, rtts_host = Some (lit ''0.0.0.0''), rtts_port = Some 9000,
       rtts_voice = Some (lit ''alice''), rtts_announce_on_connect = Some False,
       rtts_startup_timeout_ms = Some 5000, rtts_request_timeout_ms = Some 1500,
       rtts_announcement_debounce_ms = Some 400\<rparr>\<rparr>) = Inr parsed \<and>
    cfg_tts parsed = \<lparr>tts_enabled = True, tts_host = lit ''0.0.0.0'', tts_port = 9000,
      tts_voice = lit ''alice'', tts_announce_on_connect = False, tts_startup_timeout_ms = 5000,
      tts_request_timeout_ms = 1500, tts_announcement_debounce_ms = 400\<rparr>"
  by (simp add: config_eval)

lemma validate_rejects_zero_max_concurrent_calls:
  "\<exists>parsed e. deserialize (with_max_calls 0) = Inr parsed \<and> validate parsed = Inl e"
  by (simp add: config_eval)

lemma validate_accepts_positive_max_concurrent_calls:
  "\<exists>parsed. deserialize (with_max_calls 1) = Inr parsed \<and> validate parsed = Inr ()"
  by (simp add: config_eval)

subsection \<open>Sender names\<close>

lemma resolves_sender_name_for_known_actor:
  "resolve_text_message_sender_name \<lparr>tm_actor = Some 12, tm_message = Some (lit ''hello'')\<rparr>
     (update_user_name_map \<lparr>us_session = Some 12, us_name = Some (lit ''Sam''), us_channel_id = None\<rparr> []) =
   Some (lit ''Sam'')"
  by (simp add: resolve_text_message_sender_name_def update_user_name_map_def message_eval)

lemma unknown_actor_has_no_sender_name:
  "resolve_text_message_sender_name \<lparr>tm_actor = Some 99, tm_message = Some (lit ''hello'')\<rparr> [] = None"
  by (simp add: resolve_text_message_sender_name_def)

lemma user_remove_clears_sender_mapping:
  "\<not> hm_contains 77 (remove_user_from_map 77 (hm_insert 77 (lit ''Alex'') []))"
  by (simp add: remove_user_from_map_def hm_contains_def)

subsection \<open>Caller store\<close>

text \<open>Whatever the generator yields first is free in an empty table.\<close>

lemma first_lookup:
  "get_or_create_caller NoFault now gen phone empty_db =
   Some (Inr \<lparr>ci_phone_number = phone, ci_nickname = generate_nickname (gen 0), ci_last_seen = now, ci_is_new = True\<rparr>,
     \<lparr>tbl_callers = [(phone, \<lparr>row_nickname = generate_nickname (gen 0), row_last_seen = now\<rparr>)], tbl_channels = []\<rparr>)"
  by (simp add: get_or_create_caller_def empty_db_def pick_nickname.simps[of _ _ _ 0] nickname_taken_def
      insert_caller_def)

lemma first_call_creates_nickname:
  assumes "gen 0 \<noteq> Some []"
  shows "\<exists>info db. get_or_create_caller NoFault now gen (lit ''5551234567'') empty_db = Some (Inr info, db) \<and>
    ci_phone_number info = lit ''5551234567'' \<and> ci_nickname info \<noteq> [] \<and> 45 \<notin> set (ci_nickname info)"
  using assms
  by (auto simp: first_lookup generate_nickname_no_hyphen)
    (auto simp: generate_nickname_def replace_char_eq_Nil lit_def split: option.splits)

lemma second_call_returns_same_nickname:
  "\<exists>a b db1 db2. get_or_create_caller NoFault now gen (lit ''5551234567'') empty_db = Some (Inr a, db1) \<and>
    get_or_create_caller NoFault now' gen' (lit ''5551234567'') db1 = Some (Inr b, db2) \<and>
    ci_nickname a = ci_nickname b"
  by (simp add: first_lookup) (simp add: get_or_create_caller_def)

lemma set_nickname_overrides:
  "\<exists>a b db1 db2 db3. get_or_create_caller NoFault now gen (lit ''5551234567'') empty_db = Some (Inr a, db1) \<and>
    set_nickname NoFault (lit ''5551234567'') (lit ''custom_name'') db1 = (Inr (), db2) \<and>
    get_or_create_caller NoFault now' gen' (lit ''5551234567'') db2 = Some (Inr b, db3) \<and>
    ci_nickname b = lit ''custom_name''"
  by (simp add: first_lookup set_nickname_def) (simp add: get_or_create_caller_def)

lemma set_and_get_last_channel_id:
  assumes "get_or_create_caller NoFault now gen phone empty_db = Some (Inr info, db)"
  shows "get_last_channel_id NoFault phone host db = Inr None"
    and "\<exists>db1 db2. set_last_channel_id True NoFault phone host 42 db = (Inr (), db1) \<and>
      get_last_channel_id NoFault phone host db1 = Inr (Some 42) \<and>
      set_last_channel_id True NoFault phone host 7 db1 = (Inr (), db2) \<and>
      get_last_channel_id NoFault phone host db2 = Inr (Some 7)"
  using assms by (auto simp: first_lookup get_last_channel_id_def set_last_channel_id_def)

lemma last_channel_is_per_server:
  assumes "get_or_create_caller NoFault now gen phone empty_db = Some (Inr info, db)" and "host \<noteq> other"
  shows "\<exists>db1 db2. set_last_channel_id True NoFault phone host 10 db = (Inr (), db1) \<and>
    set_last_channel_id True NoFault phone other 20 db1 = (Inr (), db2) \<and>
    get_last_channel_id NoFault phone host db2 = Inr (Some 10) \<and>
    get_last_channel_id NoFault phone other db2 = Inr (Some 20)"
  using assms by (auto simp: first_lookup get_last_channel_id_def set_last_channel_id_def)

subsection \<open>Pending setups\<close>

definition pending_setup :: "call_id \<Rightarrow> u64 \<Rightarrow> nat \<Rightarrow> sys" where
  "pending_setup call gen token = initial_sys\<lparr>pending_setups := hm_insert call (gen, token) []\<rparr>"

lemmas pending_eval = pending_setup_def initial_sys_def cancel_pending_setup_def remove_pending_setup_def

lemma cancel_pending_setup_cancels_token_but_preserves_entry:
  "let (found, s) = cancel_pending_setup 42 (pending_setup 42 0 3)
   in found \<and> 3 \<notin> set (cancelled (pending_setup 42 0 3)) \<and> 3 \<in> set (cancelled s) \<and> length (pending_setups s) = 1"
  by (simp add: pending_eval)

lemma cancel_pending_setup_returns_false_for_unknown_call:
  "\<not> fst (cancel_pending_setup 999 initial_sys)"
  by (simp add: pending_eval)

lemma remove_pending_setup_checks_generation:
  "let (wrong, s1) = remove_pending_setup 42 99 (pending_setup 42 5 3);
       (right, s2) = remove_pending_setup 42 5 s1
   in \<not> wrong \<and> length (pending_setups s1) = 1 \<and> right \<and> pending_setups s2 = []"
  by (simp add: pending_eval)

text \<open>The check that only the tests use.\<close>

definition owns_call_id :: "call_id \<Rightarrow> u64 \<Rightarrow> sys \<Rightarrow> bool" where
  "owns_call_id call gen s =
     (case hm_get (pending_setups s) call of Some (g, _) \<Rightarrow> g = gen | None \<Rightarrow> False)"

lemma owns_call_id_checks_generation:
  "owns_call_id 42 7 (pending_setup 42 7 3)" "\<not> owns_call_id 42 99 (pending_setup 42 7 3)"
  "\<not> owns_call_id 999 7 (pending_setup 42 7 3)"
  by (simp_all add: pending_eval owns_call_id_def)

text \<open>It answers what the removal of the entry would.\<close>

lemma owns_call_id_iff_removed: "owns_call_id call gen s \<longleftrightarrow> fst (remove_pending_setup call gen s)"
  by (auto simp: owns_call_id_def remove_pending_setup_def split: option.splits)

lemma stale_task_does_not_clobber_recycled_call_id:
  "let (_, s1) = cancel_pending_setup 5 (pending_setup 5 0 3);
       s2 = s1\<lparr>pending_setups := hm_insert 5 (1, 4) (pending_setups s1)\<rparr>;
       (_, s3) = remove_pending_setup 5 0 s2
   in \<not> owns_call_id 5 0 s2 \<and> owns_call_id 5 1 s3 \<and> 4 \<notin> set (cancelled s3)"
  by (simp add: pending_eval owns_call_id_def)

lemma pending_setups_count_toward_max_concurrent_calls:
  "\<not> admits (bridge_for 1) (pending_setup 100 0 3)"
  by (simp add: pending_eval admits_def bridge_for_def)

end
