(* ===== verification/BuildScript.thy ===== *)
theory BuildScript
  imports RustStr
begin

text \<open>
  \<^verbatim>\<open>pjsip-sys/build.rs\<close>: what the build script reads out of \<^verbatim>\<open>build.mak\<close> and of the compiler's
  output, when it builds pjproject, and what it tells cargo and bindgen.  Files, directories and
  the commands it runs are arguments.
\<close>

subsection \<open>Strings and paths\<close>

text \<open>\<open>str::lines\<close>: a line ends with a newline, with or without a carriage return before it.\<close>

definition strip_cr :: "rstr \<Rightarrow> rstr" where
  "strip_cr l = (if l \<noteq> [] \<and> last l = 13 then butlast l else l)"

definition lines :: "rstr \<Rightarrow> rstr list" where
  "lines s =
     (let ps = split_on ((=) 10) s
      in map strip_cr (butlast ps) @ (if last ps = [] then [] else [last ps]))"

definition split_once :: "rstr \<Rightarrow> rstr \<Rightarrow> (rstr \<times> rstr) option" where
  "split_once p s = map_option (\<lambda>i. (take i s, drop (i + length p) s)) (find_sub s p)"

definition contains_str :: "rstr \<Rightarrow> rstr \<Rightarrow> bool" where
  "contains_str s p \<longleftrightarrow> find_sub s p \<noteq> None"

text \<open>Joining a relative path.\<close>

definition path_join :: "rstr \<Rightarrow> string \<Rightarrow> rstr" where
  "path_join p q = (if p = [] \<or> last p = 47 then p @ lit q else p @ [47] @ lit q)"

text \<open>The extension of a file name: what follows the last dot, if something precedes it.\<close>

definition extension :: "rstr \<Rightarrow> rstr option" where
  "extension name =
     (let stem = rev (dropWhile (\<lambda>c. c \<noteq> 46) (rev name))
      in if length stem \<le> 1 \<or> name = lit ''..'' then None else Some (drop (length stem) name))"

subsection \<open>Reading build.mak\<close>

text \<open>The result is \<open>None\<close> when the script panics.\<close>

fun target_name_from :: "rstr list \<Rightarrow> rstr option" where
  "target_name_from [] = None"
| "target_name_from (line # ls) =
     (case strip_prefix (lit ''export TARGET_NAME'') line of
        None \<Rightarrow> target_name_from ls
      | Some rest \<Rightarrow>
          (let value = trim (dropWhile (\<lambda>c. c \<in> {32, 58, 61}) rest)
           in if value \<noteq> [] then Some value else target_name_from ls))"

definition discover_target_name :: "rstr option \<Rightarrow> rstr option" where
  "discover_target_name build_mak =
     (case build_mak of None \<Rightarrow> None | Some contents \<Rightarrow> target_name_from (lines contents))"

definition continues :: "rstr \<Rightarrow> bool" where
  "continues line \<longleftrightarrow> (let t = trim_end_by is_whitespace line in t \<noteq> [] \<and> last t = 92)"

definition cflags_piece :: "rstr \<Rightarrow> rstr" where
  "cflags_piece s = trim_end_by ((=) 92) (trim s) @ [32]"

fun cflags_from :: "bool \<Rightarrow> rstr \<Rightarrow> rstr list \<Rightarrow> rstr" where
  "cflags_from collecting cflags [] = cflags"
| "cflags_from False cflags (line # ls) =
     (case split_once (lit ''export APP_CFLAGS :='') line of
        None \<Rightarrow> cflags_from False cflags ls
      | Some (before, rest) \<Rightarrow>
          if continues line then cflags_from True (cflags @ cflags_piece rest) ls
          else cflags @ cflags_piece rest)"
| "cflags_from True cflags (line # ls) =
     (if continues line then cflags_from True (cflags @ cflags_piece line) ls
      else cflags @ cflags_piece line)"

definition pj_build_defines :: "rstr option \<Rightarrow> rstr list" where
  "pj_build_defines build_mak =
     (case build_mak of
        None \<Rightarrow> []
      | Some contents \<Rightarrow>
          filter (\<lambda>token. starts_with token (lit ''-D'')) (split_whitespace (cflags_from False [] (lines contents))))"

text \<open>The include directories gcc prints, if it could be run.\<close>

fun include_paths_from :: "bool \<Rightarrow> rstr list \<Rightarrow> rstr list" where
  "include_paths_from in_includes [] = []"
| "include_paths_from in_includes (line # ls) =
     (if contains_str line (lit ''#include <...> search starts here:'') then include_paths_from True ls
      else if contains_str line (lit ''End of search list.'') then []
      else if in_includes
        then (if trim line \<noteq> [] then (lit ''-isystem'' @ trim line) # include_paths_from in_includes ls
              else include_paths_from in_includes ls)
      else include_paths_from in_includes ls)"

definition gcc_system_include_paths :: "rstr option \<Rightarrow> rstr list" where
  "gcc_system_include_paths stderr =
     (case stderr of None \<Rightarrow> [] | Some out \<Rightarrow> include_paths_from False (lines out))"

text \<open>\<open>output\<close>: whether pkg-config succeeded, and what it printed if that is valid UTF-8.\<close>

definition opus_prefix :: "(bool \<times> rstr option) option \<Rightarrow> rstr" where
  "opus_prefix out =
     (case out of Some (True, Some stdout) \<Rightarrow> trim stdout | _ \<Rightarrow> lit ''/usr'')"

subsection \<open>Building pjproject\<close>

text \<open>The file system: what exists, the contents of a file, the entries of a directory.\<close>

record file_system =
  fs_exists :: "rstr \<Rightarrow> bool"
  fs_read :: "rstr \<Rightarrow> rstr option"
  fs_entries :: "rstr \<Rightarrow> (unit + rstr) list option"

definition is_built :: "file_system \<Rightarrow> rstr \<Rightarrow> bool" where
  "is_built fs dir =
     (if \<not> fs_exists fs (path_join dir ''build.mak'') then False
      else if \<not> fs_exists fs (path_join dir ''pjlib/lib'') then False
      else
        (case fs_entries fs (path_join dir ''pjlib/lib'') of
           None \<Rightarrow> False
         | Some entries \<Rightarrow>
             list_ex (\<lambda>entry. case entry of Inl _ \<Rightarrow> False | Inr name \<Rightarrow> extension name = Some (lit ''a'')) entries))"

datatype build_action =
    WriteFile rstr rstr
  | RunCommand rstr "rstr list"

definition nl :: "string \<Rightarrow> rstr" where
  "nl s = lit s @ [10]"

definition configure_actions :: "rstr \<Rightarrow> rstr \<Rightarrow> build_action list" where
  "configure_actions dir opus =
     [WriteFile (path_join dir ''pjlib/include/pj/config_site.h'')
        (nl ''/* Auto-generated by build.rs */'' @ nl ''#define PJ_HAS_SSL_SOCK 1'' @ nl ''#define PJMEDIA_HAS_VIDEO 0''),
      RunCommand (lit ''./configure'')
        (map lit [''--disable-video'', ''--disable-v4l2'', ''--disable-ffmpeg'', ''--disable-openh264'', ''--disable-vpx'',
           ''--disable-sdl'', ''--disable-libyuv'', ''--disable-libwebrtc'', ''--disable-pjsua2'', ''--disable-shared''] @
         [lit ''--with-opus='' @ opus] @
         map lit [''--disable-g7221-codec'', ''--disable-ilbc-codec'', ''--disable-bcg729'', ''--disable-lyra'',
           ''--disable-silk'', ''--disable-opencore-amr''])]"

definition make_actions :: "nat option \<Rightarrow> build_action list" where
  "make_actions parallelism =
     [RunCommand (lit ''make'') [lit ''dep''],
      RunCommand (lit ''make'') [lit ''-j'' @ show_nat (case parallelism of None \<Rightarrow> 1 | Some n \<Rightarrow> n)]]"

text \<open>The actions carried out until the first that fails, which is a panic.\<close>

fun run_actions :: "(build_action \<Rightarrow> bool) \<Rightarrow> build_action list \<Rightarrow> build_action list \<times> bool" where
  "run_actions succeeds [] = ([], True)"
| "run_actions succeeds (a # as) =
     (if succeeds a then (let (did, ok) = run_actions succeeds as in (a # did, ok)) else ([a], False))"

subsection \<open>Telling cargo and bindgen\<close>

definition lib_dirs :: "string list" where
  "lib_dirs = [''pjsip/lib'', ''pjmedia/lib'', ''pjnath/lib'', ''pjlib-util/lib'', ''pjlib/lib'', ''third_party/lib'']"

definition pj_libs :: "string list" where
  "pj_libs = [''pjsua'', ''pjsip-ua'', ''pjsip-simple'', ''pjsip'', ''pjmedia-codec'', ''pjmedia'', ''pjmedia-audiodev'',
     ''pjnath'', ''pjlib-util'', ''pj'']"

definition third_party_libs :: "string list" where
  "third_party_libs = [''srtp'', ''resample'', ''gsmcodec'', ''speex'', ''ilbccodec'', ''g7221codec'', ''webrtc'']"

definition system_libs :: "string list" where
  "system_libs = [''ssl'', ''crypto'', ''uuid'', ''m'', ''pthread'', ''asound'']"

definition include_dirs :: "string list" where
  "include_dirs = [''pjsip/include'', ''pjmedia/include'', ''pjnath/include'', ''pjlib-util/include'', ''pjlib/include'']"

definition archive_exists :: "file_system \<Rightarrow> rstr \<Rightarrow> rstr \<Rightarrow> string \<Rightarrow> bool" where
  "archive_exists fs dir target_name lib =
     fs_exists fs (path_join dir ''third_party/lib'' @ [47] @ lit ''lib'' @ lit lib @ lit ''-'' @ target_name @ lit ''.a'')"

definition link_lines :: "file_system \<Rightarrow> rstr \<Rightarrow> rstr \<Rightarrow> rstr list" where
  "link_lines fs dir target_name =
     map (\<lambda>d. lit ''cargo:rustc-link-search=native='' @ path_join dir d) lib_dirs @
     map (\<lambda>l. lit ''cargo:rustc-link-lib=static='' @ lit l @ lit ''-'' @ target_name)
       (pj_libs @ filter (archive_exists fs dir target_name) third_party_libs) @
     map (\<lambda>l. lit ''cargo:rustc-link-lib='' @ lit l) system_libs @
     [if archive_exists fs dir target_name ''opus''
      then lit ''cargo:rustc-link-lib=static=opus-'' @ target_name
      else lit ''cargo:rustc-link-lib=opus'']"

definition clang_args :: "file_system \<Rightarrow> rstr \<Rightarrow> rstr option \<Rightarrow> rstr option \<Rightarrow> rstr list" where
  "clang_args fs dir gcc target =
     [lit ''-xc''] @ gcc_system_include_paths gcc @
     (case target of None \<Rightarrow> [] | Some t \<Rightarrow> [lit ''--target='' @ t]) @
     pj_build_defines (fs_read fs (path_join dir ''build.mak'')) @
     map (\<lambda>d. lit ''-I'' @ path_join dir d) include_dirs @
     (if fs_exists fs (path_join dir ''pjlib/include/pj/config_site.h'')
      then [lit ''-I'' @ path_join dir ''pjlib/include''] else [])"

record bindgen_builder =
  bb_header :: rstr
  bb_allow_functions :: "string list"
  bb_allow_types :: "string list"
  bb_allow_vars :: "string list"
  bb_derive_debug :: bool
  bb_derive_default :: bool
  bb_detect_include_paths :: bool
  bb_clang_args :: "rstr list"

definition builder_for :: "file_system \<Rightarrow> rstr \<Rightarrow> rstr \<Rightarrow> rstr option \<Rightarrow> rstr option \<Rightarrow> bindgen_builder" where
  "builder_for fs manifest_dir dir gcc target =
     \<lparr>bb_header = path_join manifest_dir ''wrapper.h'',
      bb_allow_functions = [''pjsua_.*'', ''pjmedia_.*'', ''pjsip_.*'', ''pj_.*''],
      bb_allow_types = [''pjsua_.*'', ''pjmedia_.*'', ''pjsip_.*'', ''pj_.*''],
      bb_allow_vars = [''PJSUA_.*'', ''PJSIP_.*'', ''PJMEDIA_.*'', ''PJ_.*''],
      bb_derive_debug = True, bb_derive_default = True, bb_detect_include_paths = True,
      bb_clang_args = clang_args fs dir gcc target\<rparr>"

text \<open>The script: \<open>fs\<close> is the file system it finds, \<open>fs'\<close> the one after building, \<open>succeeds\<close> says which
  actions do, and \<open>bindgen\<close> gives the text of the bindings, if they can be made.  The result is what was
  done, what was printed, and whether the script ended without a panic.\<close>

definition build_main ::
  "file_system \<Rightarrow> file_system \<Rightarrow> rstr \<Rightarrow> rstr \<Rightarrow> (build_action \<Rightarrow> bool) \<Rightarrow> (bool \<times> rstr option) option \<Rightarrow> nat option \<Rightarrow>
     rstr option \<Rightarrow> rstr option \<Rightarrow> (bindgen_builder \<Rightarrow> rstr option) \<Rightarrow> build_action list \<times> rstr list \<times> bool" where
  "build_main fs fs' manifest_dir out_dir succeeds pkg_config parallelism gcc target bindgen =
     (let dir = path_join manifest_dir ''pjproject'';
          built = is_built fs dir;
          (did, ok) = (if built then ([], True)
            else run_actions succeeds (configure_actions dir (opus_prefix pkg_config) @ make_actions parallelism));
          now = (if built then fs else fs')
      in if \<not> ok then (did, [], False)
         else
           (case discover_target_name (fs_read now (path_join dir ''build.mak'')) of
              None \<Rightarrow> (did, [], False)
            | Some target_name \<Rightarrow>
                (case bindgen (builder_for now manifest_dir dir gcc target) of
                   None \<Rightarrow> (did, link_lines now dir target_name, False)
                 | Some bindings \<Rightarrow>
                     (let write = WriteFile (path_join out_dir ''bindings.rs'') bindings
                      in if succeeds write
                         then (did @ [write], link_lines now dir target_name @
                           [lit ''cargo:rerun-if-changed=wrapper.h'', lit ''cargo:rerun-if-changed=pjproject''], True)
                         else (did @ [write], link_lines now dir target_name, False)))))"

subsection \<open>Lines and words\<close>

lemma split_on_append:
  "P d \<Longrightarrow> split_on P (a @ d # b) = split_on P a @ split_on P b"
  by (induction a) (auto split: list.splits simp: append_eq_Cons_conv)

lemma words_append: "is_whitespace d \<Longrightarrow> split_whitespace (a @ d # b) = split_whitespace a @ split_whitespace b"
  by (simp add: split_whitespace_def split_on_append)

lemma words_blank_prefix: "\<forall>c \<in> set w. is_whitespace c \<Longrightarrow> split_whitespace (w @ s) = split_whitespace s"
  by (induction w) (simp_all add: split_whitespace_def)

lemma words_blank_suffix: "\<forall>c \<in> set w. is_whitespace c \<Longrightarrow> split_whitespace (s @ w) = split_whitespace s"
proof (cases w)
  case (Cons d w')
  assume "\<forall>c \<in> set w. is_whitespace c"
  with Cons words_append[of d s w'] words_blank_prefix[of w' "[]"] show ?thesis by (simp add: split_whitespace_def)
qed simp

lemma words_trim_start: "split_whitespace (trim_start s) = split_whitespace s"
proof -
  have "split_whitespace s = split_whitespace (takeWhile is_whitespace s @ dropWhile is_whitespace s)" by simp
  also have "\<dots> = split_whitespace (dropWhile is_whitespace s)"
    by (rule words_blank_prefix) (auto dest: set_takeWhileD)
  finally show ?thesis by (simp add: trim_start_def)
qed

lemma words_trim_end: "split_whitespace (trim_end_by is_whitespace s) = split_whitespace s"
proof -
  have "s = trim_end_by is_whitespace s @ rev (takeWhile is_whitespace (rev s))"
    unfolding trim_end_by_def by (metis rev_append rev_rev_ident takeWhile_dropWhile_id)
  moreover have "\<forall>c \<in> set (rev (takeWhile is_whitespace (rev s))). is_whitespace c" by (auto dest: set_takeWhileD)
  ultimately show ?thesis using words_blank_suffix by metis
qed

lemma words_trim: "split_whitespace (trim s) = split_whitespace s"
  by (simp add: trim_def words_trim_end words_trim_start)

text \<open>A file as lines that end with a newline, and the rest of it.\<close>

definition file_of :: "rstr list \<Rightarrow> rstr \<Rightarrow> rstr" where
  "file_of ls rest = concat (map (\<lambda>l. l @ [10]) ls) @ rest"

definition line_ok :: "rstr \<Rightarrow> bool" where
  "line_ok l \<longleftrightarrow> 10 \<notin> set l \<and> 13 \<notin> set l"

lemma lines_cons: "line_ok l \<Longrightarrow> lines (l @ 10 # s) = l # lines s"
proof -
  assume l: "line_ok l"
  then have "split_on ((=) 10) (l @ 10 # s) = l # split_on ((=) 10) s"
    using split_on_no_sep[of l "(=) 10"] by (subst split_on_append) (auto simp: line_ok_def)
  moreover have "strip_cr l = l" using l by (cases l rule: rev_cases) (auto simp: strip_cr_def line_ok_def)
  ultimately show ?thesis by (simp add: lines_def Let_def)
qed

lemma lines_file: "\<forall>l \<in> set ls. line_ok l \<Longrightarrow> lines (file_of ls rest) = ls @ lines rest"
  by (induction ls) (simp_all add: file_of_def lines_cons)

subsection \<open>What is found in build.mak\<close>

lemma target_name_skip:
  "\<forall>l \<in> set ls. \<not> starts_with l (lit ''export TARGET_NAME'') \<Longrightarrow> target_name_from (ls @ ls') = target_name_from ls'"
  by (induction ls) (simp_all add: strip_prefix_def)

text \<open>The name of the target is found wherever \<^verbatim>\<open>build.mak\<close> assigns it, with \<open>:=\<close> or \<open>=\<close> and any
  spaces between, whatever follows.\<close>

theorem target_name_found:
  assumes "\<forall>l \<in> set before. line_ok l \<and> \<not> starts_with l (lit ''export TARGET_NAME'')"
    and "\<forall>c \<in> set sep. c \<in> {32, 58, 61}" and "line_ok name" and "name \<noteq> []"
    and "hd name \<notin> {58, 61}" and "\<not> is_whitespace (hd name)" and "\<not> is_whitespace (last name)"
  shows "discover_target_name (Some (file_of (before @ [lit ''export TARGET_NAME'' @ sep @ name]) rest)) = Some name"
proof -
  have "line_ok (lit ''export TARGET_NAME'')" by (simp add: line_ok_def lit_def)
  with assms(2,3) have "line_ok (lit ''export TARGET_NAME'' @ sep @ name)" by (auto simp: line_ok_def)
  with assms(1) have lines: "lines (file_of (before @ [lit ''export TARGET_NAME'' @ sep @ name]) rest) =
      before @ (lit ''export TARGET_NAME'' @ sep @ name) # lines rest"
    by (subst lines_file) auto
  have "hd name \<notin> {32, 58, 61}" using assms(5,6) by (auto simp: is_whitespace_def)
  with assms(4) have "dropWhile (\<lambda>c. c \<in> {32, 58, 61}) name = name" by (cases name) auto
  with assms(2) have "dropWhile (\<lambda>c. c \<in> {32, 58, 61}) (sep @ name) = name"
    by (subst dropWhile_append2) blast+
  moreover have "trim name = name" using assms(6,7) by (intro trim_id) simp
  moreover have "strip_prefix (lit ''export TARGET_NAME'') (lit ''export TARGET_NAME'' @ sep @ name) = Some (sep @ name)"
    by (simp add: strip_prefix_Some)
  ultimately show ?thesis
    using assms(1,4) by (simp add: discover_target_name_def lines target_name_skip)
qed

text \<open>A piece of the assignment contributes its words.\<close>

lemma trim_backslash:
  assumes "92 \<notin> set s"
  shows "cflags_piece (s @ [92]) = trim_start s @ [32]" and "cflags_piece s = trim s @ [32]"
proof -
  have ws: "\<not> is_whitespace 92" by (simp add: is_whitespace_def)
  have "92 \<notin> set (trim_start s)" using assms by (auto simp: trim_start_def dest: set_dropWhileD)
  then have "trim_end_by ((=) 92) (trim_start s) = trim_start s"
    by (intro trim_end_by_id) (metis last_in_set)
  moreover have "trim_start (s @ [92]) = trim_start s @ [92]"
    by (induction s) (simp_all add: trim_start_def ws)
  moreover have "trim_end_by is_whitespace (x @ [92]) = x @ [92]" for x
    by (rule trim_end_by_id) (simp add: ws)
  ultimately show "cflags_piece (s @ [92]) = trim_start s @ [32]"
    by (simp add: cflags_piece_def trim_def trim_end_by_def)
  have "92 \<notin> set (trim s)" using assms set_trim[of s] by blast
  then show "cflags_piece s = trim s @ [32]"
    unfolding cflags_piece_def by (subst trim_end_by_id) (metis last_in_set, simp)
qed

text \<open>The flags read so far are empty or end with a space.\<close>

definition open_end :: "rstr \<Rightarrow> bool" where
  "open_end w \<longleftrightarrow> w = [] \<or> last w = 32"

lemma words_open_end: "open_end w \<Longrightarrow> split_whitespace (w @ t @ [32]) = split_whitespace w @ split_whitespace t"
proof -
  assume w: "open_end w"
  have sp: "is_whitespace 32" by (simp add: is_whitespace_def)
  have blank: "split_whitespace (x @ [32]) = split_whitespace x" for x
    using words_blank_suffix[of "[32]" x] sp by simp
  show ?thesis
  proof (cases w rule: rev_cases)
    case Nil
    then show ?thesis using blank by (simp add: split_whitespace_def)
  next
    case (snoc w' x)
    with w have "w = w' @ [32]" by (simp add: open_end_def)
    then show ?thesis using words_append[OF sp, of w' "t @ [32]"] blank by simp
  qed
qed

lemma open_end_piece [simp]: "open_end (w @ cflags_piece t)"
  by (simp add: open_end_def cflags_piece_def)

lemma words_piece:
  assumes "92 \<notin> set s" and "open_end w"
  shows "split_whitespace (w @ cflags_piece (s @ [92])) = split_whitespace w @ split_whitespace s"
    and "split_whitespace (w @ cflags_piece s) = split_whitespace w @ split_whitespace s"
  unfolding trim_backslash[OF assms(1)] words_open_end[OF assms(2)] words_trim_start words_trim by simp_all

lemma continues_backslash: "continues (s @ [92])" "92 \<notin> set s \<Longrightarrow> \<not> continues s"
proof -
  have "trim_end_by is_whitespace (s @ [92]) = s @ [92]"
    by (rule trim_end_by_id) (simp add: is_whitespace_def)
  then show "continues (s @ [92])" by (simp add: continues_def)
  show "\<not> continues s" if "92 \<notin> set s"
    using that set_trim_end_by[of is_whitespace s] by (auto simp: continues_def Let_def dest: last_in_set)
qed

text \<open>The lines of an assignment that is continued over several lines.\<close>

fun continued :: "rstr list \<Rightarrow> rstr list" where
  "continued [] = []"
| "continued [s] = [s]"
| "continued (s # segs) = (s @ [92]) # continued segs"

lemma cflags_continued:
  "segs \<noteq> [] \<Longrightarrow> \<forall>s \<in> set segs. 92 \<notin> set s \<Longrightarrow> open_end w \<Longrightarrow>
     split_whitespace (cflags_from True w (continued segs @ ls)) =
     split_whitespace w @ concat (map split_whitespace segs)"
  by (induction segs arbitrary: w rule: continued.induct)
    (simp_all add: words_piece continues_backslash)

lemma find_sub_prefix: "find_sub (p @ s) p = Some 0"
proof (cases "p @ s")
  case (Cons c t)
  have "starts_with (p @ s) p" by (simp add: starts_with_iff)
  with Cons show ?thesis by simp
qed simp

lemma continued_ok: "\<forall>s \<in> set segs. line_ok s \<Longrightarrow> list_all line_ok (continued segs)"
  by (induction segs rule: continued.induct) (simp_all add: line_ok_def)

lemma continues_append: "continues (p @ s) \<longleftrightarrow> continues s \<or> (\<forall>c \<in> set s. is_whitespace c) \<and> continues p"
  by (auto simp: continues_def trim_end_by_def dropWhile_append Let_def dropWhile_eq_Nil_conv last_rev hd_append)

text \<open>C40. The preprocessor definitions are exactly the words that start with \<open>-D\<close> of the flags assigned
  in \<^verbatim>\<open>build.mak\<close>, in order, over however many continued lines the assignment goes.\<close>

theorem build_defines_found:
  assumes "\<forall>l \<in> set before. line_ok l \<and> find_sub l (lit ''export APP_CFLAGS :='') = None"
    and "\<forall>s \<in> set segs. line_ok s \<and> 92 \<notin> set s" and "segs \<noteq> []"
    and "continued segs = first # others"
  shows "pj_build_defines (Some (file_of (before @ (lit ''export APP_CFLAGS :='' @ first) # others) rest)) =
    filter (\<lambda>t. starts_with t (lit ''-D'')) (concat (map split_whitespace segs))"
proof -
  let ?p = "lit ''export APP_CFLAGS :=''"
  have ok: "list_all line_ok (first # others)" using continued_ok[of segs] assms(2,4) by simp
  have p: "line_ok ?p" "92 \<notin> set ?p" by (simp_all add: line_ok_def lit_def)
  have lines: "lines (file_of (before @ (?p @ first) # others) rest) = before @ (?p @ first) # others @ lines rest"
    using assms(1) ok p(1) by (subst lines_file) (auto simp: line_ok_def list_all_iff)
  have skip: "cflags_from False w (before @ ls) = cflags_from False w ls" for w ls
    using assms(1) by (induction before) (simp_all add: split_once_def)
  have "find_sub (?p @ first) ?p = Some 0" by (rule find_sub_prefix)
  then have "split_once ?p (?p @ first) = Some ([], first)" by (simp add: split_once_def)
  moreover have "continues (?p @ first) = continues first" using continues_backslash(2)[OF p(2)] by (simp add: continues_append)
  ultimately have "cflags_from False [] ((?p @ first) # ls) = cflags_from True [] (first # ls)" for ls by simp
  with skip lines cflags_continued[of segs "[]" "lines rest"] assms(2,3) show ?thesis
    by (simp add: pj_build_defines_def assms(4) open_end_def split_whitespace_def)
qed


lemma target_name_found_witness:
  "discover_target_name (Some (file_of [lit ''export CC := gcc'', lit ''export TARGET_NAME'' @ lit '' := '' @ lit ''x86_64''] (lit ''all:'')))
    = Some (lit ''x86_64'')"
  using target_name_found[of "[lit ''export CC := gcc'']" "lit '' := ''" "lit ''x86_64''" "lit ''all:''"]
  by (simp add: line_ok_def lit_def is_whitespace_def)

lemma build_defines_found_witness:
  "pj_build_defines (Some (file_of [lit ''all:'', lit ''export APP_CFLAGS :='' @ lit '' -DA -O2'' @ [92], lit '' -DB=1''] []))
    = [lit ''-DA'', lit ''-DB=1'']"
proof -
  have "filter (\<lambda>t. starts_with t (lit ''-D'')) (concat (map split_whitespace [lit '' -DA -O2'', lit '' -DB=1''])) =
      [lit ''-DA'', lit ''-DB=1'']"
    by (simp add: lit_def split_whitespace_def is_whitespace_def)
  moreover have "find_sub (lit ''all:'') (lit ''export APP_CFLAGS :='') = None" by (simp add: lit_def)
  ultimately show ?thesis
    using build_defines_found[of "[lit ''all:'']" "[lit '' -DA -O2'', lit '' -DB=1'']" "lit '' -DA -O2'' @ [92]"
        "[lit '' -DB=1'']" "[]"]
    by (simp add: line_ok_def lit_def)
qed

subsection \<open>Builds that were interrupted\<close>

text \<open>\<^verbatim>\<open>make\<close> builds pjlib first.  When it fails after that, the next run of the script finds one archive,
  takes everything for built and does nothing, so the libraries that are missing stay missing.\<close>

lemma interrupted_build_is_kept:
  assumes "dir = path_join manifest_dir ''pjproject''"
    and "fs_exists fs (path_join dir ''build.mak'')" and "fs_exists fs (path_join dir ''pjlib/lib'')"
    and "fs_entries fs (path_join dir ''pjlib/lib'') = Some [Inr (lit ''libpj.a'')]"
    and "build_main fs fs' manifest_dir out_dir succeeds pkg_config parallelism gcc target bindgen = (did, out, ok)"
  shows "RunCommand program arguments \<notin> set did"
proof -
  have "extension (lit ''libpj.a'') = Some (lit ''a'')" by (simp add: extension_def lit_def)
  then have "is_built fs dir" using assms(2-4) by (simp add: is_built_def)
  with assms(1,5) show ?thesis by (auto simp: build_main_def Let_def split: option.splits if_splits)
qed

end
