(* ===== verification/Spec2Isabelle.thy ===== *)
theory Spec2Isabelle
  imports TtsProtocol SessionEvents SessionRaces WavFiles Lifecycle CallerTasks Uplink Downlink Navigation Regressions BuildScript
begin

text \<open>
  \<^bold>\<open>mumble-sip\<close> bridges SIP telephone calls to Mumble voice servers.  A call that pjsip announces is
  answered, its caller is looked up in a SQLite store, a Mumble client is connected under the
  caller's nickname, and until one side hangs up PCM flows both ways: pjsip's media thread and the audio tasks
  meet in two ring buffers, the encoder turns the phone's samples into Opus packets for Mumble, the
  mixer turns the packets of all Mumble speakers and the sound effects into one stream for the
  phone.  DTMF digits move the caller between channels; channel changes and text messages are
  spoken by a text-to-speech service.  This library models the Rust code under \<^verbatim>\<open>src/\<close> and
  the build script under \<^verbatim>\<open>pjsip-sys/\<close>.

  \<^bold>\<open>Theories and code.\<close>
    \<^item> \<open>Prelude\<close>, \<open>Machines\<close>, \<open>RustStr\<close>, \<open>HashMap\<close>, \<open>Floats\<close>: integer types and casts, runs of step
      functions and their invariants, the parts of \<^verbatim>\<open>str\<close>, \<^verbatim>\<open>HashMap\<close>, \<^verbatim>\<open>f32\<close> and \<^verbatim>\<open>f64\<close> that the program uses.
    \<^item> \<open>Config\<close> (\<^verbatim>\<open>config.rs\<close>): the sections as records, serde's defaults (\<open>deserialize\<close>), \<open>validate\<close>.
    \<^item> \<open>Callers\<close>, \<open>CallerTasks\<close> (\<^verbatim>\<open>db.rs\<close>): the two tables as association lists; each trait method as
      one operation, and the lookup again statement by statement (\<open>goc_step\<close>) under interleaving.
    \<^item> \<open>TtsCache\<close>, \<open>TtsRuntime\<close>, \<open>TtsProtocol\<close>, \<open>TtsText\<close>, \<open>WavFiles\<close> (\<^verbatim>\<open>audio/tts.rs\<close>, \<^verbatim>\<open>audio/sounds.rs\<close>):
      the phrase cache, availability and retries, the protocol that shares one synthesis among its
      requests (\<open>request_step\<close>, \<open>background_step\<close>), the phrases and what is made of links and HTML, the WAV
      files that are repaired, decoded and resampled.
    \<^item> \<open>Callbacks\<close> (\<^verbatim>\<open>sip/callbacks.rs\<close>): the registries shared with pjsip's threads (\<open>sip_state\<close>) and
      the callbacks, the media callback as the machine \<open>media_step\<close>.
    \<^item> \<open>AudioPort\<close> (\<^verbatim>\<open>sip/media_port.rs\<close>), \<open>AudioBridge\<close> (\<^verbatim>\<open>audio/bridge.rs\<close>), \<open>AudioPath\<close>, \<open>Uplink\<close>,
      \<open>Downlink\<close>: rings and frame callbacks, the encoder with its gate and the mixer; composed, the
      paths from the phone's frames over ring, encoder and forwarder to the wire and from a speaker's
      packets over mixer and ring to the frames the phone is given.
    \<^item> \<open>MumbleControl\<close> (\<^verbatim>\<open>mumble/control.rs\<close>): handshake, receive and send tasks, sender handle.
    \<^item> \<open>Session\<close> (\<^verbatim>\<open>session.rs\<close>, the loop of \<^verbatim>\<open>main.rs\<close>): \<open>sys\<close> extends \<open>sip_state\<close> by the fields of
      \<^verbatim>\<open>SessionManager\<close> and the program counters of the setups, the main loop and the callback
      threads; \<open>sys_step\<close> takes one step of one of them, so \<open>sys_run\<close> over a list of
      events is an interleaving and \<open>reachable\<close> quantifies over all of them.  \<open>SessionSafety\<close>,
      \<open>SessionProtocol\<close> and \<open>SessionRaces\<close> hold what is proved of it.
    \<^item> \<open>SessionEvents\<close> (\<^verbatim>\<open>session.rs\<close>): the event, announcement, text and voice tasks of a connected call.
    \<^item> \<open>Navigation\<close>: a session and its event loop under any sequence of digits and events
      (\<open>nav_step\<close>); what the server does with a join is left open.
    \<^item> \<open>Lifecycle\<close> (\<^verbatim>\<open>main.rs\<close>, \<^verbatim>\<open>sip/mod.rs\<close>): start-up, the calls to pjsua, drain and final flush.
    \<^item> \<open>BuildScript\<close> (\<^verbatim>\<open>pjsip-sys/build.rs\<close>).
    \<^item> \<open>Regressions\<close>: the repository's unit tests, repeated on the model.

  \<^bold>\<open>What is shown.\<close>
    \<^item> Resources: \<open>owned\<close> counts every place that is responsible for a port or pool; no interleaving of
      setups, teardowns, callbacks and deferred threads destroys one twice.  Setup protocol: generations
      protect recycled call ids, a cancelled setup stores no session and ends within a bounded
      number of steps.  Shutdown: when drain and flush end in time, the store holds the channels of all
      calls, by the write that finished last.
    \<^item> Speech: one synthesis per phrase, answers are what the service returned for that phrase,
      waiters are answered, the cache refines a bounded recency list.
    \<^item> Audio: the gate against its reference, exact thresholds and sums in spite of rounding and
      wrap-around, bounds of the mixer; from the phone to the encoder and from the mixer to the phone
      no sample lost, repeated or reordered in any interleaving of the two threads; order on the wire.
    \<^item> Navigation: digits as bounded counting; session and event loop refine two numbers, the channel counted
      to and the channel heard of last.  A returning caller rejoins a channel that still exists.
    \<^item> Text and files: hosts recovered from links, verbatim messages, repaired WAV files, definitions
      found in \<^verbatim>\<open>build.mak\<close>.  Store: who is given which nickname, tables, interleaved lookups; one caller
      number for all spellings of a telephone number.
    \<^item> Where the code does not do what its comments say, a lemma exhibits the run or the input:
      \<open>SessionRaces\<close>, \<open>CallerTasks\<close>, \<open>Navigation\<close>, and lemmas next to the component concerned.

  \<^bold>\<open>Interfaces.\<close>  Locales state the contracts of the store (\<open>caller_store\<close>), of the cache
  (\<open>bounded_cache\<close>) and of invariants (\<open>invariant_machine\<close>, \<open>relative_invariant\<close>); each is interpreted on the
  model's definitions.  Libraries the code calls are arguments: the Opus codec, \<^verbatim>\<open>ringbuf\<close> (\<open>ring_laws\<close>
  states its documentation), \<^verbatim>\<open>hound\<close>, pjsua's answers, HTTP exchanges, SQL statements that fail.

  \<^bold>\<open>Loops.\<close>  Loops over data are structural recursion, or recursion with a measure (\<open>repair_chunks\<close> by what is left
  of the file).  The nickname loop may not end, so \<open>pick_nickname\<close> is a partial function in the option type, and
  \<open>get_or_create_caller_diverges_iff\<close> says exactly when it does not.  Tasks are machines without
  fuel; that they finish is proved from the number of their own steps, with any steps of
  others between: five steps of a background task answer a waiter, fifteen end a cancelled setup.

  \<^bold>\<open>Not modelled.\<close>  Sockets, TLS, protocol encoding, Opus, pjsip, SQLite, TOML and HTTP themselves: they are
  libraries.  Infinite, NaN and subnormal floating-point values: samples and rates do not produce them.  Logging, including
  \<^verbatim>\<open>log_available_codecs\<close>.  \<^verbatim>\<open>sms/mod.rs\<close>: a trait without an implementation.  The generated
  bindings, and the tests that spawn tasks of their own.  Time is an argument where the code measures it; the wall-clock
  length of a tick is not.
\<close>

section \<open>Properties that span components\<close>

subsection \<open>Configuration and admission\<close>

text \<open>A configuration that \<open>validate\<close> accepts lets the first call in: the check of the initial
  state admits it, and it never asks for an empty frame queue.\<close>

theorem validated_config_admits:
  assumes "validate cfg = Inr ()"
  shows "admits cfg initial_sys"
  using assms by (simp add: validate_iff admits_def initial_sys_def word_less_nat_alt)

lemma validated_config_admits_witness: "admits (bridge_for 1) initial_sys"
  by (rule validated_config_admits) (simp add: validate_iff bridge_for_def)

subsection \<open>Returning callers\<close>

text \<open>C12. A caller who calls again is given the nickname of the first call and rejoins the channel
  in which the last call to that server was hung up, provided that the channel still exists, that is
  the server has announced it by the time the new call is connected, and whatever the store was asked in between
  that does not write this caller's channel on that server.\<close>

theorem returning_caller_rejoins:
  assumes "get_or_create_caller fault now gen phone db = Some (Inr info, db1)"
    and "cs_caller_number cs = Some phone"
    and "last (pending_writes (persist_last_channel cs s)) = w"
    and "set_last_channel_id True NoFault (pw_phone w) (pw_host w) (pw_channel w) db1 = (Inr (), db2)"
    and "run_store sqlite_goc (set_last_channel_id True) calls db2 = Some db3"
    and "\<forall>c \<in> set calls. \<not> touches phone (cs_server_host cs) c"
    and "get_or_create_caller fault' now' gen' phone db3 = Some (Inr info', db4)"
    and "connect key_size nonce_size mumble_cfg resolved tcp tls send_ok stream = Inr (client, sent)"
    and "hm_get (cl_channel_names client) (cs_current_channel_id cs) \<noteq> None"
  shows "fst (caller_identity cfg (Some phone) (Inr info')
      (get_last_channel_id NoFault phone (cs_server_host cs) db4) t g) = ci_nickname info \<and>
    rejoin_channel (fst (snd (caller_identity cfg (Some phone) (Inr info')
      (get_last_channel_id NoFault phone (cs_server_host cs) db4) t g)))
      (cl_channel_id client) (cl_max_channel_id client) True = cs_current_channel_id cs"
proof -
  let ?h = "cs_server_host cs" and ?ch = "cs_current_channel_id cs"
  have w: "pw_phone w = phone" "pw_host w = ?h" "pw_channel w = ?ch"
    using assms(2,3) by (auto simp: persist_last_channel_def)
  let ?calls = "CallSetLast NoFault phone ?h ?ch # calls"
  have "run_store sqlite_goc (set_last_channel_id True) ?calls db1 = Some db3"
    using assms(4,5) w by simp
  from sqlite.same_nickname_after[of "(fault, now, gen)" phone db info db1, OF _ this,
      of "(fault', now', gen')" info' db4]
  have "ci_nickname info' = ci_nickname info"
    by (simp add: sqlite_goc_def assms(1,7))
  moreover have "get_last_channel_id NoFault phone ?h db4 = get_last_channel_id NoFault phone ?h db3"
    using goc_channels[OF assms(7)] by (simp add: get_last_channel_id_def)
  moreover have "get_last_channel_id NoFault phone ?h db3 = Inr (Some ?ch)"
  proof -
    obtain ch where ch: "get_last_channel_id NoFault phone ?h db3 = Inr ch"
      by (simp add: get_last_channel_id_def)
    from sqlite.last_channel_read_back[OF assms(4)[unfolded w] assms(6,5) ch] ch show ?thesis by simp
  qed
  ultimately show ?thesis
    using announced_channel_le_max[OF assms(8,9)]
    by (simp add: caller_identity_def rejoin_channel_def)
qed

lemma returning_caller_rejoins_witness:
  "let db = \<lparr>tbl_callers = [(lit ''5'', \<lparr>row_nickname = lit ''a_b'', row_last_seen = 100\<rparr>)], tbl_channels = []\<rparr>;
       cs = \<lparr>cs_port = 0, cs_handles = [], cs_channel_watch = 7, cs_sounds = [], cs_current_channel_id = 7,
             cs_max_channel_id = 9, cs_caller_number = Some (lit ''5''), cs_server_host = lit ''h''\<rparr>
   in \<exists>info' db4 client sent.
      get_or_create_caller NoFault 900 (\<lambda>k. None) (lit ''5'')
        (snd (set_last_channel_id True NoFault (lit ''5'') (lit ''h'') 7 db)) = Some (Inr info', db4) \<and>
      connect 16 16 example_mumble_config True True True (\<lambda>_. True)
        [Inr (named_channel 7 (lit ''Den'')), Inr (ServerSync (Some 9))] = Inr (client, sent) \<and>
      cl_channel_id client \<noteq> 7 \<and>
      rejoin_channel (fst (snd (caller_identity (bridge_for 1) (Some (lit ''5'')) (Inr info')
        (get_last_channel_id NoFault (lit ''5'') (lit ''h'') db4) 900 [])))
        (cl_channel_id client) (cl_max_channel_id client) True = 7"
proof -
  let ?db = "\<lparr>tbl_callers = [(lit ''5'', \<lparr>row_nickname = lit ''a_b'', row_last_seen = 100\<rparr>)], tbl_channels = []\<rparr>"
  let ?cs = "\<lparr>cs_port = 0, cs_handles = [], cs_channel_watch = 7, cs_sounds = [], cs_current_channel_id = 7,
             cs_max_channel_id = 9, cs_caller_number = Some (lit ''5''), cs_server_host = lit ''h''\<rparr>"
  let ?i = "\<lparr>ci_phone_number = lit ''5'', ci_nickname = lit ''a_b'', ci_last_seen = 100, ci_is_new = False\<rparr>"
  let ?db2 = "?db\<lparr>tbl_channels := [((lit ''5'', lit ''h''), 7)]\<rparr>"
  let ?db4 = "update_last_seen 900 (lit ''5'') ?db2"
  have 1: "get_or_create_caller NoFault 100 (\<lambda>k. None) (lit ''5'') ?db = Some (Inr ?i, ?db)"
    by (simp add: get_or_create_caller_def update_last_seen_def)
  have 2: "get_or_create_caller NoFault 900 (\<lambda>k. None) (lit ''5'') ?db2 = Some (Inr ?i, ?db4)"
    by (simp add: get_or_create_caller_def)
  have 3: "set_last_channel_id True NoFault (lit ''5'') (lit ''h'') 7 ?db = (Inr (), ?db2)"
    by (simp add: set_last_channel_id_def)
  let ?stream = "[Inr (named_channel 7 (lit ''Den'')), Inr (ServerSync (Some 9))]"
  obtain client sent where 4: "connect 16 16 example_mumble_config True True True (\<lambda>_. True) ?stream
      = Inr (client, sent)"
    and 5: "hm_get (cl_channel_names client) 7 \<noteq> None" "cl_channel_id client \<noteq> 7"
    by (simp add: connect_def handshake_start_def named_channel_def handshake_channel_def example_mumble_config_def)
  have "rejoin_channel (fst (snd (caller_identity (bridge_for 1) (Some (lit ''5'')) (Inr ?i)
      (get_last_channel_id NoFault (lit ''5'') (cs_server_host ?cs) ?db4) 900 [])))
      (cl_channel_id client) (cl_max_channel_id client) True = cs_current_channel_id ?cs"
    by (rule conjunct2[OF returning_caller_rejoins[OF 1 _ refl _ _ _ 2 4, of ?cs initial_sys _ "[]"]])
      (simp_all add: persist_last_channel_def initial_sys_def 3 5)
  with 2 3 4 5(2) show ?thesis by (simp add: Let_def)
qed

end
